(* ===== verification/Prelude.thy ===== *)
theory Prelude
  imports Main "HOL-Library.Word"
begin

text \<open>
  Shared vocabulary of the development.

  \<^item> \<open>exc\<close> names the ways a C++ operation of the node can stop without a result: a failed
    \<open>assert\<close> and the exception types the modelled code throws through \<open>EOS_ASSERT\<close> and
    \<open>FC_ASSERT\<close>.  A fallible operation returns \<open>exc + 'a\<close>; \<open>rbind\<close> sequences such
    operations and \<open>ensure\<close> is one check.
  \<^item> The collection \<open>res_simps\<close> inverts a successful run: it turns ``the operation returned
    \<open>Inr y\<close>'' into the checks it passed.
  \<^item> The remaining lemmas are the generic facts on lists, words and options that the
    component theories share.
\<close>

named_theorems res_simps \<open>inversion of successful fallible operations\<close>
named_theorems word_nat \<open>reading word comparisons and differences over the naturals\<close>

section \<open>Errors as values\<close>

datatype exc =
    Assert_failed
  | Fc_assert_exception
  | Invalid_qc
  | Invalid_qc_signature
  | Invalid_qc_claim
  | Finalizer_safety_exception
  | Chain_exception
  | Block_too_old_exception
  | Unlinkable_block_exception
  | Wrong_producer
  | Producer_schedule_exception
  | Invalid_block_header_extension
  | Block_validate_exception
  | Fork_database_exception
  | Fork_db_block_not_found
  | Out_of_range_exception
  | Invalid_argument
  | Wasm_execution_error
  | Bad_optional_access
  | Ill_formed_protocol_feature_activation
  | Ill_formed_additional_block_signatures_extension
  | Invalid_block_extension
  | Wrong_signing_key
  | No_block_signatures

type_synonym 'a res = "exc + 'a"

definition rbind :: "'a res \<Rightarrow> ('a \<Rightarrow> 'b res) \<Rightarrow> 'b res" where
  "rbind m f = (case m of Inl e \<Rightarrow> Inl e | Inr x \<Rightarrow> f x)"

definition ensure :: "bool \<Rightarrow> exc \<Rightarrow> 'a res \<Rightarrow> 'a res" where
  "ensure b e k = (if b then k else Inl e)"

text \<open>\<open>vec[i]\<close>: an index out of range has no defined result; the model makes it an error.\<close>

definition vec_at :: "'a list \<Rightarrow> nat \<Rightarrow> 'a res" where
  "vec_at xs i = (if i < length xs then Inr (xs ! i) else Inl Assert_failed)"

lemma rbind_simps [simp]:
  "rbind (Inl e) f = Inl e"
  "rbind (Inr x) f = f x"
  by (simp_all add: rbind_def)

lemma ensure_simps [simp]:
  "ensure True e k = k"
  "ensure False e k = Inl e"
  by (simp_all add: ensure_def)

lemma rbind_Inr_iff [res_simps]: "rbind m f = Inr y \<longleftrightarrow> (\<exists>x. m = Inr x \<and> f x = Inr y)"
  by (cases m) auto

lemma ensure_Inr_iff [res_simps]: "ensure b e k = Inr y \<longleftrightarrow> b \<and> k = Inr y"
  by (auto simp: ensure_def)

lemma vec_at_Inr_iff [res_simps]: "vec_at xs i = Inr y \<longleftrightarrow> i < length xs \<and> y = xs ! i"
  by (auto simp: vec_at_def)

lemma vec_at_in_range [simp]: "i < length xs \<Longrightarrow> vec_at xs i = Inr (xs ! i)"
  by (simp add: vec_at_def)

text \<open>For samples: an evaluated case expression gives the value it tests.\<close>

lemma case_evaluated:
  "(case x of Inl _ \<Rightarrow> False | Inr a \<Rightarrow> P a) \<longleftrightarrow> (\<exists>a. x = Inr a \<and> P a)"
  "(case y of None \<Rightarrow> False | Some b \<Rightarrow> Q b) \<longleftrightarrow> (\<exists>b. y = Some b \<and> Q b)"
  by (auto split: sum.split option.split)

lemma ensure_true: "b \<Longrightarrow> ensure b e k = k"
  by simp

text \<open>Loops over a sequence: a loop of checks, and a loop that updates a state.\<close>

fun each :: "('a \<Rightarrow> unit res) \<Rightarrow> 'a list \<Rightarrow> unit res" where
  "each f [] = Inr ()"
| "each f (x # xs) = rbind (f x) (\<lambda>_. each f xs)"

fun fold_res :: "('a \<Rightarrow> 'b \<Rightarrow> 'b res) \<Rightarrow> 'a list \<Rightarrow> 'b \<Rightarrow> 'b res" where
  "fold_res f [] s = Inr s"
| "fold_res f (x # xs) s = rbind (f x s) (fold_res f xs)"

lemma each_Inr_iff [res_simps]: "each f xs = Inr u \<longleftrightarrow> (\<forall>x \<in> set xs. f x = Inr ())"
  by (induction xs) (auto simp: rbind_Inr_iff)

lemma each_cong: "(\<And>x. x \<in> set xs \<Longrightarrow> f x = g x) \<Longrightarrow> each f xs = each g xs"
  by (induction xs) auto

lemma each_ensure: "each (\<lambda>x. ensure (P x) e (Inr ())) xs = ensure (list_all P xs) e (Inr ())"
  by (induction xs) (auto simp: ensure_def)

lemma fold_res_append: "fold_res f (xs @ ys) s = rbind (fold_res f xs s) (fold_res f ys)"
  by (induction xs arbitrary: s) (auto simp: rbind_def split: sum.splits)

lemma fold_res_pure: "fold_res (\<lambda>x s. Inr (f x s)) xs s = Inr (fold f xs s)"
  by (induction xs arbitrary: s) simp_all

lemma fold_res_cong:
  "(\<And>x s. x \<in> set xs \<Longrightarrow> f x s = g x s) \<Longrightarrow> fold_res f xs s = fold_res g xs s"
  by (induction xs arbitrary: s) (auto simp: rbind_def split: sum.splits)

section \<open>Words as naturals\<close>

lemmas word_le_nat [word_nat] = word_le_nat_alt
lemmas word_less_nat [word_nat] = word_less_nat_alt

lemma unat_sub_le [word_nat]: "b \<le> (a :: 'a::len word) \<Longrightarrow> unat (a - b) = unat a - unat b"
  by (simp add: unat_sub)

lemma unat_Suc_no_wrap:
  "unat (a :: 32 word) + 1 < 2 ^ 32 \<Longrightarrow> unat (a + 1) = unat a + 1"
  by (subst unat_add_lem [THEN iffD1]) simp_all

section \<open>Consecutive numbering of a list\<close>

text \<open>
  The vectors of the finality core are numbered consecutively; the pointwise form used in the
  source's comments and the interval form used in the proofs are the same.
\<close>

lemma consecutive_iff:
  assumes "xs \<noteq> []"
  shows "(\<forall>i. Suc i < length xs \<longrightarrow> f (xs ! i) + 1 = f (xs ! Suc i)) \<longleftrightarrow>
         map f xs = [f (hd xs) ..< f (hd xs) + length xs]"
proof
  assume step: "\<forall>i. Suc i < length xs \<longrightarrow> f (xs ! i) + 1 = f (xs ! Suc i)"
  have "i < length xs \<Longrightarrow> f (xs ! i) = f (hd xs) + i" for i
  proof (induction i)
    case 0
    with assms show ?case by (simp add: hd_conv_nth)
  next
    case (Suc i)
    from Suc.prems have "i < length xs" by simp
    then have "f (xs ! i) = f (hd xs) + i" by (rule Suc.IH)
    with step Suc.prems show ?case by (metis Suc_eq_plus1 add_Suc_right)
  qed
  then show "map f xs = [f (hd xs) ..< f (hd xs) + length xs]"
    by (intro nth_equalityI) simp_all
next
  assume eq: "map f xs = [f (hd xs) ..< f (hd xs) + length xs]"
  have "i < length xs \<Longrightarrow> f (xs ! i) = f (hd xs) + i" for i
    using arg_cong [OF eq, of "\<lambda>ys. ys ! i"] by simp
  then show "\<forall>i. Suc i < length xs \<longrightarrow> f (xs ! i) + 1 = f (xs ! Suc i)"
    by simp
qed

lemma consecutive_nth:
  "map f xs = [a ..< a + length xs] \<Longrightarrow> i < length xs \<Longrightarrow> f (xs ! i) = a + i"
  by (metis add_less_cancel_left nth_map nth_upt)

lemma consecutive_drop:
  "map f xs = [a ..< a + length xs] \<Longrightarrow> k \<le> length xs \<Longrightarrow>
   map f (drop k xs) = [a + k ..< (a + k) + length (drop k xs)]"
  by (simp add: drop_map [symmetric])

lemma consecutive_snoc:
  "map f xs = [a ..< a + length xs] \<Longrightarrow> f x = a + length xs \<Longrightarrow>
   map f (xs @ [x]) = [a ..< a + length (xs @ [x])]"
  by simp

lemma sorted_last_ge: "sorted xs \<Longrightarrow> x \<in> set xs \<Longrightarrow> x \<le> last xs"
  by (cases xs rule: rev_cases) (auto simp: sorted_append)

lemma sorted_hd_le: "sorted xs \<Longrightarrow> x \<in> set xs \<Longrightarrow> hd xs \<le> x"
  by (cases xs) auto

end
