(* ===== verification/Chain_Types.thy ===== *)
theory Chain_Types
  imports Prelude "HOL-Library.List_Lexorder"
begin

text \<open>
  The value types the chain library is built on.

  \<^item> \<open>sha256\<close>: \<open>fc::sha256\<close>, four 64-bit words, with the byte image \<open>sha256_data\<close> (the
    machine is little endian), \<open>sha256_empty\<close> and the \<open>memcmp\<close> order that the fork database
    uses to break ties.
  \<^item> \<open>num_from_id\<close> and \<open>embed_block_num\<close>: a block id carries its block number in the first
    four bytes, big endian (\<open>block_header::num_from_id\<close>, \<open>block_header::calculate_id\<close>).
  \<^item> \<open>block_timestamp_type\<close>: the slot number, the only field of \<open>block_timestamp\<close>.

  The lemmas show that the byte image determines the digest, that the order is total, and that
  the block number written into an id is the one read back.
\<close>

unbundle bit_operations_syntax

type_synonym block_num_type = "32 word"
type_synonym block_timestamp_type = "32 word"
type_synonym byte = "8 word"

section \<open>Digests and block ids\<close>

datatype sha256 = Sha256 (hash0: "64 word") (hash1: "64 word") (hash2: "64 word") (hash3: "64 word")

type_synonym digest_type = sha256
type_synonym block_id_type = sha256

definition sha256_zero :: sha256 where
  "sha256_zero = Sha256 0 0 0 0"

definition sha256_empty :: "sha256 \<Rightarrow> bool" where
  "sha256_empty h \<longleftrightarrow> (hash0 h OR hash1 h OR hash2 h OR hash3 h) = 0"

fun le_bytes :: "nat \<Rightarrow> 'a::len word \<Rightarrow> byte list" where
  "le_bytes 0 w = []"
| "le_bytes (Suc n) w = ucast w # le_bytes n (drop_bit 8 w)"

definition u64_bytes :: "64 word \<Rightarrow> byte list" where
  "u64_bytes w = le_bytes 8 w"

definition sha256_data :: "sha256 \<Rightarrow> byte list" where
  "sha256_data h = u64_bytes (hash0 h) @ u64_bytes (hash1 h) @ u64_bytes (hash2 h) @ u64_bytes (hash3 h)"

lemma length_le_bytes [simp]: "length (le_bytes n w) = n"
  by (induction n arbitrary: w) simp_all

lemma length_u64_bytes [simp]: "length (u64_bytes w) = 8"
  by (simp add: u64_bytes_def)

lemma le_bytes_bit:
  "i < n \<Longrightarrow> j < 8 \<Longrightarrow> bit (le_bytes n w ! i) j \<longleftrightarrow> bit w (8 * i + j)"
proof (induction n arbitrary: w i)
  case 0
  then show ?case by simp
next
  case (Suc n)
  show ?case
  proof (cases i)
    case 0
    with Suc.prems show ?thesis by (simp add: bit_ucast_iff)
  next
    case (Suc k)
    with Suc.prems have "k < n" by simp
    with Suc.IH [of k "drop_bit 8 w"] Suc.prems Suc show ?thesis
      by (simp add: bit_drop_bit_eq algebra_simps)
  qed
qed

lemma le_bytes_inject:
  assumes "le_bytes n (v :: 'a::len word) = le_bytes n w" and "LENGTH('a) \<le> 8 * n"
  shows "v = w"
proof (rule bit_word_eqI)
  fix k assume k: "k < LENGTH('a)"
  then have "k div 8 < n" and "k mod 8 < 8"
    using assms(2) by (auto simp: less_mult_imp_div_less mult.commute)
  from le_bytes_bit [OF this, of v] le_bytes_bit [OF this, of w] assms(1)
  show "bit v k \<longleftrightarrow> bit w k" by simp
qed

lemma u64_bytes_inject [simp]: "u64_bytes v = u64_bytes w \<longleftrightarrow> v = w"
  by (auto simp: u64_bytes_def dest: le_bytes_inject)

lemma sha256_data_inject [simp]: "sha256_data a = sha256_data b \<longleftrightarrow> a = b"
  by (cases a; cases b) (simp add: sha256_data_def)

lemma length_sha256_data [simp]: "length (sha256_data h) = 32"
  by (simp add: sha256_data_def)

lemma sha256_empty_iff: "sha256_empty h \<longleftrightarrow> h = sha256_zero"
  by (cases h) (simp add: sha256_empty_def sha256_zero_def or_eq_0_iff)

text \<open>\<open>operator<=>\<close> on \<open>sha256\<close> is \<open>memcmp\<close> over the 32 bytes.\<close>

definition sha256_le :: "sha256 \<Rightarrow> sha256 \<Rightarrow> bool" where
  "sha256_le a b \<longleftrightarrow> sha256_data a \<le> sha256_data b"

definition sha256_less :: "sha256 \<Rightarrow> sha256 \<Rightarrow> bool" where
  "sha256_less a b \<longleftrightarrow> sha256_data a < sha256_data b"

instantiation sha256 :: linorder
begin

definition less_eq_sha256 :: "sha256 \<Rightarrow> sha256 \<Rightarrow> bool" where
  "less_eq_sha256 = sha256_le"

definition less_sha256 :: "sha256 \<Rightarrow> sha256 \<Rightarrow> bool" where
  "less_sha256 = sha256_less"

instance
  by standard (auto simp: less_eq_sha256_def less_sha256_def sha256_le_def sha256_less_def less_le_not_le)

end

section \<open>Block numbers inside block ids\<close>

definition endian_reverse_u32 :: "32 word \<Rightarrow> 32 word" where
  "endian_reverse_u32 x =
     (drop_bit 0x18 x AND 0xFF)
     OR push_bit 0x08 (drop_bit 0x10 x AND 0xFF)
     OR push_bit 0x10 (drop_bit 0x08 x AND 0xFF)
     OR push_bit 0x18 (x AND 0xFF)"

definition num_from_id :: "block_id_type \<Rightarrow> block_num_type" where
  "num_from_id h = endian_reverse_u32 (ucast (hash0 h))"

text \<open>The two assignments of \<open>block_header::calculate_id\<close> to \<open>result._hash[0]\<close>.\<close>

definition embed_block_num :: "digest_type \<Rightarrow> block_num_type \<Rightarrow> block_id_type" where
  "embed_block_num d n =
     Sha256 ((hash0 d AND 0xffffffff00000000) + ucast (endian_reverse_u32 n)) (hash1 d) (hash2 d) (hash3 d)"

lemma byte_mask: "(0xFF :: 32 word) = mask 8"
  by (simp add: mask_eq_decr_exp)

lemma high_half_mask: "(0xffffffff00000000 :: 64 word) = push_bit 32 (mask 32)"
  by (simp add: mask_eq_decr_exp push_bit_eq_mult)

lemma endian_reverse_u32_bit:
  "n < 32 \<Longrightarrow> bit (endian_reverse_u32 x) n \<longleftrightarrow> bit x (24 - 8 * (n div 8) + n mod 8)"
proof -
  assume "n < 32"
  then consider "n < 8" | "8 \<le> n" "n < 16" | "16 \<le> n" "n < 24" | "24 \<le> n" "n < 32"
    by linarith
  then show ?thesis
  proof cases
    case 1
    then have "n div 8 = 0" and "n mod 8 = n" by auto
    with 1 show ?thesis
      by (auto simp: endian_reverse_u32_def byte_mask bit_simps add.commute)
  next
    case 2
    then have "n div 8 = 1" and "n mod 8 = n - 8" by (auto simp: mod_if)
    with 2 show ?thesis
      by (auto simp: endian_reverse_u32_def byte_mask bit_simps add.commute)
  next
    case 3
    then have "n div 8 = 2" and "n mod 8 = n - 16" by (auto simp: mod_if)
    with 3 show ?thesis
      by (auto simp: endian_reverse_u32_def byte_mask bit_simps add.commute)
  next
    case 4
    then have "n div 8 = 3" and "n mod 8 = n - 24" by (auto simp: mod_if)
    with 4 show ?thesis
      by (auto simp: endian_reverse_u32_def byte_mask bit_simps add.commute)
  qed
qed

lemma endian_reverse_u32_involution [simp]: "endian_reverse_u32 (endian_reverse_u32 x) = x"
proof (rule bit_word_eqI)
  fix n assume "n < LENGTH(32)"
  then have n: "n < 32" by simp
  let ?m = "24 - 8 * (n div 8) + n mod 8"
  from n have d: "n div 8 \<le> 3" by arith
  have "?m < 32" by linarith
  moreover from d have "24 - 8 * (n div 8) = 8 * (3 - n div 8)" by (simp add: right_diff_distrib')
  then have "?m div 8 = 3 - n div 8" and "?m mod 8 = n mod 8" by simp_all
  moreover from d have "24 - 8 * (3 - n div 8) + n mod 8 = n" by arith
  ultimately show "bit (endian_reverse_u32 (endian_reverse_u32 x)) n \<longleftrightarrow> bit x n"
    using n by (simp add: endian_reverse_u32_bit)
qed

lemma low_half_of_embedding:
  "(ucast (((h :: 64 word) AND 0xffffffff00000000) + ucast (r :: 32 word)) :: 32 word) = r"
proof -
  have "(h AND 0xffffffff00000000) + ucast r = (h AND 0xffffffff00000000) OR ucast r"
    by (rule disjunctive_add) (auto simp: high_half_mask bit_simps dest: bit_imp_le_length)
  then show ?thesis
    by (intro bit_word_eqI) (simp add: high_half_mask bit_simps)
qed

lemma num_from_embed_block_num [simp]: "num_from_id (embed_block_num d n) = n"
  by (simp add: num_from_id_def embed_block_num_def low_half_of_embedding)

lemma num_from_id_zero [simp]: "num_from_id sha256_zero = 0"
  by (simp add: num_from_id_def sha256_zero_def endian_reverse_u32_def)

section \<open>Producer rounds\<close>

text \<open>\<open>block_header_state_utils.hpp\<close>; slots are \<open>uint32_t\<close>, \<open>producer_repetitions\<close> is 12.\<close>

definition producer_repetitions :: "32 word" where
  "producer_repetitions = 12"

definition get_current_round_start_slot :: "block_timestamp_type \<Rightarrow> 32 word" where
  "get_current_round_start_slot t = t - (t mod producer_repetitions)"

definition in_same_round :: "block_timestamp_type \<Rightarrow> block_timestamp_type \<Rightarrow> bool" where
  "in_same_round nxt cur \<longleftrightarrow> nxt < get_current_round_start_slot cur + producer_repetitions"

definition get_prior_round_start_slot :: "block_timestamp_type \<Rightarrow> 32 word option" where
  "get_prior_round_start_slot t =
     (if t < producer_repetitions then None
      else Some (get_current_round_start_slot t - producer_repetitions))"

definition first_block_of_round :: "block_timestamp_type \<Rightarrow> block_timestamp_type \<Rightarrow> bool res" where
  "first_block_of_round curr_block_time parent_block_time =
     ensure (parent_block_time < curr_block_time) Assert_failed
       (Inr (parent_block_time < get_current_round_start_slot curr_block_time))"

end
