(* ===== verification/Finality_Core.thy ===== *)
theory Finality_Core
  imports Chain_Types
begin

text \<open>
  The finality core of a Savanna block (\<open>finality_core.hpp\<close>, \<open>finality_core.cpp\<close>): the links
  between blocks and the ancestors they claim a quorum certificate for, and the references to the
  blocks that are not yet final.  Every accessor and the transition \<open>core_next\<close> is modelled with its
  \<open>assert\<close>s as error results, so that ``no assertion fails'' is a provable statement.

  The invariant \<open>core_inv\<close> is the list of numbered invariants of the header.  The lemmas show that
  the genesis core satisfies it, that \<open>core_next\<close> preserves it without failing an assertion, and the
  documented postconditions.  \<open>core_repr\<close> relates a core to the complete history of the chain: the
  core is a window of it, and the last final block is the one the two-chain rule selects from the
  whole history.
\<close>

section \<open>Data\<close>

record block_ref =
  ref_block_id :: block_id_type
  ref_timestamp :: block_timestamp_type
  ref_finality_digest :: digest_type
  ref_active_policy_generation :: "32 word"
  ref_pending_policy_generation :: "32 word"

definition block_ref_default :: block_ref where
  "block_ref_default = \<lparr>ref_block_id = sha256_zero, ref_timestamp = 0, ref_finality_digest = sha256_zero,
     ref_active_policy_generation = 0, ref_pending_policy_generation = 0\<rparr>"

definition ref_empty :: "block_ref \<Rightarrow> bool" where
  "ref_empty r \<longleftrightarrow> sha256_empty (ref_block_id r)"

definition ref_block_num :: "block_ref \<Rightarrow> block_num_type" where
  "ref_block_num r = num_from_id (ref_block_id r)"

record qc_link =
  source_block_num :: block_num_type
  target_block_num :: block_num_type
  is_link_strong :: bool

text \<open>\<open>qc_claim_t\<close> with its defaulted comparison: first the block number, then the strength.\<close>

datatype qc_claim_t = Qc_claim (claim_block_num: block_num_type) (is_strong_qc: bool)

definition qc_claim_le :: "qc_claim_t \<Rightarrow> qc_claim_t \<Rightarrow> bool" where
  "qc_claim_le a b \<longleftrightarrow>
     claim_block_num a < claim_block_num b \<or>
     claim_block_num a = claim_block_num b \<and> (is_strong_qc a \<longrightarrow> is_strong_qc b)"

definition qc_claim_less :: "qc_claim_t \<Rightarrow> qc_claim_t \<Rightarrow> bool" where
  "qc_claim_less a b \<longleftrightarrow>
     claim_block_num a < claim_block_num b \<or>
     claim_block_num a = claim_block_num b \<and> \<not> is_strong_qc a \<and> is_strong_qc b"

instantiation qc_claim_t :: linorder
begin

definition less_eq_qc_claim_t :: "qc_claim_t \<Rightarrow> qc_claim_t \<Rightarrow> bool" where
  "less_eq_qc_claim_t = qc_claim_le"

definition less_qc_claim_t :: "qc_claim_t \<Rightarrow> qc_claim_t \<Rightarrow> bool" where
  "less_qc_claim_t = qc_claim_less"

instance
  by standard (auto simp: less_eq_qc_claim_t_def less_qc_claim_t_def qc_claim_le_def qc_claim_less_def qc_claim_t.expand)

end

lemmas claim_le_iff = less_eq_qc_claim_t_def qc_claim_le_def

record core_metadata =
  md_last_final_block_num :: block_num_type
  md_latest_qc_claim_block_num :: block_num_type

record finality_core =
  links :: "qc_link list"
  refs :: "block_ref list"
  genesis_timestamp :: block_timestamp_type

section \<open>Operations\<close>

definition create_core_for_genesis_block :: "block_id_type \<Rightarrow> block_timestamp_type \<Rightarrow> finality_core" where
  "create_core_for_genesis_block bid ts =
     (let block_num = num_from_id bid in
      \<lparr>links = [\<lparr>source_block_num = block_num, target_block_num = block_num, is_link_strong = False\<rparr>],
       refs = [], genesis_timestamp = ts\<rparr>)"

definition is_genesis_core :: "finality_core \<Rightarrow> bool" where
  "is_genesis_core c \<longleftrightarrow> refs c = []"

definition current_block_num :: "finality_core \<Rightarrow> block_num_type res" where
  "current_block_num c =
     ensure (links c \<noteq> []) Assert_failed (Inr (source_block_num (last (links c))))"

definition last_final_block_num :: "finality_core \<Rightarrow> block_num_type res" where
  "last_final_block_num c =
     ensure (links c \<noteq> []) Assert_failed (Inr (target_block_num (hd (links c))))"

definition latest_qc_claim :: "finality_core \<Rightarrow> qc_claim_t res" where
  "latest_qc_claim c =
     ensure (links c \<noteq> []) Assert_failed
       (Inr (Qc_claim (target_block_num (last (links c))) (is_link_strong (last (links c)))))"

definition get_block_reference :: "finality_core \<Rightarrow> block_num_type \<Rightarrow> block_ref res" where
  "get_block_reference c block_num =
     rbind (last_final_block_num c) (\<lambda>lf.
     ensure (lf \<le> block_num) Assert_failed (
     rbind (current_block_num c) (\<lambda>cur.
     ensure (block_num < cur) Assert_failed (
     let ref_index = unat (block_num - lf) in
     ensure (ref_index < length (refs c)) Assert_failed (
     Inr (refs c ! ref_index))))))"

definition last_final_block_timestamp :: "finality_core \<Rightarrow> block_timestamp_type res" where
  "last_final_block_timestamp c =
     (if is_genesis_core c then Inr (genesis_timestamp c)
      else rbind (last_final_block_num c) (\<lambda>lf.
           rbind (get_block_reference c lf) (\<lambda>r. Inr (ref_timestamp r))))"

definition latest_qc_block_timestamp :: "finality_core \<Rightarrow> block_timestamp_type res" where
  "latest_qc_block_timestamp c =
     ensure (links c \<noteq> []) Assert_failed (
     if is_genesis_core c then Inr (genesis_timestamp c)
     else rbind (get_block_reference c (target_block_num (last (links c)))) (\<lambda>r. Inr (ref_timestamp r)))"

definition extends :: "finality_core \<Rightarrow> block_id_type \<Rightarrow> bool res" where
  "extends c bid =
     (let block_num = num_from_id bid in
      rbind (last_final_block_num c) (\<lambda>lf.
      rbind (current_block_num c) (\<lambda>cur.
      if lf \<le> block_num \<and> block_num < cur
      then rbind (get_block_reference c block_num) (\<lambda>ref. Inr (ref_block_id ref = bid))
      else Inr False)))"

definition is_genesis_block_num :: "finality_core \<Rightarrow> block_num_type \<Rightarrow> bool res" where
  "is_genesis_block_num c candidate =
     rbind (last_final_block_num c) (\<lambda>lf.
     rbind (current_block_num c) (\<lambda>cur.
     ensure (lf \<le> candidate \<and> candidate \<le> cur) Assert_failed (
     Inr (source_block_num (hd (links c)) = target_block_num (hd (links c)) \<and>
          source_block_num (hd (links c)) = candidate))))"

definition get_qc_link_from :: "finality_core \<Rightarrow> block_num_type \<Rightarrow> qc_link res" where
  "get_qc_link_from c block_num =
     ensure (links c \<noteq> []) Assert_failed (
     ensure (source_block_num (hd (links c)) \<le> block_num) Assert_failed (
     rbind (current_block_num c) (\<lambda>cur.
     ensure (block_num \<le> cur) Assert_failed (
     let link_index = unat (block_num - source_block_num (hd (links c))) in
     ensure (link_index < length (links c)) Assert_failed (
     Inr (links c ! link_index))))))"

definition get_new_block_numbers ::
  "finality_core \<Rightarrow> qc_claim_t \<Rightarrow> (block_num_type \<times> block_num_type) res" where
  "get_new_block_numbers c mra =
     rbind (current_block_num c) (\<lambda>cur.
     ensure (claim_block_num mra \<le> cur) Assert_failed (
     rbind (latest_qc_claim c) (\<lambda>lqc.
     ensure (claim_block_num lqc \<le> claim_block_num mra) Assert_failed (
     ensure (source_block_num (hd (links c)) \<le> claim_block_num mra) Assert_failed (
     rbind (last_final_block_num c) (\<lambda>lf.
     if \<not> is_strong_qc mra then Inr (lf, source_block_num (hd (links c)))
     else rbind (get_qc_link_from c (claim_block_num mra)) (\<lambda>link.
       ensure (lf \<le> target_block_num link) Assert_failed (
       ensure (source_block_num (hd (links c)) \<le> source_block_num link) Assert_failed (
       ensure (claim_block_num lqc \<le> claim_block_num mra) Assert_failed (
       Inr (target_block_num link, source_block_num link)))))))))))"

definition next_metadata :: "finality_core \<Rightarrow> qc_claim_t \<Rightarrow> core_metadata res" where
  "next_metadata c mra =
     rbind (current_block_num c) (\<lambda>cur.
     ensure (claim_block_num mra \<le> cur) Assert_failed (
     rbind (latest_qc_claim c) (\<lambda>lqc.
     ensure (lqc \<le> mra) Assert_failed (
     rbind (get_new_block_numbers c mra) (\<lambda>(new_lf, _).
     Inr \<lparr>md_last_final_block_num = new_lf, md_latest_qc_claim_block_num = claim_block_num mra\<rparr>)))))"

definition core_next :: "finality_core \<Rightarrow> block_ref \<Rightarrow> qc_claim_t \<Rightarrow> finality_core res" where
  "core_next c current_block mra =
     rbind (current_block_num c) (\<lambda>cur.
     ensure (ref_block_num current_block = cur) Assert_failed (
     ensure (refs c = [] \<or> ref_block_num (last (refs c)) + 1 = ref_block_num current_block) Assert_failed (
     ensure (refs c = [] \<or> ref_timestamp (last (refs c)) < ref_timestamp current_block) Assert_failed (
     ensure (claim_block_num mra \<le> cur) Assert_failed (
     rbind (latest_qc_claim c) (\<lambda>lqc.
     ensure (lqc \<le> mra) Assert_failed (
     rbind (get_new_block_numbers c mra) (\<lambda>(new_lf, new_front_source).
     ensure (new_lf \<le> new_front_source) Assert_failed (
     ensure (new_front_source \<le> claim_block_num mra) Assert_failed (
     rbind (last_final_block_num c) (\<lambda>lf.
     ensure (lf \<le> new_lf) Assert_failed (
     ensure (source_block_num (hd (links c)) \<le> new_front_source) Assert_failed (
     let links_index = unat (new_front_source - source_block_num (hd (links c))) in
     ensure (links_index < length (links c)) Assert_failed (
     let kept_links = drop links_index (links c) in
     ensure (target_block_num (hd kept_links) = new_lf) Assert_failed (
     ensure (source_block_num (last kept_links) = cur) Assert_failed (
     ensure (target_block_num (last kept_links) \<le> claim_block_num mra) Assert_failed (
     let new_links = kept_links @ [\<lparr>source_block_num = cur + 1,
                                    target_block_num = claim_block_num mra,
                                    is_link_strong = is_strong_qc mra\<rparr>];
         refs_index = unat (new_lf - lf) in
     ensure (refs c \<noteq> [] \<or> refs_index = 0) Assert_failed (
     ensure (refs c = [] \<or> refs_index < length (refs c)) Assert_failed (
     let kept_refs = drop refs_index (refs c) in
     ensure (refs c = [] \<or> ref_block_num (hd kept_refs) = new_lf) Assert_failed (
     let new_refs = kept_refs @ [current_block] in
     ensure (ref_block_num (hd new_refs) = new_lf) Assert_failed (
     ensure (claim_block_num lqc \<le> target_block_num (last new_links)) Assert_failed (
     Inr \<lparr>links = new_links, refs = new_refs, genesis_timestamp = 0\<rparr>))))))))))))))))))))))"

section \<open>The invariant of the header\<close>

text \<open>
  The conjuncts follow the numbering of \<open>finality_core.hpp\<close> (1 to 7), then the requirement
  stated at \<open>qc_link::target_block_num\<close>.  Successive numbers are compared as naturals, so the
  invariant also says that the 32-bit numbers have not wrapped around.
\<close>

definition core_inv :: "finality_core \<Rightarrow> bool" where
  "core_inv c \<longleftrightarrow>
     links c \<noteq> [] \<and>
     (target_block_num (hd (links c)) \<le> source_block_num (hd (links c)) \<and>
      source_block_num (hd (links c)) \<le> target_block_num (last (links c))) \<and>
     (refs c = [] \<longrightarrow> length (links c) = 1 \<and>
        target_block_num (last (links c)) = source_block_num (last (links c))) \<and>
     (refs c \<noteq> [] \<longrightarrow> ref_block_num (hd (refs c)) = target_block_num (hd (links c))) \<and>
     (refs c \<noteq> [] \<longrightarrow>
        unat (ref_block_num (last (refs c))) + 1 = unat (source_block_num (last (links c)))) \<and>
     (\<forall>i. Suc i < length (refs c) \<longrightarrow>
        unat (ref_block_num (refs c ! i)) + 1 = unat (ref_block_num (refs c ! Suc i)) \<and>
        ref_timestamp (refs c ! i) < ref_timestamp (refs c ! Suc i)) \<and>
     (\<forall>i. Suc i < length (links c) \<longrightarrow>
        unat (source_block_num (links c ! i)) + 1 = unat (source_block_num (links c ! Suc i)) \<and>
        target_block_num (links c ! i) \<le> target_block_num (links c ! Suc i)) \<and>
     (\<forall>i < length (links c). target_block_num (links c ! i) < source_block_num (links c ! i) \<or>
        i = 0 \<and> target_block_num (links c ! i) = source_block_num (links c ! i))"

abbreviation src_num :: "qc_link \<Rightarrow> nat" where
  "src_num l \<equiv> unat (source_block_num l)"

abbreviation tgt_num :: "qc_link \<Rightarrow> nat" where
  "tgt_num l \<equiv> unat (target_block_num l)"

abbreviation ref_num :: "block_ref \<Rightarrow> nat" where
  "ref_num r \<equiv> unat (ref_block_num r)"

text \<open>The same invariant with whole vectors instead of indices: the form the proofs use.\<close>

definition core_win :: "finality_core \<Rightarrow> bool" where
  "core_win c \<longleftrightarrow>
     links c \<noteq> [] \<and>
     map src_num (links c) = [src_num (hd (links c)) ..< src_num (hd (links c)) + length (links c)] \<and>
     sorted (map tgt_num (links c)) \<and>
     map ref_num (refs c) = [tgt_num (hd (links c)) ..< tgt_num (hd (links c)) + length (refs c)] \<and>
     sorted_wrt (<) (map ref_timestamp (refs c)) \<and>
     src_num (last (links c)) = tgt_num (hd (links c)) + length (refs c) \<and>
     src_num (hd (links c)) \<le> tgt_num (last (links c)) \<and>
     tgt_num (hd (links c)) \<le> src_num (hd (links c)) \<and>
     (\<forall>l \<in> set (tl (links c)). tgt_num l < src_num l)"

lemma sorted_wrt_less_step:
  "sorted_wrt (<) (xs :: 'a::order list) \<longleftrightarrow> (\<forall>i. Suc i < length xs \<longrightarrow> xs ! i < xs ! Suc i)"
  using sorted_wrt_iff_nth_Suc_transp [of "(<)" xs] transp_on_less by blast

lemma tl_all_iff:
  "xs \<noteq> [] \<Longrightarrow> (\<forall>x \<in> set (tl xs). P x) \<longleftrightarrow> (\<forall>i. 0 < i \<longrightarrow> i < length xs \<longrightarrow> P (xs ! i))"
  by (cases xs) (auto simp: all_set_conv_all_nth nth_Cons split: nat.splits)

lemma last_consecutive:
  "xs \<noteq> [] \<Longrightarrow> map f xs = [a ..< a + length xs] \<Longrightarrow> f (last xs) + 1 = a + length xs"
  using consecutive_nth [of f xs a "length xs - 1"] by (cases xs) (auto simp: last_conv_nth)

lemma hd_consecutive:
  "xs \<noteq> [] \<Longrightarrow> map f xs = [a ..< a + length xs] \<Longrightarrow> f (hd xs) = a"
  using consecutive_nth [of f xs a 0] by (cases xs) auto

lemma core_inv_imp_win:
  assumes inv: "core_inv c"
  shows "core_win c"
proof -
  let ?L = "links c" and ?R = "refs c"
  from inv have ne: "?L \<noteq> []" by (simp add: core_inv_def)
  have "\<forall>i. Suc i < length ?L \<longrightarrow> src_num (?L ! i) + 1 = src_num (?L ! Suc i)"
    using inv by (simp add: core_inv_def)
  with consecutive_iff [OF ne] have
    L: "map src_num ?L = [src_num (hd ?L) ..< src_num (hd ?L) + length ?L]" by blast
  have T: "sorted (map tgt_num ?L)"
    using inv by (auto simp: core_inv_def sorted_iff_nth_Suc word_le_nat_alt)
  have "\<forall>i. 0 < i \<longrightarrow> i < length ?L \<longrightarrow> tgt_num (?L ! i) < src_num (?L ! i)"
    using inv unfolding core_inv_def by (metis less_not_refl word_less_nat_alt)
  with ne have strict: "\<forall>l \<in> set (tl ?L). tgt_num l < src_num l"
    by (simp add: tl_all_iff)
  have R: "map ref_num ?R = [tgt_num (hd ?L) ..< tgt_num (hd ?L) + length ?R] \<and>
           src_num (last ?L) = tgt_num (hd ?L) + length ?R"
  proof (cases "?R = []")
    case True
    with inv have "length ?L = 1" and "target_block_num (last ?L) = source_block_num (last ?L)"
      by (auto simp: core_inv_def)
    moreover from this(1) have "last ?L = hd ?L" by (cases ?L) auto
    ultimately show ?thesis using True by simp
  next
    case False
    with inv have hd: "ref_num (hd ?R) = tgt_num (hd ?L)"
      and last: "ref_num (last ?R) + 1 = src_num (last ?L)"
      by (auto simp: core_inv_def)
    have "\<forall>i. Suc i < length ?R \<longrightarrow> ref_num (?R ! i) + 1 = ref_num (?R ! Suc i)"
      using inv by (simp add: core_inv_def)
    with consecutive_iff [OF False] have
      "map ref_num ?R = [ref_num (hd ?R) ..< ref_num (hd ?R) + length ?R]" by blast
    with hd have *: "map ref_num ?R = [tgt_num (hd ?L) ..< tgt_num (hd ?L) + length ?R]" by simp
    with last_consecutive [OF False *] last show ?thesis by simp
  qed
  have "sorted_wrt (<) (map ref_timestamp ?R)"
    using inv by (simp add: core_inv_def sorted_wrt_less_step)
  with ne L T R strict inv show ?thesis
    by (simp add: core_win_def core_inv_def word_le_nat_alt)
qed

lemma core_win_imp_inv:
  assumes win: "core_win c"
  shows "core_inv c"
proof -
  let ?L = "links c" and ?R = "refs c"
  from win have ne: "?L \<noteq> []"
    and L: "map src_num ?L = [src_num (hd ?L) ..< src_num (hd ?L) + length ?L]"
    and T: "sorted (map tgt_num ?L)"
    and R: "map ref_num ?R = [tgt_num (hd ?L) ..< tgt_num (hd ?L) + length ?R]"
    and S: "sorted_wrt (<) (map ref_timestamp ?R)"
    and cur: "src_num (last ?L) = tgt_num (hd ?L) + length ?R"
    and q: "src_num (hd ?L) \<le> tgt_num (last ?L)"
    and hd: "tgt_num (hd ?L) \<le> src_num (hd ?L)"
    and strict: "\<forall>l \<in> set (tl ?L). tgt_num l < src_num l"
    by (auto simp: core_win_def)
  from last_consecutive [OF ne L] have len: "src_num (last ?L) + 1 = src_num (hd ?L) + length ?L" .
  have i3: "length ?L = 1 \<and> target_block_num (last ?L) = source_block_num (last ?L)" if "?R = []"
  proof -
    from that cur have "src_num (last ?L) = tgt_num (hd ?L)" by simp
    moreover from ne have "0 < length ?L" by simp
    ultimately have one: "length ?L = 1" using len hd by linarith
    then have "last ?L = hd ?L" by (cases ?L) auto
    with cur that have "tgt_num (last ?L) = src_num (last ?L)" by simp
    with one show ?thesis by (simp add: word_unat_eq_iff)
  qed
  have i4: "ref_block_num (hd ?R) = target_block_num (hd ?L)" if "?R \<noteq> []"
    using hd_consecutive [OF that R] by (simp add: word_unat_eq_iff)
  have i5: "ref_num (last ?R) + 1 = src_num (last ?L)" if "?R \<noteq> []"
    using last_consecutive [OF that R] cur by simp
  have i6: "\<forall>i. Suc i < length ?R \<longrightarrow> ref_num (?R ! i) + 1 = ref_num (?R ! Suc i)"
    using consecutive_nth [OF R] by simp
  have i7: "\<forall>i. Suc i < length ?L \<longrightarrow> src_num (?L ! i) + 1 = src_num (?L ! Suc i)"
    using consecutive_nth [OF L] by simp
  from ne strict have "\<forall>i. 0 < i \<longrightarrow> i < length ?L \<longrightarrow> tgt_num (?L ! i) < src_num (?L ! i)"
    by (simp add: tl_all_iff)
  moreover from hd ne have "tgt_num (?L ! 0) \<le> src_num (?L ! 0)" by (simp add: hd_conv_nth)
  ultimately have i8: "\<forall>i < length ?L. tgt_num (?L ! i) < src_num (?L ! i) \<or>
      i = 0 \<and> target_block_num (?L ! i) = source_block_num (?L ! i)"
    by (metis le_neq_implies_less neq0_conv word_unat_eq_iff)
  show ?thesis
    unfolding core_inv_def word_less_nat_alt word_le_nat_alt
    using ne q hd i3 i4 i5 i6 i7 i8 T S
    by (auto simp: sorted_iff_nth_Suc sorted_wrt_less_step word_less_nat_alt)
qed

lemma core_inv_iff_win: "core_inv c \<longleftrightarrow> core_win c"
  using core_inv_imp_win core_win_imp_inv by blast

section \<open>The transition under the invariant\<close>

text \<open>
  Index, in the current vector of links, of the link that becomes the first one: the link leaving
  the claimed block for a strong claim, the present first link for a weak one.
\<close>

definition new_front_index :: "finality_core \<Rightarrow> qc_claim_t \<Rightarrow> nat" where
  "new_front_index c q =
     (if is_strong_qc q then unat (claim_block_num q) - src_num (hd (links c)) else 0)"

text \<open>The documented preconditions of \<open>next\<close>, and that the next block number exists.\<close>

definition claim_ok :: "finality_core \<Rightarrow> qc_claim_t \<Rightarrow> bool" where
  "claim_ok c q \<longleftrightarrow>
     claim_block_num q \<le> source_block_num (last (links c)) \<and>
     Qc_claim (target_block_num (last (links c))) (is_link_strong (last (links c))) \<le> q"

definition next_pre :: "finality_core \<Rightarrow> block_ref \<Rightarrow> qc_claim_t \<Rightarrow> bool" where
  "next_pre c b q \<longleftrightarrow>
     ref_block_num b = source_block_num (last (links c)) \<and>
     (refs c \<noteq> [] \<longrightarrow> ref_timestamp (last (refs c)) < ref_timestamp b) \<and>
     claim_ok c q \<and>
     unat (source_block_num (last (links c))) + 1 < 2 ^ 32"

lemma core_winD:
  assumes "core_win c"
  shows "links c \<noteq> []"
    and "i < length (links c) \<Longrightarrow> src_num (links c ! i) = src_num (hd (links c)) + i"
    and "src_num (last (links c)) + 1 = src_num (hd (links c)) + length (links c)"
    and "src_num (last (links c)) = tgt_num (hd (links c)) + length (refs c)"
    and "i < length (refs c) \<Longrightarrow> ref_num (refs c ! i) = tgt_num (hd (links c)) + i"
    and "tgt_num (hd (links c)) \<le> src_num (hd (links c))"
    and "src_num (hd (links c)) \<le> tgt_num (last (links c))"
proof -
  from assms have ne: "links c \<noteq> []"
    and L: "map src_num (links c) = [src_num (hd (links c)) ..< src_num (hd (links c)) + length (links c)]"
    and R: "map ref_num (refs c) = [tgt_num (hd (links c)) ..< tgt_num (hd (links c)) + length (refs c)]"
    by (auto simp: core_win_def)
  show "links c \<noteq> []" by fact
  show "i < length (links c) \<Longrightarrow> src_num (links c ! i) = src_num (hd (links c)) + i"
    using consecutive_nth [OF L] .
  show "src_num (last (links c)) + 1 = src_num (hd (links c)) + length (links c)"
    using last_consecutive [OF ne L] .
  show "i < length (refs c) \<Longrightarrow> ref_num (refs c ! i) = tgt_num (hd (links c)) + i"
    using consecutive_nth [OF R] .
qed (use assms in \<open>auto simp: core_win_def\<close>)

lemma core_win_targets:
  assumes "core_win c" and "i < length (links c)"
  shows "tgt_num (hd (links c)) \<le> tgt_num (links c ! i)"
    and "tgt_num (links c ! i) \<le> tgt_num (last (links c))"
    and "tgt_num (links c ! i) \<le> src_num (links c ! i)"
    and "0 < i \<Longrightarrow> tgt_num (links c ! i) < src_num (links c ! i)"
proof -
  from assms have T: "sorted (map tgt_num (links c))" and ne: "links c \<noteq> []"
    and strict: "\<forall>l \<in> set (tl (links c)). tgt_num l < src_num l"
    and hd: "tgt_num (hd (links c)) \<le> src_num (hd (links c))"
    by (auto simp: core_win_def)
  from assms(2) have mem: "tgt_num (links c ! i) \<in> set (map tgt_num (links c))" by simp
  from sorted_hd_le [OF T mem] ne show "tgt_num (hd (links c)) \<le> tgt_num (links c ! i)"
    by (simp add: hd_map)
  from sorted_last_ge [OF T mem] ne show "tgt_num (links c ! i) \<le> tgt_num (last (links c))"
    by (simp add: last_map)
  show lt: "0 < i \<Longrightarrow> tgt_num (links c ! i) < src_num (links c ! i)"
    using strict ne assms(2) by (simp add: tl_all_iff)
  show "tgt_num (links c ! i) \<le> src_num (links c ! i)"
    using lt hd ne by (cases i) (auto simp: hd_conv_nth)
qed

lemma claim_okD:
  assumes "core_win c" and "claim_ok c q"
  shows "unat (claim_block_num q) \<le> src_num (last (links c))"
    and "tgt_num (last (links c)) \<le> unat (claim_block_num q)"
    and "new_front_index c q < length (links c)"
    and "src_num (links c ! new_front_index c q) \<le> unat (claim_block_num q)"
proof -
  note W = core_winD [OF assms(1)]
  from assms(2) show 1: "unat (claim_block_num q) \<le> src_num (last (links c))"
    by (simp add: claim_ok_def word_le_nat_alt)
  from assms(2) show 2: "tgt_num (last (links c)) \<le> unat (claim_block_num q)"
    by (auto simp: claim_ok_def claim_le_iff word_le_nat_alt word_less_nat_alt)
  from W(1) have "0 < length (links c)" by simp
  with 1 2 W(3,7) show 3: "new_front_index c q < length (links c)"
    by (auto simp: new_front_index_def)
  from W(2) [OF 3] 2 W(7) show "src_num (links c ! new_front_index c q) \<le> unat (claim_block_num q)"
    by (auto simp: new_front_index_def)
qed

lemma core_accessors:
  assumes "links c \<noteq> []"
  shows "current_block_num c = Inr (source_block_num (last (links c)))"
    and "last_final_block_num c = Inr (target_block_num (hd (links c)))"
    and "latest_qc_claim c =
           Inr (Qc_claim (target_block_num (last (links c))) (is_link_strong (last (links c))))"
  using assms by (simp_all add: current_block_num_def last_final_block_num_def latest_qc_claim_def)

lemma get_qc_link_from_eq:
  assumes "core_win c" and "src_num (hd (links c)) \<le> unat n" and "unat n \<le> src_num (last (links c))"
  shows "get_qc_link_from c n = Inr (links c ! (unat n - src_num (hd (links c))))"
    and "source_block_num (links c ! (unat n - src_num (hd (links c)))) = n"
proof -
  note W = core_winD [OF assms(1)]
  let ?i = "unat n - src_num (hd (links c))"
  from W(3) assms(2,3) have i: "?i < length (links c)" by linarith
  from W(2) [OF i] assms(2) show "source_block_num (links c ! ?i) = n"
    by (simp add: word_unat_eq_iff)
  from i assms(2,3) W(1) show "get_qc_link_from c n = Inr (links c ! ?i)"
    by (simp add: get_qc_link_from_def core_accessors word_le_nat_alt unat_sub_le)
qed

lemma get_block_reference_eq:
  assumes "core_win c" and "tgt_num (hd (links c)) \<le> unat n" and "unat n < src_num (last (links c))"
  shows "get_block_reference c n = Inr (refs c ! (unat n - tgt_num (hd (links c))))"
    and "unat n - tgt_num (hd (links c)) < length (refs c)"
    and "ref_block_num (refs c ! (unat n - tgt_num (hd (links c)))) = n"
proof -
  note W = core_winD [OF assms(1)]
  let ?i = "unat n - tgt_num (hd (links c))"
  from W(4) assms(2,3) show i: "?i < length (refs c)" by linarith
  from W(5) [OF i] assms(2) show "ref_block_num (refs c ! ?i) = n"
    by (simp add: word_unat_eq_iff)
  from i assms(2,3) W(1) show "get_block_reference c n = Inr (refs c ! ?i)"
    by (simp add: get_block_reference_def core_accessors word_le_nat_alt word_less_nat_alt unat_sub_le)
qed

lemma get_new_block_numbers_eq:
  assumes win: "core_win c" and q: "claim_ok c q"
  shows "get_new_block_numbers c q =
           Inr (target_block_num (links c ! new_front_index c q),
                source_block_num (links c ! new_front_index c q))"
proof -
  note W = core_winD [OF win] and Q = claim_okD [OF win q]
  let ?l = "links c ! new_front_index c q"
  have src: "src_num (hd (links c)) \<le> unat (claim_block_num q)" using W(7) Q(2) by linarith
  show ?thesis
  proof (cases "is_strong_qc q")
    case False
    with W(1) Q src show ?thesis
      by (simp add: get_new_block_numbers_def core_accessors new_front_index_def hd_conv_nth
            word_le_nat_alt)
  next
    case True
    then have idx: "new_front_index c q = unat (claim_block_num q) - src_num (hd (links c))"
      by (simp add: new_front_index_def)
    from get_qc_link_from_eq [OF win src Q(1)]
    have "get_qc_link_from c (claim_block_num q) = Inr ?l" by (simp add: idx)
    moreover from core_win_targets(1) [OF win Q(3)]
    have "tgt_num (hd (links c)) \<le> tgt_num ?l" .
    moreover from W(2) [OF Q(3)] have "src_num (hd (links c)) \<le> src_num ?l" by simp
    ultimately show ?thesis using True W(1) Q src
      by (simp add: get_new_block_numbers_def core_accessors word_le_nat_alt)
  qed
qed

definition claimed_link :: "finality_core \<Rightarrow> qc_claim_t \<Rightarrow> qc_link" where
  "claimed_link c q = links c ! new_front_index c q"

definition next_core :: "finality_core \<Rightarrow> block_ref \<Rightarrow> qc_claim_t \<Rightarrow> finality_core" where
  "next_core c b q =
     \<lparr>links = drop (new_front_index c q) (links c) @
        [\<lparr>source_block_num = source_block_num (last (links c)) + 1,
          target_block_num = claim_block_num q, is_link_strong = is_strong_qc q\<rparr>],
      refs = drop (tgt_num (claimed_link c q) - tgt_num (hd (links c))) (refs c) @ [b],
      genesis_timestamp = 0\<rparr>"

text \<open>The link that becomes the first one targets a block the core still references.\<close>

lemma claimed_link_bounds:
  assumes win: "core_win c" and q: "claim_ok c q"
  shows "tgt_num (hd (links c)) \<le> tgt_num (claimed_link c q)"
    and "tgt_num (claimed_link c q) \<le> src_num (claimed_link c q)"
    and "src_num (claimed_link c q) \<le> unat (claim_block_num q)"
    and "src_num (claimed_link c q) = src_num (hd (links c)) + new_front_index c q"
    and "refs c \<noteq> [] \<Longrightarrow> tgt_num (claimed_link c q) - tgt_num (hd (links c)) < length (refs c)"
    and "refs c = [] \<Longrightarrow> tgt_num (claimed_link c q) = tgt_num (hd (links c))"
proof -
  note W = core_winD [OF win] and Q = claim_okD [OF win q]
  note T = core_win_targets [OF win Q(3)]
  show "tgt_num (hd (links c)) \<le> tgt_num (claimed_link c q)"
    and le: "tgt_num (claimed_link c q) \<le> src_num (claimed_link c q)"
    and "src_num (claimed_link c q) \<le> unat (claim_block_num q)"
    and src: "src_num (claimed_link c q) = src_num (hd (links c)) + new_front_index c q"
    using T(1,3) Q(4) W(2) [OF Q(3)] by (simp_all add: claimed_link_def)
  show "tgt_num (claimed_link c q) - tgt_num (hd (links c)) < length (refs c)" if "refs c \<noteq> []"
  proof (cases "new_front_index c q = 0")
    case True
    with that W(1) show ?thesis by (simp add: claimed_link_def hd_conv_nth)
  next
    case False
    with T(4) have "tgt_num (claimed_link c q) < src_num (claimed_link c q)"
      by (simp add: claimed_link_def)
    with src Q(3) W(3,4) T(1) show ?thesis by (simp add: claimed_link_def)
  qed
  show "tgt_num (claimed_link c q) = tgt_num (hd (links c))" if "refs c = []"
    using that W(3,4,6) Q(3) T(1) le src by (simp add: claimed_link_def)
qed

lemma hd_drop_links:
  "core_win c \<Longrightarrow> claim_ok c q \<Longrightarrow> hd (drop (new_front_index c q) (links c)) = claimed_link c q"
  using claimed_link_def claim_okD(3) by (simp add: hd_drop_conv_nth)

lemma hd_new_refs:
  assumes win: "core_win c" and q: "claim_ok c q"
    and b: "ref_block_num b = source_block_num (last (links c))"
  defines "k \<equiv> tgt_num (claimed_link c q) - tgt_num (hd (links c))"
  shows "ref_block_num (hd (drop k (refs c) @ [b])) = target_block_num (claimed_link c q)"
proof (cases "refs c = []")
  case True
  with claimed_link_bounds(6) [OF win q] core_winD(4) [OF win] b show ?thesis
    by (simp add: word_unat_eq_iff)
next
  case False
  with claimed_link_bounds(5) [OF win q] have k: "k < length (refs c)" by (simp add: k_def)
  then have "hd (drop k (refs c) @ [b]) = refs c ! k" by (simp add: hd_append hd_drop_conv_nth)
  with core_winD(5) [OF win k] claimed_link_bounds(1) [OF win q] show ?thesis
    by (simp add: word_unat_eq_iff k_def)
qed

lemma core_next_eq:
  assumes win: "core_win c" and pre: "next_pre c b q"
  shows "core_next c b q = Inr (next_core c b q)"
proof -
  note W = core_winD [OF win]
  let ?k = "tgt_num (claimed_link c q) - tgt_num (hd (links c))"
  from pre have q: "claim_ok c q" and b: "ref_block_num b = source_block_num (last (links c))"
    and ts: "refs c = [] \<or> ref_timestamp (last (refs c)) < ref_timestamp b"
    by (auto simp: next_pre_def)
  note Q = claim_okD [OF win q] and B = claimed_link_bounds [OF win q]
  have "ref_block_num (last (refs c)) + 1 = ref_block_num b" if "refs c \<noteq> []"
  proof -
    from that W(5) [of "length (refs c) - 1"] W(4)
    have "ref_num (last (refs c)) + 1 = ref_num b" by (simp add: last_conv_nth b)
    then show ?thesis
      using unat_Suc_no_wrap [of "ref_block_num (last (refs c))"] unsigned_less [of "ref_block_num b"]
      by (simp add: word_unat_eq_iff)
  qed
  then have num: "refs c = [] \<or> ref_block_num (last (refs c)) + 1 = ref_block_num b" by blast
  from q have claim: "claim_block_num q \<le> source_block_num (last (links c))"
    and mono: "Qc_claim (target_block_num (last (links c))) (is_link_strong (last (links c))) \<le> q"
    by (simp_all add: claim_ok_def)
  from get_new_block_numbers_eq [OF win q] have new: "get_new_block_numbers c q =
      Inr (target_block_num (claimed_link c q), source_block_num (claimed_link c q))"
    by (simp add: claimed_link_def)
  have li: "unat (source_block_num (claimed_link c q) - source_block_num (hd (links c))) = new_front_index c q"
    using B(4) by (subst unat_sub_le) (simp_all add: word_le_nat_alt)
  have ri: "unat (target_block_num (claimed_link c q) - target_block_num (hd (links c))) = ?k"
    using B(1) by (subst unat_sub_le) (simp_all add: word_le_nat_alt)
  have last_kept: "last (drop (new_front_index c q) (links c)) = last (links c)"
    using Q(3) by simp
  have hd_refs: "refs c = [] \<or> ref_block_num (hd (drop ?k (refs c))) = target_block_num (claimed_link c q)"
    using hd_new_refs [OF win q b] B(5) by (cases "refs c = []") (auto simp: hd_append)
  have idx0: "refs c \<noteq> [] \<or> ?k = 0" and idx1: "refs c = [] \<or> ?k < length (refs c)"
    using B(5,6) by auto
  have order: "target_block_num (claimed_link c q) \<le> source_block_num (claimed_link c q)"
    "source_block_num (claimed_link c q) \<le> claim_block_num q"
    "target_block_num (hd (links c)) \<le> target_block_num (claimed_link c q)"
    "source_block_num (hd (links c)) \<le> source_block_num (claimed_link c q)"
    "target_block_num (last (links c)) \<le> claim_block_num q"
    using B(1-4) Q(2) by (simp_all add: word_le_nat_alt)
  show ?thesis
    unfolding core_next_def core_accessors [OF W(1)] new rbind_simps prod.case li ri Let_def
      last_kept hd_drop_links [OF win q]
    using b num ts claim mono order Q(3) idx0 idx1 hd_refs hd_new_refs [OF win q b]
    by (simp add: ensure_true next_core_def)
qed

lemma next_core_win:
  assumes win: "core_win c" and pre: "next_pre c b q"
  shows "core_win (next_core c b q)"
proof -
  note W = core_winD [OF win]
  let ?i = "new_front_index c q" and ?k = "tgt_num (claimed_link c q) - tgt_num (hd (links c))"
  let ?new = "\<lparr>source_block_num = source_block_num (last (links c)) + 1,
          target_block_num = claim_block_num q, is_link_strong = is_strong_qc q\<rparr>"
  from pre have q: "claim_ok c q" and b: "ref_block_num b = source_block_num (last (links c))"
    and ts: "refs c \<noteq> [] \<longrightarrow> ref_timestamp (last (refs c)) < ref_timestamp b"
    and room: "src_num (last (links c)) + 1 < 2 ^ 32"
    by (auto simp: next_pre_def)
  note Q = claim_okD [OF win q] and B = claimed_link_bounds [OF win q]
  have new_src: "src_num ?new = src_num (last (links c)) + 1"
    using unat_Suc_no_wrap [OF room] by simp
  have ne: "drop ?i (links c) \<noteq> []" using Q(3) by simp
  have hdL: "hd (links (next_core c b q)) = claimed_link c q"
    using hd_drop_links [OF win q] ne by (simp add: next_core_def hd_append)
  have L: "map src_num (links (next_core c b q)) =
      [src_num (claimed_link c q) ..< src_num (claimed_link c q) + length (links (next_core c b q))]"
  proof -
    have "map src_num (drop ?i (links c)) =
        [src_num (hd (links c)) + ?i ..< (src_num (hd (links c)) + ?i) + length (drop ?i (links c))]"
      using win Q(3) by (intro consecutive_drop) (auto simp: core_win_def)
    from consecutive_snoc [OF this, of ?new] show ?thesis
      using new_src W(3) Q(3) B(4) by (simp add: next_core_def)
  qed
  have T: "sorted (map tgt_num (links (next_core c b q)))"
  proof -
    have "sorted (map tgt_num (drop ?i (links c)))"
      using win unfolding core_win_def drop_map [symmetric] by (blast intro: sorted_wrt_drop)
    moreover have "tgt_num l \<le> unat (claim_block_num q)" if "l \<in> set (drop ?i (links c))" for l
    proof -
      from that have "l \<in> set (links c)" by (rule in_set_dropD)
      then obtain j where "j < length (links c)" and "l = links c ! j"
        by (auto simp: in_set_conv_nth)
      with core_win_targets(2) [OF win, of j] Q(2) show ?thesis by simp
    qed
    ultimately show ?thesis by (auto simp: next_core_def sorted_append)
  qed
  have lenR: "length (refs (next_core c b q)) + tgt_num (claimed_link c q) = src_num (last (links c)) + 1"
    using B(1,5,6) W(4) by (cases "refs c = []") (auto simp: next_core_def)
  have R: "map ref_num (refs (next_core c b q)) =
      [tgt_num (claimed_link c q) ..< tgt_num (claimed_link c q) + length (refs (next_core c b q))]"
  proof -
    have k: "?k \<le> length (refs c)" using B(5,6) by (cases "refs c = []") auto
    then have "map ref_num (drop ?k (refs c)) =
        [tgt_num (hd (links c)) + ?k ..< (tgt_num (hd (links c)) + ?k) + length (drop ?k (refs c))]"
      using win by (intro consecutive_drop) (auto simp: core_win_def)
    from consecutive_snoc [OF this, of b] show ?thesis
      using b W(4) B(1) k by (simp add: next_core_def)
  qed
  have S: "sorted_wrt (<) (map ref_timestamp (refs (next_core c b q)))"
  proof -
    have s: "sorted_wrt (<) (map ref_timestamp (refs c))" using win by (simp add: core_win_def)
    have "\<forall>r \<in> set (refs c). ref_timestamp r < ref_timestamp b"
    proof (cases "refs c" rule: rev_cases)
      case (snoc rs r)
      with s ts show ?thesis by (auto simp: sorted_wrt_append intro: less_trans)
    qed simp
    then have "\<forall>r \<in> set (drop ?k (refs c)). ref_timestamp r < ref_timestamp b"
      by (meson in_set_dropD)
    moreover from s have "sorted_wrt (<) (map ref_timestamp (drop ?k (refs c)))"
      unfolding drop_map [symmetric] by (rule sorted_wrt_drop)
    ultimately show ?thesis by (simp add: next_core_def sorted_wrt_append)
  qed
  have strict: "\<forall>l \<in> set (tl (links (next_core c b q))). tgt_num l < src_num l"
  proof -
    have "set (tl (drop ?i (links c))) \<subseteq> set (tl (links c))"
      by (simp add: tl_drop set_drop_subset)
    moreover have "\<forall>l \<in> set (tl (links c)). tgt_num l < src_num l"
      using win by (simp add: core_win_def)
    moreover have "tgt_num ?new < src_num ?new" using Q(1) new_src by simp
    ultimately show ?thesis using ne by (auto simp: next_core_def)
  qed
  have "last (links (next_core c b q)) = ?new" and "links (next_core c b q) \<noteq> []"
    by (simp_all add: next_core_def)
  with hdL L T R S strict lenR new_src B(2,3) show ?thesis
    unfolding core_win_def by simp
qed

section \<open>Correctness of the core\<close>

text \<open>
  A sample for the witnesses: genesis block 1, and blocks 2, 3 and 4 that each claim a strong
  certificate for their parent.  The core of block 4 has block 2 final.
\<close>

definition sample_ref :: "32 word \<Rightarrow> block_ref" where
  "sample_ref n = \<lparr>ref_block_id = embed_block_num sha256_zero n, ref_timestamp = 10 + n,
     ref_finality_digest = sha256_zero, ref_active_policy_generation = 1,
     ref_pending_policy_generation = 0\<rparr>"

definition sample_core :: finality_core where
  "sample_core = \<lparr>links = [\<lparr>source_block_num = 3, target_block_num = 2, is_link_strong = True\<rparr>,
                          \<lparr>source_block_num = 4, target_block_num = 3, is_link_strong = True\<rparr>],
     refs = [sample_ref 2, sample_ref 3], genesis_timestamp = 0\<rparr>"

lemma sample_ref_num [simp]: "ref_block_num (sample_ref n) = n"
  by (simp add: sample_ref_def ref_block_num_def)

lemma sample_core_inv: "core_inv sample_core"
  by (simp add: core_inv_iff_win core_win_def sample_core_def upt_conv_Cons) (simp add: sample_ref_def)

lemma sample_next_pre: "next_pre sample_core (sample_ref 4) (Qc_claim 4 True)"
  by (simp add: next_pre_def claim_ok_def sample_core_def claim_le_iff)
    (simp add: sample_ref_def)

lemma genesis_core_win: "core_win (create_core_for_genesis_block bid ts)"
  by (simp add: create_core_for_genesis_block_def core_win_def Let_def)

text \<open>
  \<open>create_core_for_genesis_block\<close> yields a core that satisfies all invariants of the header
  and its three postconditions.
\<close>

theorem genesis_core_correct:
  "core_inv (create_core_for_genesis_block bid ts) \<and>
   current_block_num (create_core_for_genesis_block bid ts) = Inr (num_from_id bid) \<and>
   latest_qc_claim (create_core_for_genesis_block bid ts) = Inr (Qc_claim (num_from_id bid) False) \<and>
   last_final_block_num (create_core_for_genesis_block bid ts) = Inr (num_from_id bid)"
  using genesis_core_win
  by (simp add: core_inv_iff_win create_core_for_genesis_block_def Let_def core_accessors)

lemma next_core_accessors:
  assumes "core_win c" and "next_pre c b q"
  shows "current_block_num (next_core c b q) = Inr (source_block_num (last (links c)) + 1)"
    and "latest_qc_claim (next_core c b q) = Inr q"
    and "last_final_block_num (next_core c b q) = Inr (target_block_num (claimed_link c q))"
proof -
  from assms have q: "claim_ok c q" by (simp add: next_pre_def)
  have "links (next_core c b q) \<noteq> []" by (simp add: next_core_def)
  with hd_drop_links [OF assms(1) q] claim_okD(3) [OF assms(1) q] show
    "current_block_num (next_core c b q) = Inr (source_block_num (last (links c)) + 1)"
    "latest_qc_claim (next_core c b q) = Inr q"
    "last_final_block_num (next_core c b q) = Inr (target_block_num (claimed_link c q))"
    by (simp_all add: core_accessors next_core_def hd_append)
qed

text \<open>
  C6: From a core that satisfies the invariants, and under the documented preconditions, \<open>next\<close>
  fails none of its assertions; the new core satisfies the invariants, is one block further,
  makes exactly the given claim, and never moves the last final block backwards.
\<close>

theorem core_next_correct:
  assumes "core_inv c" and "next_pre c b q"
  shows "\<exists>c'. core_next c b q = Inr c' \<and> core_inv c' \<and>
           current_block_num c' = Inr (source_block_num (last (links c)) + 1) \<and>
           latest_qc_claim c' = Inr q \<and>
           (\<exists>lf lf'. last_final_block_num c = Inr lf \<and> last_final_block_num c' = Inr lf' \<and> lf \<le> lf')"
proof -
  from assms have win: "core_win c" and q: "claim_ok c q"
    by (simp_all add: core_inv_iff_win next_pre_def)
  from claimed_link_bounds(1) [OF win q]
  have "target_block_num (hd (links c)) \<le> target_block_num (claimed_link c q)"
    by (simp add: word_le_nat_alt)
  with core_next_eq [OF win assms(2)] next_core_win [OF win assms(2)]
    next_core_accessors [OF win assms(2)] core_accessors(2) [OF core_winD(1) [OF win]]
  show ?thesis by (auto simp: core_inv_iff_win)
qed

theorem core_next_correct_witness:
  "\<exists>c'. core_next sample_core (sample_ref 4) (Qc_claim 4 True) = Inr c' \<and> core_inv c' \<and>
     current_block_num c' = Inr 5 \<and> latest_qc_claim c' = Inr (Qc_claim 4 True)"
  using core_next_correct [OF sample_core_inv sample_next_pre] by (auto simp: sample_core_def)

text \<open>
  \<open>get_block_reference\<close> and \<open>get_qc_link_from\<close> meet their postconditions: inside the
  documented range they return, and what they return carries the requested block number.
\<close>

theorem core_lookups_correct:
  assumes "core_inv c"
  shows "(target_block_num (hd (links c)) \<le> n \<and> n < source_block_num (last (links c)) \<longrightarrow>
           (\<exists>r. get_block_reference c n = Inr r \<and> ref_block_num r = n \<and> r \<in> set (refs c))) \<and>
         (source_block_num (hd (links c)) \<le> m \<and> m \<le> source_block_num (last (links c)) \<longrightarrow>
           (\<exists>l. get_qc_link_from c m = Inr l \<and> source_block_num l = m))"
  using assms get_block_reference_eq [of c n] get_qc_link_from_eq [of c m]
  by (auto simp: core_inv_iff_win word_le_nat_alt word_less_nat_alt)

theorem core_lookups_correct_witness:
  "(\<exists>r. get_block_reference sample_core 3 = Inr r \<and> ref_block_num r = 3 \<and> r \<in> set (refs sample_core)) \<and>
   (\<exists>l. get_qc_link_from sample_core 4 = Inr l \<and> source_block_num l = 4)"
  using core_lookups_correct [OF sample_core_inv, of 3 4] by (simp add: sample_core_def)

text \<open>
  \<open>extends\<close> decides ancestry among the blocks a core still references: for a core that
  satisfies the invariants it returns true exactly for the ids of its references.
\<close>

lemma extends_iff_referenced:
  assumes "core_inv c"
  shows "extends c bid = Inr (bid \<in> ref_block_id ` set (refs c))"
proof -
  from assms have win: "core_win c" by (simp add: core_inv_iff_win)
  note W = core_winD [OF win]
  let ?n = "num_from_id bid"
  have mem: "tgt_num (hd (links c)) \<le> unat ?n \<and> unat ?n < src_num (last (links c)) \<and>
      ref_block_id (refs c ! (unat ?n - tgt_num (hd (links c)))) = bid"
    if "bid \<in> ref_block_id ` set (refs c)"
  proof -
    from that obtain i where i: "i < length (refs c)" and id: "ref_block_id (refs c ! i) = bid"
      by (auto simp: in_set_conv_nth)
    with W(5) [OF i] have "unat ?n = tgt_num (hd (links c)) + i" by (simp add: ref_block_num_def)
    with i id W(4) show ?thesis by simp
  qed
  show ?thesis
  proof (cases "tgt_num (hd (links c)) \<le> unat ?n \<and> unat ?n < src_num (last (links c))")
    case True
    note G = get_block_reference_eq [OF win conjunct1 [OF True] conjunct2 [OF True]]
    let ?r = "refs c ! (unat ?n - tgt_num (hd (links c)))"
    have r: "ref_block_id ?r \<in> ref_block_id ` set (refs c)" by (intro imageI nth_mem G(2))
    have iff: "ref_block_id ?r = bid \<longleftrightarrow> bid \<in> ref_block_id ` set (refs c)"
    proof
      assume "ref_block_id ?r = bid"
      then show "bid \<in> ref_block_id ` set (refs c)" by (rule subst) (rule r)
    qed (use mem in blast)
    have "extends c bid = rbind (get_block_reference c ?n) (\<lambda>ref. Inr (ref_block_id ref = bid))"
      using True
      by (simp add: extends_def Let_def core_accessors [OF W(1)] word_le_nat_alt word_less_nat_alt)
    also have "\<dots> = Inr (ref_block_id ?r = bid)" unfolding G(1) by simp
    finally show ?thesis unfolding iff .
  next
    case False
    with mem show ?thesis
      by (auto simp: extends_def core_accessors [OF W(1)] word_le_nat_alt word_less_nat_alt)
  qed
qed

lemma next_metadata_eq:
  assumes "core_win c" and "claim_ok c q"
  shows "next_metadata c q = Inr \<lparr>md_last_final_block_num = target_block_num (claimed_link c q),
           md_latest_qc_claim_block_num = claim_block_num q\<rparr>"
  using assms(2) get_new_block_numbers_eq [OF assms] core_winD(1) [OF assms(1)]
  by (simp add: next_metadata_def core_accessors claim_ok_def claimed_link_def)

text \<open>
  C18: \<open>next_metadata\<close> predicts \<open>next\<close>: it returns the last final block number and the claimed
  block number that the core built by \<open>next\<close> with the same claim will report.
\<close>

theorem next_metadata_agrees:
  assumes "core_inv c" and "next_pre c b q"
  shows "\<exists>md c'. next_metadata c q = Inr md \<and> core_next c b q = Inr c' \<and>
           last_final_block_num c' = Inr (md_last_final_block_num md) \<and>
           md_latest_qc_claim_block_num md = claim_block_num q \<and>
           md_last_final_block_num md \<le> md_latest_qc_claim_block_num md"
proof -
  from assms have win: "core_win c" and q: "claim_ok c q"
    by (simp_all add: core_inv_iff_win next_pre_def)
  note B = claimed_link_bounds [OF win q]
  from next_metadata_eq [OF win q] core_next_eq [OF win assms(2)] next_core_accessors(3) [OF win assms(2)] B(2,3)
  show ?thesis by (simp add: word_le_nat_alt)
qed

theorem next_metadata_agrees_witness:
  "\<exists>md. next_metadata sample_core (Qc_claim 4 True) = Inr md \<and> md_latest_qc_claim_block_num md = 4"
  using next_metadata_agrees [OF sample_core_inv sample_next_pre] by auto

section \<open>The core as a window of the whole history\<close>

text \<open>
  The history of a branch: the number \<open>g\<close> of its genesis block, the blocks \<open>bs\<close> from the genesis
  block to the parent of the current block, and the claims \<open>qs\<close> of the blocks from the genesis
  block to the current block.  \<open>history_lib\<close> is the two-chain rule read off the whole history: the
  last strong claim on a block finalises the block which that block itself claims.
\<close>

definition history_link :: "nat \<Rightarrow> qc_claim_t list \<Rightarrow> nat \<Rightarrow> qc_link" where
  "history_link g qs i = \<lparr>source_block_num = of_nat (g + i),
     target_block_num = claim_block_num (qs ! i), is_link_strong = is_strong_qc (qs ! i)\<rparr>"

definition two_chain_step :: "nat \<Rightarrow> qc_claim_t list \<Rightarrow> block_num_type \<Rightarrow> qc_claim_t \<Rightarrow> block_num_type" where
  "two_chain_step g qs l q =
     (if is_strong_qc q then claim_block_num (qs ! (unat (claim_block_num q) - g)) else l)"

definition history_lib :: "nat \<Rightarrow> qc_claim_t list \<Rightarrow> block_num_type" where
  "history_lib g qs = foldl (two_chain_step g qs) (of_nat g) qs"

inductive core_run :: "nat \<Rightarrow> block_ref list \<Rightarrow> qc_claim_t list \<Rightarrow> finality_core \<Rightarrow> bool" where
  run_genesis: "core_run (unat (num_from_id bid)) [] [Qc_claim (num_from_id bid) False]
     (create_core_for_genesis_block bid ts)"
| run_next: "core_run g bs qs c \<Longrightarrow> next_pre c b q \<Longrightarrow> core_next c b q = Inr c' \<Longrightarrow>
     core_run g (bs @ [b]) (qs @ [q]) c'"

definition core_repr :: "nat \<Rightarrow> block_ref list \<Rightarrow> qc_claim_t list \<Rightarrow> finality_core \<Rightarrow> bool" where
  "core_repr g bs qs c \<longleftrightarrow>
     core_win c \<and> length qs = length bs + 1 \<and> g + length bs = src_num (last (links c)) \<and>
     g \<le> tgt_num (hd (links c)) \<and>
     refs c = drop (tgt_num (hd (links c)) - g) bs \<and>
     links c = drop (src_num (hd (links c)) - g) (map (history_link g qs) [0 ..< length qs]) \<and>
     (\<forall>q \<in> set qs. unat (claim_block_num q) < g + length qs) \<and>
     target_block_num (hd (links c)) = history_lib g qs"

lemma history_lib_snoc:
  assumes "\<forall>q \<in> set qs. unat (claim_block_num q) < g + length qs" and "qs \<noteq> []"
    and "unat (claim_block_num q) < g + length qs"
  shows "history_lib g (qs @ [q]) = two_chain_step g qs (history_lib g qs) q"
proof -
  have same: "two_chain_step g (qs @ [q]) l r = two_chain_step g qs l r"
    if "unat (claim_block_num r) < g + length qs" for l r
  proof -
    from that assms(2) have "unat (claim_block_num r) - g < length qs" by (cases qs) auto
    then show ?thesis by (simp add: two_chain_step_def nth_append)
  qed
  have "foldl (two_chain_step g (qs @ [q])) l rs = foldl (two_chain_step g qs) l rs"
    if "\<forall>r \<in> set rs. unat (claim_block_num r) < g + length qs" for l rs
    using that by (induction rs arbitrary: l) (simp_all add: same)
  with assms show ?thesis by (simp add: history_lib_def same)
qed

lemma core_repr_genesis:
  "core_repr (unat (num_from_id bid)) [] [Qc_claim (num_from_id bid) False]
     (create_core_for_genesis_block bid ts)"
  using genesis_core_win
  by (simp add: core_repr_def create_core_for_genesis_block_def Let_def history_link_def
        history_lib_def two_chain_step_def)

lemma core_reprD:
  assumes "core_repr g bs qs c"
  shows "core_win c" and "length qs = length bs + 1"
    and "g + length bs = src_num (last (links c))" and "g \<le> tgt_num (hd (links c))"
    and "refs c = drop (tgt_num (hd (links c)) - g) bs"
    and "links c = drop (src_num (hd (links c)) - g) (map (history_link g qs) [0 ..< length qs])"
    and "\<forall>q \<in> set qs. unat (claim_block_num q) < g + length qs"
    and "target_block_num (hd (links c)) = history_lib g qs"
  using assms unfolding core_repr_def by blast+

lemma next_core_hd_last:
  assumes "core_win c" and "claim_ok c q"
  shows "hd (links (next_core c b q)) = claimed_link c q"
    and "last (links (next_core c b q)) = \<lparr>source_block_num = source_block_num (last (links c)) + 1,
          target_block_num = claim_block_num q, is_link_strong = is_strong_qc q\<rparr>"
  using hd_drop_links [OF assms] claim_okD(3) [OF assms] by (simp_all add: next_core_def hd_append)

lemma core_repr_next_links:
  assumes rep: "core_repr g bs qs c" and q: "claim_ok c q"
  shows "links (next_core c b q) = drop (src_num (claimed_link c q) - g)
      (map (history_link g (qs @ [q])) [0 ..< length (qs @ [q])])"
proof -
  note R = core_reprD [OF rep]
  note W = core_winD [OF R(1)] and B = claimed_link_bounds [OF R(1) q]
  let ?i = "new_front_index c q" and ?c' = "next_core c b q"
  let ?A = "map (history_link g qs) [0 ..< length qs]" and ?k = "src_num (hd (links c)) - g"
  have all': "map (history_link g (qs @ [q])) [0 ..< length (qs @ [q])] = ?A @ [last (links ?c')]"
  proof -
    have "source_block_num (last (links c)) = of_nat (g + length bs)" by (simp add: R(3))
    moreover have "(of_nat (length qs) :: 32 word) = of_nat (length bs) + 1" by (simp add: R(2))
    ultimately have "history_link g (qs @ [q]) (length qs) = last (links ?c')"
      by (simp add: next_core_hd_last(2) [OF R(1) q] history_link_def algebra_simps)
    moreover have "map (history_link g (qs @ [q])) [0 ..< length qs] = ?A"
      by (simp add: history_link_def nth_append)
    ultimately show ?thesis by simp
  qed
  have ne: "drop ?i (links c) \<noteq> []" using claim_okD(3) [OF R(1) q] by simp
  have sum: "src_num (claimed_link c q) - g = ?k + ?i" using B(4) W(6) R(4) by simp
  have "drop ?i (links c) = drop (?k + ?i) ?A"
    by (subst R(6)) (simp add: add.commute)
  moreover from ne this have "?k + ?i < length ?A" by (metis drop_all not_le)
  moreover have "links ?c' = drop ?i (links c) @ [last (links ?c')]"
    by (simp add: next_core_def)
  ultimately show ?thesis unfolding all' sum by simp
qed

lemma core_repr_next_refs:
  assumes rep: "core_repr g bs qs c" and q: "claim_ok c q"
  shows "refs (next_core c b q) = drop (tgt_num (claimed_link c q) - g) (bs @ [b])"
proof -
  note R = core_reprD [OF rep]
  note B = claimed_link_bounds [OF R(1) q]
  let ?k = "tgt_num (claimed_link c q) - tgt_num (hd (links c))"
  have sum: "tgt_num (claimed_link c q) - g = (tgt_num (hd (links c)) - g) + ?k"
    using B(1) R(4) by simp
  have "tgt_num (claimed_link c q) - g \<le> length bs"
    using B(2,3) claim_okD(1) [OF R(1) q] R(3) by simp
  then show ?thesis by (simp add: next_core_def R(5) sum add.commute)
qed

lemma core_repr_claim_bound:
  assumes rep: "core_repr g bs qs c" and q: "claim_ok c q"
  shows "unat (claim_block_num q) < g + length qs" and "qs \<noteq> []"
proof -
  note R = core_reprD [OF rep]
  show "unat (claim_block_num q) < g + length qs" using claim_okD(1) [OF R(1) q] R(2,3) by simp
  show "qs \<noteq> []" using R(2) by auto
qed

lemma core_repr_next_lib:
  assumes rep: "core_repr g bs qs c" and q: "claim_ok c q"
  shows "target_block_num (claimed_link c q) = history_lib g (qs @ [q])"
proof -
  note R = core_reprD [OF rep]
  note W = core_winD [OF R(1)] and qb = core_repr_claim_bound [OF rep q]
  have step: "history_lib g (qs @ [q]) = two_chain_step g qs (history_lib g qs) q"
    by (rule history_lib_snoc [OF R(7) qb(2,1)])
  show ?thesis
  proof (cases "is_strong_qc q")
    case False
    then have "claimed_link c q = hd (links c)"
      using W(1) by (simp add: claimed_link_def new_front_index_def hd_conv_nth)
    with False step R(8) show ?thesis by (simp add: two_chain_step_def)
  next
    case True
    let ?j = "unat (claim_block_num q) - g" and ?i = "new_front_index c q"
    from W(7) claim_okD(2) [OF R(1) q] W(6) R(4)
    have le: "src_num (hd (links c)) \<le> unat (claim_block_num q)"
      and gs: "g \<le> src_num (hd (links c))" by linarith+
    have j: "?j < length qs" using qb(1) le gs R(2) by linarith
    have "links c ! ?i = map (history_link g qs) [0 ..< length qs] ! ?j"
    proof -
      have "src_num (hd (links c)) - g + ?i = ?j"
        using True le gs by (simp add: new_front_index_def)
      moreover have "src_num (hd (links c)) - g \<le> length (map (history_link g qs) [0 ..< length qs])"
        using j le by simp
      ultimately show ?thesis using arg_cong [OF R(6), of "\<lambda>xs. xs ! ?i"] by (simp only: nth_drop)
    qed
    with j have "target_block_num (claimed_link c q) = claim_block_num (qs ! ?j)"
      by (simp add: claimed_link_def history_link_def)
    with True step show ?thesis by (simp add: two_chain_step_def)
  qed
qed

lemma core_repr_next:
  assumes rep: "core_repr g bs qs c" and pre: "next_pre c b q"
  shows "core_repr g (bs @ [b]) (qs @ [q]) (next_core c b q)"
proof -
  note R = core_reprD [OF rep]
  from pre have q: "claim_ok c q" and room: "src_num (last (links c)) + 1 < 2 ^ 32"
    by (auto simp: next_pre_def)
  have src': "src_num (last (links (next_core c b q))) = g + length (bs @ [b])"
    using unat_Suc_no_wrap [OF room] R(3) by (simp add: next_core_hd_last(2) [OF R(1) q])
  have bnd': "\<forall>r \<in> set (qs @ [q]). unat (claim_block_num r) < g + length (qs @ [q])"
    using R(7) core_repr_claim_bound(1) [OF rep q] by auto
  have gl': "g \<le> tgt_num (claimed_link c q)" using claimed_link_bounds(1) [OF R(1) q] R(4) by linarith
  have len': "length (qs @ [q]) = length (bs @ [b]) + 1" using R(2) by simp
  show ?thesis
    unfolding core_repr_def next_core_hd_last(1) [OF R(1) q]
    by (intro conjI next_core_win [OF R(1) pre] len' src' [symmetric] gl' bnd'
          core_repr_next_refs [OF rep q] core_repr_next_links [OF rep q] core_repr_next_lib [OF rep q])
qed

lemma core_run_repr: "core_run g bs qs c \<Longrightarrow> core_repr g bs qs c"
proof (induction rule: core_run.induct)
  case (run_genesis bid ts)
  show ?case by (rule core_repr_genesis)
next
  case (run_next g bs qs c b q c')
  then have "core_win c" by (blast intro: core_reprD(1))
  with run_next core_next_eq [of c b q] have "c' = next_core c b q" by simp
  with core_repr_next [OF run_next.IH run_next.hyps(2)] show ?case by simp
qed

text \<open>
  C7: The bounded core refines the unbounded history.  Whatever blocks and claims a branch is
  extended with, the core keeps its invariants, its references are exactly the blocks of the
  history from the last final one on, and its last final block is the one the two-chain rule
  selects from the complete list of claims: the garbage collection in \<open>next\<close> loses nothing.
\<close>

theorem core_refines_history:
  assumes "core_run g bs qs c"
  shows "core_inv c \<and> last_final_block_num c = Inr (history_lib g qs) \<and>
         refs c = drop (unat (history_lib g qs) - g) bs \<and> latest_qc_claim c = Inr (last qs)"
proof -
  from core_run_repr [OF assms] have rep: "core_repr g bs qs c" .
  then have win: "core_win c" by (rule core_reprD(1))
  have "latest_qc_claim c = Inr (last qs)"
    using assms
  proof (cases rule: core_run.cases)
    case (run_genesis bid ts)
    then show ?thesis by (simp add: create_core_for_genesis_block_def Let_def latest_qc_claim_def)
  next
    case (run_next bs' qs' c0 b q)
    then have "core_win c0" by (blast intro: core_run_repr core_reprD(1))
    with run_next core_next_eq [of c0 b q] next_core_accessors(2) [of c0 b q] show ?thesis by simp
  qed
  moreover from rep have "refs c = drop (tgt_num (hd (links c)) - g) bs"
    and "target_block_num (hd (links c)) = history_lib g qs"
    unfolding core_repr_def by blast+
  ultimately show ?thesis
    using win core_accessors(2) [OF core_winD(1) [OF win]] by (simp add: core_inv_iff_win)
qed

lemma sample_run:
  "\<exists>c. core_run 1 [sample_ref 1, sample_ref 2] [Qc_claim 1 False, Qc_claim 1 True, Qc_claim 2 True] c"
proof -
  let ?g = "create_core_for_genesis_block (embed_block_num sha256_zero 1) 11"
  have g: "core_run 1 [] [Qc_claim 1 False] ?g"
    using run_genesis [of "embed_block_num sha256_zero 1" 11] by simp
  have p1: "next_pre ?g (sample_ref 1) (Qc_claim 1 True)"
    by (simp add: next_pre_def claim_ok_def create_core_for_genesis_block_def claim_le_iff)
  let ?c = "next_core ?g (sample_ref 1) (Qc_claim 1 True)"
  from core_next_eq [OF genesis_core_win p1] have n1: "core_next ?g (sample_ref 1) (Qc_claim 1 True) = Inr ?c" .
  from run_next [OF g p1 n1] have r1: "core_run 1 [sample_ref 1] [Qc_claim 1 False, Qc_claim 1 True] ?c"
    by simp
  have p2: "next_pre ?c (sample_ref 2) (Qc_claim 2 True)"
    by (simp add: next_pre_def claim_ok_def create_core_for_genesis_block_def claim_le_iff
          next_core_def new_front_index_def) (simp add: sample_ref_def)
  from core_next_eq [OF next_core_win [OF genesis_core_win p1] p2] run_next [OF r1 p2]
  show ?thesis by auto
qed

theorem core_refines_history_witness:
  "\<exists>c. core_inv c \<and> last_final_block_num c =
     Inr (history_lib 1 [Qc_claim 1 False, Qc_claim 1 True, Qc_claim 2 True])"
  using sample_run core_refines_history by blast

end
