(* ===== verification/Raw_Codec.thy ===== *)
theory Raw_Codec
  imports Chain_Types
begin

text \<open>
  The binary serialization \<open>fc::raw\<close> (\<open>libfc/include/fc/io/raw.hpp\<close>) for the types the consensus
  structures are made of.  A stream that is read is the list of its remaining bytes; reading past
  its end raises \<open>out_of_range_exception\<close>, as \<open>datastream\<close> does.

  The locale \<open>codec\<close> is the contract of a \<open>pack\<close> and \<open>unpack\<close> pair: what was packed is read back,
  whatever follows it in the stream.  It holds for integers, booleans, varints, digests, and is
  closed under pairs, optionals and vectors; inside it, packing is injective and prefix free.
\<close>

section \<open>The contract\<close>

locale codec =
  fixes pack :: "'a \<Rightarrow> byte list res"
    and unpack :: "byte list \<Rightarrow> ('a \<times> byte list) res"
    and valid :: "'a \<Rightarrow> bool"
  assumes unpack_pack: "valid x \<Longrightarrow> pack x = Inr bs \<Longrightarrow> unpack (bs @ rest) = Inr (x, rest)"
begin

lemma unpack_pack_all: "valid x \<Longrightarrow> pack x = Inr bs \<Longrightarrow> unpack bs = Inr (x, [])"
  using unpack_pack [of x bs "[]"] by simp

lemma pack_inject: "valid x \<Longrightarrow> valid y \<Longrightarrow> pack x = Inr bs \<Longrightarrow> pack y = Inr bs \<Longrightarrow> x = y"
  using unpack_pack_all [of x bs] unpack_pack_all [of y bs] by simp

lemma pack_prefix_free:
  "valid x \<Longrightarrow> valid y \<Longrightarrow> pack x = Inr bs \<Longrightarrow> pack y = Inr (bs @ more) \<Longrightarrow> x = y \<and> more = []"
  using unpack_pack [of x bs more] unpack_pack_all [of y "bs @ more"] by simp

end

section \<open>Streams\<close>

definition ds_read :: "nat \<Rightarrow> byte list \<Rightarrow> (byte list \<times> byte list) res" where
  "ds_read n s = (if n \<le> length s then Inr (take n s, drop n s) else Inl Out_of_range_exception)"

fun ds_get :: "byte list \<Rightarrow> (byte \<times> byte list) res" where
  "ds_get [] = Inl Out_of_range_exception"
| "ds_get (b # s) = Inr (b, s)"

lemma ds_read_append [simp]: "length bs = n \<Longrightarrow> ds_read n (bs @ rest) = Inr (bs, rest)"
  by (simp add: ds_read_def)

section \<open>Fixed-size values\<close>

fun le_word :: "byte list \<Rightarrow> 'a::len word" where
  "le_word [] = 0"
| "le_word (b # bs) = ucast b OR push_bit 8 (le_word bs)"

lemma le_word_bit:
  "bit (le_word bs :: 'a::len word) k \<longleftrightarrow>
     k < LENGTH('a) \<and> k div 8 < length bs \<and> bit (bs ! (k div 8)) (k mod 8)"
proof (induction bs arbitrary: k)
  case (Cons b bs)
  show ?case
  proof (cases "k < 8")
    case True
    then show ?thesis by (auto simp: bit_simps dest: bit_imp_le_length)
  next
    case False
    then obtain j where k: "k = j + 8" using le_Suc_ex [of 8 k] by (auto simp: add.commute)
    then have "k div 8 = Suc (j div 8)" and "k mod 8 = j mod 8" by simp_all
    moreover have "\<not> bit b k" using False bit_imp_le_length [of b k] by auto
    ultimately show ?thesis using Cons.IH [of j] k by (auto simp: bit_simps)
  qed
qed simp

lemma le_word_le_bytes [simp]:
  assumes "LENGTH('a) \<le> 8 * n"
  shows "le_word (le_bytes n w) = (w :: 'a::len word)"
proof (rule bit_word_eqI)
  fix k assume k: "k < LENGTH('a)"
  then have "k div 8 < n" and "k mod 8 < 8" using assms by auto
  from le_bytes_bit [OF this, of w] k \<open>k div 8 < n\<close> show "bit (le_word (le_bytes n w) :: 'a word) k \<longleftrightarrow> bit w k"
    by (simp add: le_word_bit)
qed

definition pack_u8 :: "8 word \<Rightarrow> byte list res" where
  "pack_u8 w = Inr [w]"

definition unpack_u8 :: "byte list \<Rightarrow> (8 word \<times> byte list) res" where
  "unpack_u8 s = ds_get s"

definition pack_u16 :: "16 word \<Rightarrow> byte list res" where
  "pack_u16 w = Inr (le_bytes 2 w)"

definition unpack_u16 :: "byte list \<Rightarrow> (16 word \<times> byte list) res" where
  "unpack_u16 s = rbind (ds_read 2 s) (\<lambda>(bs, s'). Inr (le_word bs, s'))"

definition pack_u32 :: "32 word \<Rightarrow> byte list res" where
  "pack_u32 w = Inr (le_bytes 4 w)"

definition unpack_u32 :: "byte list \<Rightarrow> (32 word \<times> byte list) res" where
  "unpack_u32 s = rbind (ds_read 4 s) (\<lambda>(bs, s'). Inr (le_word bs, s'))"

definition pack_u64 :: "64 word \<Rightarrow> byte list res" where
  "pack_u64 w = Inr (le_bytes 8 w)"

definition unpack_u64 :: "byte list \<Rightarrow> (64 word \<times> byte list) res" where
  "unpack_u64 s = rbind (ds_read 8 s) (\<lambda>(bs, s'). Inr (le_word bs, s'))"

definition pack_bool :: "bool \<Rightarrow> byte list res" where
  "pack_bool v = pack_u8 (if v then 1 else 0)"

definition unpack_bool :: "byte list \<Rightarrow> (bool \<times> byte list) res" where
  "unpack_bool s = rbind (unpack_u8 s) (\<lambda>(b, s').
     ensure (b AND NOT 1 = 0) Fc_assert_exception (Inr (b \<noteq> 0, s')))"

definition pack_sha256 :: "sha256 \<Rightarrow> byte list res" where
  "pack_sha256 h = Inr (sha256_data h)"

definition unpack_sha256 :: "byte list \<Rightarrow> (sha256 \<times> byte list) res" where
  "unpack_sha256 s = rbind (ds_read 32 s) (\<lambda>(bs, s').
     Inr (Sha256 (le_word (take 8 bs)) (le_word (take 8 (drop 8 bs)))
                 (le_word (take 8 (drop 16 bs))) (le_word (drop 24 bs)), s'))"

text \<open>A fixed-size byte array, \<open>std::array<uint8_t, n>\<close>.\<close>

definition pack_bytes :: "nat \<Rightarrow> byte list \<Rightarrow> byte list res" where
  "pack_bytes n bs = Inr bs"

definition unpack_bytes :: "nat \<Rightarrow> byte list \<Rightarrow> (byte list \<times> byte list) res" where
  "unpack_bytes n s = ds_read n s"

interpretation u8: codec pack_u8 unpack_u8 "\<lambda>_. True"
  by unfold_locales (auto simp: pack_u8_def unpack_u8_def)

interpretation u16: codec pack_u16 unpack_u16 "\<lambda>_. True"
  by unfold_locales (auto simp: pack_u16_def unpack_u16_def)

interpretation u32: codec pack_u32 unpack_u32 "\<lambda>_. True"
  by unfold_locales (auto simp: pack_u32_def unpack_u32_def)

interpretation u64: codec pack_u64 unpack_u64 "\<lambda>_. True"
  by unfold_locales (auto simp: pack_u64_def unpack_u64_def)

interpretation bool_c: codec pack_bool unpack_bool "\<lambda>_. True"
  by unfold_locales (auto simp: pack_bool_def unpack_bool_def pack_u8_def unpack_u8_def)

lemma unpack_sha256_data: "unpack_sha256 (sha256_data h @ rest) = Inr (h, rest)"
  unfolding unpack_sha256_def ds_read_append [OF length_sha256_data]
  by (cases h) (simp add: sha256_data_def u64_bytes_def)

interpretation sha256_c: codec pack_sha256 unpack_sha256 "\<lambda>_. True"
  by unfold_locales (auto simp: pack_sha256_def unpack_sha256_data)

interpretation bytes_c: codec "pack_bytes n" "unpack_bytes n" "\<lambda>bs. length bs = n" for n
  by unfold_locales (simp add: pack_bytes_def unpack_bytes_def)

section \<open>Variable-length integers\<close>

text \<open>The \<open>do\<close> loop of \<open>pack(unsigned_int)\<close>: seven bits at a time, low first.\<close>

function pack_varint_loop :: "64 word \<Rightarrow> byte list" where
  "pack_varint_loop val =
     (let b = (ucast val :: byte) AND 0x7f; val' = drop_bit 7 val in
      if val' = 0 then [b] else (b OR 0x80) # pack_varint_loop val')"
  by pat_completeness auto
termination
proof (relation "measure unat")
  fix val b val' assume "b = (ucast val :: byte) AND 0x7f" and "val' = drop_bit 7 (val :: 64 word)" and "val' \<noteq> 0"
  then have "0 < unat val'" and "unat val' = unat val div 128"
    by (simp add: unat_gt_0) (simp add: \<open>val' = drop_bit 7 val\<close> unat_drop_bit_eq drop_bit_eq_div [where 'a = nat])
  then show "(val', val) \<in> measure unat" by simp
qed simp

declare pack_varint_loop.simps [simp del]

definition pack_varint :: "32 word \<Rightarrow> byte list res" where
  "pack_varint v = Inr (pack_varint_loop (ucast v))"

text \<open>
  The \<open>do\<close> loop of \<open>unpack(unsigned_int)\<close>: the shift is done in 32 bits, and at most five bytes are read.
\<close>

function unpack_varint_loop :: "64 word \<Rightarrow> nat \<Rightarrow> byte list \<Rightarrow> (32 word \<times> byte list) res" where
  "unpack_varint_loop v by s =
     (case s of [] \<Rightarrow> Inl Out_of_range_exception
      | b # s' \<Rightarrow>
        let v' = v OR ucast (push_bit by (ucast (b AND 0x7f) :: 32 word)); by' = by + 7 in
        if b AND 0x80 \<noteq> 0 \<and> by' < 32 then unpack_varint_loop v' by' s' else Inr (ucast v', s'))"
  by pat_completeness auto
termination
  by (relation "measure (\<lambda>(v, by, s). length s)") auto

declare unpack_varint_loop.simps [simp del]

definition unpack_varint :: "byte list \<Rightarrow> (32 word \<times> byte list) res" where
  "unpack_varint s = unpack_varint_loop 0 0 s"

lemma varint_masks: "bit (0x7f :: byte) i \<longleftrightarrow> i < 7" "bit (0x80 :: byte) i \<longleftrightarrow> i = 7"
proof -
  have "(0x7f :: byte) = mask 7" and "(0x80 :: byte) = push_bit 7 1"
    by (simp_all add: mask_eq_decr_exp push_bit_eq_mult)
  then show "bit (0x7f :: byte) i \<longleftrightarrow> i < 7" "bit (0x80 :: byte) i \<longleftrightarrow> i = 7"
    by (simp_all only: bit_mask_iff bit_push_bit_iff bit_1_iff possible_bit_word) auto
qed

lemma varint_digit_bit:
  "bit (ucast (push_bit k (ucast (b AND 0x7f) :: 32 word)) :: 64 word) i \<longleftrightarrow>
     k \<le> i \<and> i < 32 \<and> i - k < 7 \<and> bit (b :: byte) (i - k)"
  by (auto simp: varint_masks bit_simps simp del: bit_numeral_word_iff)

lemma varint_high_bit:
  "((b :: byte) AND 0x7f) AND 0x80 = 0" "((b :: byte) AND 0x7f OR 0x80) AND 0x80 \<noteq> 0"
  "((b :: byte) AND 0x7f OR 0x80) AND 0x7f = b AND 0x7f" "((b :: byte) AND 0x7f) AND 0x7f = b AND 0x7f"
proof -
  show "((b :: byte) AND 0x7f) AND 0x80 = 0"
    by (rule bit_word_eqI) (auto simp: varint_masks bit_and_iff simp del: bit_numeral_word_iff)
  have "bit (((b :: byte) AND 0x7f OR 0x80) AND 0x80) 7"
    by (simp add: varint_masks bit_and_iff bit_or_iff del: bit_numeral_word_iff)
  then show "((b :: byte) AND 0x7f OR 0x80) AND 0x80 \<noteq> 0" by (metis bit_0_eq bot_apply bot_bool_def)
  show "((b :: byte) AND 0x7f OR 0x80) AND 0x7f = b AND 0x7f" "((b :: byte) AND 0x7f) AND 0x7f = b AND 0x7f"
    by (rule bit_word_eqI; auto simp: varint_masks bit_and_iff bit_or_iff simp del: bit_numeral_word_iff)+
qed

text \<open>
  Reading what was written.  \<open>v\<close> holds the bits below \<open>k\<close> that were read already; \<open>w\<close> is the
  rest of the value, shifted down.
\<close>

lemma unpack_varint_pack_loop:
  assumes "\<And>j. bit w j \<Longrightarrow> j + k < 32"
  shows "unpack_varint_loop v k (pack_varint_loop w @ rest) = Inr (ucast (v OR push_bit k w), rest)"
  using assms
proof (induction w arbitrary: v k rule: pack_varint_loop.induct)
  case (1 w)
  let ?w = "drop_bit 7 w"
  define b :: byte where "b = ucast w"
  define d :: "64 word" where "d = ucast (push_bit k (ucast (b AND 0x7f) :: 32 word))"
  have d: "bit d i \<longleftrightarrow> k \<le> i \<and> i < 32 \<and> i - k < 7 \<and> bit w (i - k)" for i
    unfolding d_def varint_digit_bit b_def by (auto simp: bit_ucast_iff)
  have join: "(ucast ((v OR d) OR push_bit (k + 7) ?w) :: 32 word) = ucast (v OR push_bit k w)"
  proof (rule bit_word_eqI)
    fix n assume "n < LENGTH(32)"
    moreover have "7 + (n - (k + 7)) = n - k" if "k + 7 \<le> n" using that by simp
    ultimately show "bit (ucast ((v OR d) OR push_bit (k + 7) ?w) :: 32 word) n \<longleftrightarrow>
        bit (ucast (v OR push_bit k w) :: 32 word) n"
      by (cases "k + 7 \<le> n") (auto simp: bit_simps d)
  qed
  show ?case
  proof (cases "?w = 0")
    case True
    with join have "(ucast (v OR d) :: 32 word) = ucast (v OR push_bit k w)" by simp
    with True show ?thesis
      by (simp add: pack_varint_loop.simps [of w] unpack_varint_loop.simps [of v k] Let_def varint_high_bit
            b_def [symmetric] d_def [symmetric])
  next
    case False
    then obtain j where "bit ?w j" using bit_eq_iff [of ?w 0] by auto
    with "1.prems" [of "7 + j"] have k: "k + 7 < 32" by (simp add: bit_drop_bit_eq)
    have "j + (k + 7) < 32" if "bit ?w j" for j
      using "1.prems" [of "7 + j"] that by (simp add: bit_drop_bit_eq)
    from "1.IH" [OF refl refl False this, of "v OR d"] join
    have "unpack_varint_loop (v OR d) (k + 7) (pack_varint_loop ?w @ rest) = Inr (ucast (v OR push_bit k w), rest)"
      by simp
    with False k show ?thesis
      by (simp add: pack_varint_loop.simps [of w] unpack_varint_loop.simps [of v k] Let_def varint_high_bit
            b_def [symmetric] d_def [symmetric])
  qed
qed

interpretation varint: codec pack_varint unpack_varint "\<lambda>_. True"
proof unfold_locales
  fix x :: "32 word" and bs rest assume "pack_varint x = Inr bs"
  then have bs: "bs = pack_varint_loop (ucast x)" by (simp add: pack_varint_def)
  have "unpack_varint_loop 0 0 (pack_varint_loop (ucast x) @ rest) = Inr (ucast (0 OR push_bit 0 (ucast x :: 64 word)), rest)"
    by (rule unpack_varint_pack_loop) (auto simp: bit_ucast_iff dest: bit_imp_le_length)
  moreover have "(ucast (ucast x :: 64 word) :: 32 word) = x"
    by (rule bit_word_eqI) (auto simp: bit_ucast_iff)
  ultimately show "unpack_varint (bs @ rest) = Inr (x, rest)" by (simp add: unpack_varint_def bs)
qed

section \<open>Pairs, optionals and vectors\<close>

text \<open>Two fields in sequence; a reflected structure is its fields in sequence.\<close>

definition pack_pair :: "('a \<Rightarrow> byte list res) \<Rightarrow> ('b \<Rightarrow> byte list res) \<Rightarrow> 'a \<times> 'b \<Rightarrow> byte list res" where
  "pack_pair pa pb p = rbind (pa (fst p)) (\<lambda>x. rbind (pb (snd p)) (\<lambda>y. Inr (x @ y)))"

definition unpack_pair ::
  "(byte list \<Rightarrow> ('a \<times> byte list) res) \<Rightarrow> (byte list \<Rightarrow> ('b \<times> byte list) res) \<Rightarrow>
   byte list \<Rightarrow> (('a \<times> 'b) \<times> byte list) res" where
  "unpack_pair ua ub s = rbind (ua s) (\<lambda>(a, s1). rbind (ub s1) (\<lambda>(b, s2). Inr ((a, b), s2)))"

definition pack_optional :: "('a \<Rightarrow> byte list res) \<Rightarrow> 'a option \<Rightarrow> byte list res" where
  "pack_optional p v = rbind (pack_bool (v \<noteq> None)) (\<lambda>x.
     case v of None \<Rightarrow> Inr x | Some y \<Rightarrow> rbind (p y) (\<lambda>z. Inr (x @ z)))"

definition unpack_optional ::
  "(byte list \<Rightarrow> ('a \<times> byte list) res) \<Rightarrow> byte list \<Rightarrow> ('a option \<times> byte list) res" where
  "unpack_optional u s = rbind (unpack_bool s) (\<lambda>(b, s1).
     if b then rbind (u s1) (\<lambda>(y, s2). Inr (Some y, s2)) else Inr (None, s1))"

definition max_num_array_elements :: nat where
  "max_num_array_elements = 1024 * 1024"

text \<open>Evaluation compares sizes as integers, whose numerals are binary.\<close>

lemma le_max_elements [code_unfold]: "n \<le> max_num_array_elements \<longleftrightarrow> int n \<le> 1048576"
  by (simp add: max_num_array_elements_def)

fun pack_all :: "('a \<Rightarrow> byte list res) \<Rightarrow> 'a list \<Rightarrow> byte list res" where
  "pack_all p [] = Inr []"
| "pack_all p (x # xs) = rbind (p x) (\<lambda>b. rbind (pack_all p xs) (\<lambda>bs. Inr (b @ bs)))"

fun unpack_n :: "(byte list \<Rightarrow> ('a \<times> byte list) res) \<Rightarrow> nat \<Rightarrow> byte list \<Rightarrow> ('a list \<times> byte list) res" where
  "unpack_n u 0 s = Inr ([], s)"
| "unpack_n u (Suc n) s = rbind (u s) (\<lambda>(x, s1). rbind (unpack_n u n s1) (\<lambda>(xs, s2). Inr (x # xs, s2)))"

definition pack_vector :: "('a \<Rightarrow> byte list res) \<Rightarrow> 'a list \<Rightarrow> byte list res" where
  "pack_vector p xs =
     ensure (length xs \<le> max_num_array_elements) Fc_assert_exception (
     rbind (pack_varint (of_nat (length xs))) (\<lambda>n. rbind (pack_all p xs) (\<lambda>bs. Inr (n @ bs))))"

definition unpack_vector ::
  "(byte list \<Rightarrow> ('a \<times> byte list) res) \<Rightarrow> byte list \<Rightarrow> ('a list \<times> byte list) res" where
  "unpack_vector u s = rbind (unpack_varint s) (\<lambda>(size, s1).
     ensure (unat size \<le> max_num_array_elements) Fc_assert_exception (unpack_n u (unat size) s1))"

lemma codec_pair:
  assumes "codec pa ua va" and "codec pb ub vb"
  shows "codec (pack_pair pa pb) (unpack_pair ua ub) (\<lambda>p. va (fst p) \<and> vb (snd p))"
  using codec.unpack_pack [OF assms(1)] codec.unpack_pack [OF assms(2)]
  by unfold_locales (auto simp: pack_pair_def unpack_pair_def res_simps)

lemma codec_optional:
  assumes "codec p u v"
  shows "codec (pack_optional p) (unpack_optional u) (pred_option v)"
proof unfold_locales
  fix x bs rest assume "pred_option v x" and "pack_optional p x = Inr bs"
  then show "unpack_optional u (bs @ rest) = Inr (x, rest)"
    using codec.unpack_pack [OF assms]
    by (cases x) (auto simp: pack_optional_def unpack_optional_def pack_bool_def unpack_bool_def
          pack_u8_def unpack_u8_def rbind_Inr_iff)
qed

lemma unpack_n_pack_all:
  assumes "codec p u v" and "list_all v xs" and "pack_all p xs = Inr bs"
  shows "unpack_n u (length xs) (bs @ rest) = Inr (xs, rest)"
  using assms(2,3) codec.unpack_pack [OF assms(1)]
  by (induction xs arbitrary: bs) (auto simp: res_simps)

lemma codec_vector:
  assumes "codec p u v"
  shows "codec (pack_vector p) (unpack_vector u) (list_all v)"
proof unfold_locales
  fix xs bs rest assume v: "list_all v xs" and "pack_vector p xs = Inr bs"
  then obtain n cs where len: "length xs \<le> max_num_array_elements" and n: "pack_varint (of_nat (length xs)) = Inr n"
    and cs: "pack_all p xs = Inr cs" and bs: "bs = n @ cs"
    by (auto simp: pack_vector_def res_simps)
  have "unat (of_nat (length xs) :: 32 word) = length xs"
    using len by (simp add: unat_of_nat max_num_array_elements_def)
  with len unpack_n_pack_all [OF assms v cs, of rest] varint.unpack_pack [OF _ n, of "cs @ rest"]
  show "unpack_vector u (bs @ rest) = Inr (xs, rest)" by (simp add: unpack_vector_def bs)
qed

text \<open>Reading back an optional or a vector never depends on what the reader was told besides the bytes.\<close>

interpretation sha256s: codec "pack_vector pack_sha256" "unpack_vector unpack_sha256" "list_all (\<lambda>_. True)"
  by (rule codec_vector) (rule sha256_c.codec_axioms)

end
