(* ===== verification/Bitset.thy ===== *)
theory Bitset
  imports Raw_Codec
begin

text \<open>
  \<open>fc::bitset\<close> (\<open>libfc/include/fc/bitset.hpp\<close>), the vote vectors of quorum certificates: a number
  of bits and a vector of bytes in which the bits beyond that number are zero.

  \<open>bits\<close> is the abstraction to a list of booleans.  The lemmas show that every operation keeps the
  representation well formed and acts on the list as expected, that equal lists are equal bitsets
  (which the defaulted comparison relies on), and that the textual and the binary form are read
  back.  The locale \<open>bit_vector\<close> is the part of this that the vote aggregation relies on.
\<close>

section \<open>Operations\<close>

record bitset =
  m_num_bits :: nat
  m_bits :: "byte list"

definition calc_num_blocks :: "nat \<Rightarrow> nat" where
  "calc_num_blocks num_bits = (num_bits + 8 - 1) div 8"

definition block_index :: "nat \<Rightarrow> nat" where
  "block_index pos = pos div 8"

definition bit_index :: "nat \<Rightarrow> nat" where
  "bit_index pos = pos mod 8"

definition bit_mask :: "nat \<Rightarrow> byte" where
  "bit_mask pos = push_bit (bit_index pos) 1"

definition bs_size :: "bitset \<Rightarrow> nat" where
  "bs_size b = m_num_bits b"

definition num_blocks :: "bitset \<Rightarrow> nat res" where
  "num_blocks b = ensure (length (m_bits b) = calc_num_blocks (m_num_bits b)) Assert_failed (Inr (length (m_bits b)))"

definition zero_unused_bits :: "bitset \<Rightarrow> bitset res" where
  "zero_unused_bits b =
     ensure (length (m_bits b) = calc_num_blocks (m_num_bits b)) Assert_failed (
     let extra_bits = bit_index (bs_size b) in
     Inr (if extra_bits \<noteq> 0
          then b\<lparr>m_bits := (m_bits b)[length (m_bits b) - 1 := last (m_bits b) AND (push_bit extra_bits 1 - 1)]\<rparr>
          else b))"

definition unused_bits_zeroed :: "bitset \<Rightarrow> bool" where
  "unused_bits_zeroed b =
     (let extra_bits = bit_index (bs_size b) in
      extra_bits = 0 \<or> last (m_bits b) AND NOT (push_bit extra_bits 1 - 1) = 0)"

text \<open>\<open>resize\<close>: the vector is cut or padded with zero bytes.\<close>

definition bs_resize :: "nat \<Rightarrow> bitset \<Rightarrow> bitset res" where
  "bs_resize num_bits b =
     (let n = calc_num_blocks num_bits in
      zero_unused_bits \<lparr>m_num_bits = num_bits,
        m_bits = take n (m_bits b) @ replicate (n - length (m_bits b)) 0\<rparr>)"

definition bs_default :: bitset where
  "bs_default = \<lparr>m_num_bits = 0, m_bits = []\<rparr>"

definition bs_make :: "nat \<Rightarrow> bitset res" where
  "bs_make num_bits = bs_resize num_bits bs_default"

definition bs_set :: "nat \<Rightarrow> bitset \<Rightarrow> bitset res" where
  "bs_set pos b = ensure (pos < m_num_bits b) Assert_failed (
     Inr (b\<lparr>m_bits := (m_bits b)[block_index pos := m_bits b ! block_index pos OR bit_mask pos]\<rparr>))"

definition bs_clear :: "nat \<Rightarrow> bitset \<Rightarrow> bitset res" where
  "bs_clear pos b = ensure (pos < m_num_bits b) Assert_failed (
     Inr (b\<lparr>m_bits := (m_bits b)[block_index pos := m_bits b ! block_index pos AND NOT (bit_mask pos)]\<rparr>))"

definition bs_test :: "bitset \<Rightarrow> nat \<Rightarrow> bool res" where
  "bs_test b pos = ensure (pos < m_num_bits b) Assert_failed (
     Inr (m_bits b ! block_index pos AND bit_mask pos \<noteq> 0))"

definition bs_flip_at :: "nat \<Rightarrow> bitset \<Rightarrow> bitset res" where
  "bs_flip_at pos b = ensure (pos < m_num_bits b) Assert_failed (
     rbind (bs_test b pos) (\<lambda>t. if t then bs_clear pos b else bs_set pos b))"

definition bs_flip :: "bitset \<Rightarrow> bitset res" where
  "bs_flip b = zero_unused_bits (b\<lparr>m_bits := map (\<lambda>x. NOT x) (m_bits b)\<rparr>)"

fun bs_all_from :: "bitset \<Rightarrow> nat \<Rightarrow> nat \<Rightarrow> bool res" where
  "bs_all_from b i 0 = Inr True"
| "bs_all_from b i (Suc n) = rbind (bs_test b i) (\<lambda>t. if \<not> t then Inr False else bs_all_from b (i + 1) n)"

definition bs_all :: "bitset \<Rightarrow> bool res" where
  "bs_all b = bs_all_from b 0 (bs_size b)"

definition bs_none :: "bitset \<Rightarrow> bool" where
  "bs_none b = list_all (\<lambda>x. x = 0) (m_bits b)"

definition zero_all_bits :: "bitset \<Rightarrow> bitset" where
  "zero_all_bits b = b\<lparr>m_bits := map (\<lambda>_. 0) (m_bits b)\<rparr>"

definition bs_or_assign :: "bitset \<Rightarrow> bitset \<Rightarrow> bitset res" where
  "bs_or_assign b o' = ensure (bs_size b = bs_size o') Assert_failed (
     Inr (b\<lparr>m_bits := map2 (OR) (m_bits b) (take (length (m_bits b)) (m_bits o'))\<rparr>))"

fun bs_chars :: "bitset \<Rightarrow> nat \<Rightarrow> string res" where
  "bs_chars b 0 = Inr []"
| "bs_chars b (Suc i) = rbind (bs_test b i) (\<lambda>t. rbind (bs_chars b i) (\<lambda>s. Inr ((if t then CHR ''1'' else CHR ''0'') # s)))"

definition bs_to_string :: "bitset \<Rightarrow> string res" where
  "bs_to_string b = bs_chars b (bs_size b)"

fun bs_from_chars :: "nat \<Rightarrow> nat \<Rightarrow> string \<Rightarrow> bitset \<Rightarrow> bitset res" where
  "bs_from_chars num_bits i [] bs = Inr bs"
| "bs_from_chars num_bits i (c # cs) bs =
     (if c = CHR ''0'' then bs_from_chars num_bits (i + 1) cs bs
      else if c = CHR ''1'' then rbind (bs_set (num_bits - i - 1) bs) (bs_from_chars num_bits (i + 1) cs)
      else Inl Invalid_argument)"

definition bs_from_string :: "string \<Rightarrow> bitset res" where
  "bs_from_string s =
     (let num_bits = length s in
      rbind (bs_resize num_bits bs_default) (\<lambda>bs.
      rbind (bs_from_chars num_bits 0 s bs) (\<lambda>bs'.
      ensure (unused_bits_zeroed bs') Assert_failed (Inr bs'))))"

definition pack_bitset :: "bitset \<Rightarrow> byte list res" where
  "pack_bitset b =
     rbind (num_blocks b) (\<lambda>n.
     ensure (n \<le> max_num_array_elements) Fc_assert_exception (
     rbind (pack_varint (of_nat (bs_size b))) (\<lambda>h.
     Inr (if bs_size b > 0 then h @ m_bits b else h))))"

definition unpack_bitset :: "byte list \<Rightarrow> (bitset \<times> byte list) res" where
  "unpack_bitset s =
     rbind (unpack_varint s) (\<lambda>(size, s1).
     let n = calc_num_blocks (unat size) in
     ensure (n \<le> max_num_array_elements) Fc_assert_exception (
     rbind (bs_resize (unat size) bs_default) (\<lambda>bs.
     if unat size > 0 then
       rbind (num_blocks bs) (\<lambda>m.
       ensure (n = m) Assert_failed (
       rbind (ds_read n s1) (\<lambda>(bytes, s2).
       rbind (zero_unused_bits (bs\<lparr>m_bits := bytes\<rparr>)) (\<lambda>bs'.
       ensure (unused_bits_zeroed bs') Assert_failed (Inr (bs', s2))))))
     else Inr (bs, s1))))"

section \<open>The representation\<close>

abbreviation bit_at :: "bitset \<Rightarrow> nat \<Rightarrow> bool" where
  "bit_at b i \<equiv> bit (m_bits b ! (i div 8)) (i mod 8)"

definition bs_wf :: "bitset \<Rightarrow> bool" where
  "bs_wf b \<longleftrightarrow> length (m_bits b) = calc_num_blocks (m_num_bits b) \<and> unused_bits_zeroed b"

definition bits :: "bitset \<Rightarrow> bool list" where
  "bits b = map (bit_at b) [0 ..< m_num_bits b]"

lemma length_bits [simp]: "length (bits b) = bs_size b"
  by (simp add: bits_def bs_size_def)

lemma bits_eq_size: "bits b = xs \<Longrightarrow> bs_size b = length xs"
  by (drule arg_cong [of _ _ length]) (simp only: length_bits)

lemma nth_bits: "i < bs_size b \<Longrightarrow> bits b ! i = bit_at b i"
  by (simp add: bits_def bs_size_def)

lemma calc_num_blocks_iff: "i div 8 < calc_num_blocks n \<longleftrightarrow> 8 * (i div 8) < n"
  unfolding calc_num_blocks_def by arith

lemma block_in_range: "i < n \<Longrightarrow> i div 8 < calc_num_blocks n"
  unfolding calc_num_blocks_iff by arith

lemma bit_mask_bit: "bit (bit_mask pos) j \<longleftrightarrow> j = pos mod 8"
  by (auto simp: bit_mask_def bit_index_def bit_simps)

lemma low_mask_bit: "0 < k \<Longrightarrow> bit (2 ^ k - 1 :: byte) j \<longleftrightarrow> j < k \<and> j < 8"
proof -
  have "(2 ^ k - 1 :: byte) = mask k" by (simp add: mask_eq_exp_minus_1)
  then show "bit (2 ^ k - 1 :: byte) j \<longleftrightarrow> j < k \<and> j < 8"
    by (auto simp: bit_mask_iff)
qed

lemma calc_num_blocks_split: "calc_num_blocks n = n div 8 + (if n mod 8 = 0 then 0 else 1)"
proof -
  have "n + 8 - 1 = (n mod 8 + 7) + 8 * (n div 8)" by simp
  then have "calc_num_blocks n = n div 8 + (n mod 8 + 7) div 8"
    unfolding calc_num_blocks_def by (simp only: div_mult_self2 numeral_neq_zero not_False_eq_True)
  moreover have "(n mod 8 + 7) div 8 = (if n mod 8 = 0 then 0 else 1)"
    using mod_less_divisor [of 8 n] by (auto intro!: div_nat_eqI)
  ultimately show ?thesis by simp
qed

lemma calc_num_blocks_exact: "n mod 8 = 0 \<Longrightarrow> calc_num_blocks n = n div 8"
  by (simp add: calc_num_blocks_split)

lemma calc_num_blocks_extra: "n mod 8 \<noteq> 0 \<Longrightarrow> calc_num_blocks n = Suc (n div 8)"
  by (simp add: calc_num_blocks_split)

lemma last_block_positions:
  assumes "n mod 8 \<noteq> (0::nat)"
  shows "(\<forall>i. n \<le> i \<and> i div 8 < Suc (n div 8) \<longrightarrow> P (i div 8) (i mod 8)) \<longleftrightarrow>
         (\<forall>j. n mod 8 \<le> j \<and> j < 8 \<longrightarrow> P (n div 8) j)" (is "?L \<longleftrightarrow> ?R")
proof
  assume L: ?L
  show ?R
  proof (intro allI impI)
    fix j assume j: "n mod 8 \<le> j \<and> j < 8"
    have "n = 8 * (n div 8) + n mod 8" by simp
    then have "n \<le> 8 * (n div 8) + j" using j by linarith
    moreover have "(8 * (n div 8) + j) div 8 = n div 8" "(8 * (n div 8) + j) mod 8 = j" using j by auto
    ultimately show "P (n div 8) j" using L [rule_format, of "8 * (n div 8) + j"] by simp
  qed
next
  assume R: ?R
  show ?L
  proof (intro allI impI)
    fix i assume i: "n \<le> i \<and> i div 8 < Suc (n div 8)"
    then have q: "i div 8 = n div 8" using div_le_mono [of n i 8] by simp
    have "n = 8 * (n div 8) + n mod 8" and "i = 8 * (i div 8) + i mod 8" by simp_all
    with i q have "n mod 8 \<le> i mod 8" by linarith
    with R q show "P (i div 8) (i mod 8)" by simp
  qed
qed

lemma and_not_low_mask:
  assumes "0 < k"
  shows "w AND NOT (2 ^ k - 1 :: byte) = 0 \<longleftrightarrow> (\<forall>j. k \<le> j \<and> j < 8 \<longrightarrow> \<not> bit w j)" (is "?L \<longleftrightarrow> ?R")
proof
  assume L: ?L
  show ?R
  proof (intro allI impI notI)
    fix j assume "k \<le> j \<and> j < 8" and "bit w j"
    then have "bit (w AND NOT (2 ^ k - 1 :: byte)) j"
      by (simp add: bit_and_iff bit_not_iff low_mask_bit [OF assms])
    with L show False by simp
  qed
next
  assume R: ?R
  show ?L
  proof (rule bit_word_eqI)
    fix n assume "n < LENGTH(8)"
    with R show "bit (w AND NOT (2 ^ k - 1 :: byte)) n \<longleftrightarrow> bit (0 :: byte) n"
      by (cases "n < k") (simp_all add: bit_and_iff bit_not_iff low_mask_bit [OF assms])
  qed
qed

text \<open>The unused bits are the ones of the last byte beyond the size.\<close>

lemma unused_zeroed_iff:
  assumes "length (m_bits b) = calc_num_blocks (m_num_bits b)"
  shows "unused_bits_zeroed b \<longleftrightarrow>
    (\<forall>i. m_num_bits b \<le> i \<and> i div 8 < length (m_bits b) \<longrightarrow> \<not> bit_at b i)"
proof (cases "m_num_bits b mod 8 = 0")
  case True
  have "\<not> i div 8 < length (m_bits b)" if "m_num_bits b \<le> i" for i
    using div_le_mono [OF that, of 8] by (simp add: assms calc_num_blocks_exact [OF True])
  with True show ?thesis by (auto simp: unused_bits_zeroed_def bit_index_def bs_size_def)
next
  case False
  let ?q = "m_num_bits b div 8"
  have len: "length (m_bits b) = Suc ?q" using assms calc_num_blocks_extra [OF False] by simp
  then have "m_bits b \<noteq> []" by auto
  with len have last: "last (m_bits b) = m_bits b ! ?q" by (simp add: last_conv_nth)
  show ?thesis
    unfolding len last_block_positions [OF False, of "\<lambda>q j. \<not> bit (m_bits b ! q) j"]
    using False by (simp add: unused_bits_zeroed_def bit_index_def bs_size_def Let_def last and_not_low_mask)
qed

lemma bs_wfD:
  assumes "bs_wf b"
  shows "length (m_bits b) = calc_num_blocks (m_num_bits b)"
    and "m_num_bits b \<le> i \<Longrightarrow> i div 8 < length (m_bits b) \<Longrightarrow> \<not> bit_at b i"
    and "i < m_num_bits b \<Longrightarrow> i div 8 < length (m_bits b)"
  using assms unused_zeroed_iff [of b] block_in_range [of i "m_num_bits b"] by (auto simp: bs_wf_def)

lemma bs_wfI:
  assumes "length (m_bits b) = calc_num_blocks (m_num_bits b)"
    and "\<And>i. m_num_bits b \<le> i \<Longrightarrow> i div 8 < length (m_bits b) \<Longrightarrow> \<not> bit_at b i"
  shows "bs_wf b"
  using assms unused_zeroed_iff [of b] by (auto simp: bs_wf_def)

lemma bitset_eqI:
  assumes "bs_wf a" and "bs_wf b" and "bits a = bits b"
  shows "a = b"
proof -
  have n: "m_num_bits a = m_num_bits b"
    using arg_cong [OF assms(3), of length] unfolding length_bits bs_size_def .
  with bs_wfD(1) [OF assms(1)] bs_wfD(1) [OF assms(2)] have len: "length (m_bits a) = length (m_bits b)" by simp
  have "m_bits a ! k = m_bits b ! k" if k: "k < length (m_bits b)" for k
  proof (rule bit_word_eqI)
    fix j assume "j < LENGTH(8)"
    then have q: "(8 * k + j) div 8 = k" "(8 * k + j) mod 8 = j" by auto
    show "bit (m_bits a ! k) j \<longleftrightarrow> bit (m_bits b ! k) j"
    proof (cases "8 * k + j < m_num_bits b")
      case True
      with nth_bits [of "8 * k + j" a] nth_bits [of "8 * k + j" b] assms(3) n q show ?thesis
        by (simp add: bs_size_def)
    next
      case False
      with bs_wfD(2) [OF assms(1), of "8 * k + j"] bs_wfD(2) [OF assms(2), of "8 * k + j"] n len q k show ?thesis
        by simp
    qed
  qed
  with len have "m_bits a = m_bits b" by (intro nth_equalityI) auto
  with n show ?thesis by simp
qed

section \<open>The operations on lists of booleans\<close>

lemma nth_update_block:
  assumes "i div 8 < length xs"
    and "\<And>j. j < 8 \<Longrightarrow> bit w j \<longleftrightarrow> (if j = i mod 8 then v else bit (xs ! (i div 8)) j)"
  shows "bit (xs[i div 8 := w] ! (k div 8)) (k mod 8) \<longleftrightarrow> (if k = i then v else bit (xs ! (k div 8)) (k mod 8))"
proof (cases "k div 8 = i div 8")
  case True
  have "k = i \<longleftrightarrow> k mod 8 = i mod 8" using True by (metis div_mult_mod_eq)
  with True assms(1) assms(2) [of "k mod 8"] show ?thesis by simp
next
  case False
  then have "k \<noteq> i" by auto
  with False show ?thesis by simp
qed

lemma update_block_bits:
  assumes "bs_wf b" and "i < m_num_bits b"
    and w: "\<And>j. j < 8 \<Longrightarrow> bit w j \<longleftrightarrow> (if j = i mod 8 then v else bit (m_bits b ! (i div 8)) j)"
  shows "bs_wf (b\<lparr>m_bits := (m_bits b)[i div 8 := w]\<rparr>) \<and>
         bits (b\<lparr>m_bits := (m_bits b)[i div 8 := w]\<rparr>) = (bits b)[i := v]"
proof -
  note upd = nth_update_block [OF bs_wfD(3) [OF assms(1,2)] w]
  have "bs_wf (b\<lparr>m_bits := (m_bits b)[i div 8 := w]\<rparr>)"
    by (rule bs_wfI) (use assms(2) bs_wfD(1,2) [OF assms(1)] in \<open>auto simp: upd\<close>)
  moreover have "bits (b\<lparr>m_bits := (m_bits b)[i div 8 := w]\<rparr>) = (bits b)[i := v]"
    by (rule nth_equalityI) (use assms(2) in \<open>auto simp: bits_def bs_size_def upd nth_list_update\<close>)
  ultimately show ?thesis ..
qed

lemma bs_set_bits:
  assumes "bs_wf b" and "i < bs_size b"
  shows "\<exists>b'. bs_set i b = Inr b' \<and> bs_wf b' \<and> bits b' = (bits b)[i := True]"
  using update_block_bits [OF assms(1), of i "m_bits b ! (i div 8) OR bit_mask i" True] assms(2)
  by (simp add: bs_set_def block_index_def bs_size_def bit_or_iff bit_mask_bit)

lemma bs_clear_bits:
  assumes "bs_wf b" and "i < bs_size b"
  shows "\<exists>b'. bs_clear i b = Inr b' \<and> bs_wf b' \<and> bits b' = (bits b)[i := False]"
  using update_block_bits [OF assms(1), of i "m_bits b ! (i div 8) AND NOT (bit_mask i)" False] assms(2)
  by (simp add: bs_clear_def block_index_def bs_size_def bit_and_iff bit_not_iff bit_mask_bit)

lemma bs_test_bits:
  assumes "i < bs_size b"
  shows "bs_test b i = Inr (bits b ! i)"
proof -
  have "m_bits b ! (i div 8) AND bit_mask i \<noteq> 0 \<longleftrightarrow> bit_at b i"
    unfolding bit_mask_def bit_index_def by (metis and_exp_eq_0_iff_not_bit push_bit_of_1)
  with assms show ?thesis by (simp add: bs_test_def block_index_def nth_bits bs_size_def)
qed

lemma bs_flip_at_bits:
  assumes "bs_wf b" and "i < bs_size b"
  shows "\<exists>b'. bs_flip_at i b = Inr b' \<and> bs_wf b' \<and> bits b' = (bits b)[i := \<not> bits b ! i]"
  using bs_set_bits [OF assms] bs_clear_bits [OF assms] bs_test_bits [OF assms(2)] assms(2)
  by (cases "bits b ! i") (simp_all add: bs_flip_at_def bs_size_def)

lemma zero_unused_bits_correct:
  assumes "length (m_bits b) = calc_num_blocks (m_num_bits b)"
  shows "\<exists>b'. zero_unused_bits b = Inr b' \<and> bs_wf b' \<and> bits b' = bits b"
proof (cases "m_num_bits b mod 8 = 0")
  case True
  then have "bs_wf b" using assms by (simp add: bs_wf_def unused_bits_zeroed_def bit_index_def bs_size_def)
  with True assms show ?thesis by (simp add: zero_unused_bits_def bit_index_def bs_size_def)
next
  case False
  let ?n = "m_num_bits b" and ?q = "m_num_bits b div 8"
  let ?w = "last (m_bits b) AND (2 ^ (?n mod 8) - 1)" and ?b = "\<lambda>w. b\<lparr>m_bits := (m_bits b)[?q := w]\<rparr>"
  have len: "length (m_bits b) = Suc ?q" using assms calc_num_blocks_extra [OF False] by simp
  then have "m_bits b \<noteq> []" by auto
  with len have last: "last (m_bits b) = m_bits b ! ?q" by (simp add: last_conv_nth)
  have z: "zero_unused_bits b = Inr (?b ?w)"
    using False assms by (simp add: zero_unused_bits_def bit_index_def bs_size_def calc_num_blocks_extra)
  have at: "bit_at (?b ?w) i \<longleftrightarrow> i < ?n \<and> bit_at b i" if "i div 8 < Suc ?q" for i
  proof (cases "i div 8 = ?q")
    case True
    have "?n = 8 * ?q + ?n mod 8" and "i = 8 * (i div 8) + i mod 8" by simp_all
    with True have "i mod 8 < ?n mod 8 \<longleftrightarrow> i < ?n" by linarith
    with True len False show ?thesis by (simp add: last bit_and_iff low_mask_bit conj_commute)
  next
    case neq: False
    with that have "i div 8 < ?q" by simp
    then have "i < ?n" by (metis div_le_mono leI not_less)
    with neq show ?thesis by simp
  qed
  have "bs_wf (?b ?w)"
    by (rule bs_wfI) (use len assms at in auto)
  moreover have "bits (?b ?w) = bits b"
    using block_in_range [of _ ?n] at by (auto simp: bits_def calc_num_blocks_extra [OF False])
  ultimately show ?thesis using z by blast
qed

lemma bs_resize_default:
  "\<exists>b. bs_resize n bs_default = Inr b \<and> bs_wf b \<and> bits b = replicate n False"
proof -
  let ?b = "\<lparr>m_num_bits = n, m_bits = replicate (calc_num_blocks n) 0\<rparr>"
  have "bits ?b = replicate n False"
    by (rule nth_equalityI) (simp_all add: bits_def bs_size_def block_in_range)
  with zero_unused_bits_correct [of ?b] show ?thesis by (simp add: bs_resize_def bs_default_def Let_def)
qed

lemma bs_make_bits: "\<exists>b. bs_make n = Inr b \<and> bs_wf b \<and> bits b = replicate n False"
  unfolding bs_make_def by (rule bs_resize_default)

lemma bs_flip_bits:
  assumes "bs_wf b"
  shows "\<exists>b'. bs_flip b = Inr b' \<and> bs_wf b' \<and> bits b' = map Not (bits b)"
proof -
  let ?b = "b\<lparr>m_bits := map (\<lambda>x. NOT x) (m_bits b)\<rparr>"
  have "bits ?b = map Not (bits b)"
    by (rule nth_equalityI) (use bs_wfD(3) [OF assms] in \<open>simp_all add: bits_def bs_size_def bit_not_iff\<close>)
  with zero_unused_bits_correct [of ?b] bs_wfD(1) [OF assms] show ?thesis by (simp add: bs_flip_def)
qed

lemma bs_or_assign_bits:
  assumes "bs_wf a" and "bs_wf b" and "bs_size a = bs_size b"
  shows "\<exists>c. bs_or_assign a b = Inr c \<and> bs_wf c \<and> bits c = map2 (\<or>) (bits a) (bits b)"
proof -
  let ?c = "a\<lparr>m_bits := map2 (OR) (m_bits a) (m_bits b)\<rparr>"
  from assms(3) have n: "m_num_bits b = m_num_bits a" by (simp add: bs_size_def)
  with bs_wfD(1) [OF assms(1)] bs_wfD(1) [OF assms(2)] have len: "length (m_bits b) = length (m_bits a)" by simp
  have "bs_wf ?c"
    by (rule bs_wfI)
      (use len n bs_wfD(1,2) [OF assms(1)] bs_wfD(2) [OF assms(2)] in \<open>auto simp: bit_or_iff\<close>)
  moreover have "bits ?c = map2 (\<or>) (bits a) (bits b)"
    by (rule nth_equalityI)
      (use len n bs_wfD(3) [OF assms(1)] in \<open>auto simp: bits_def bs_size_def bit_or_iff\<close>)
  ultimately show ?thesis using len assms(3) by (simp add: bs_or_assign_def)
qed

lemma bs_all_from_bits:
  "i + n = bs_size b \<Longrightarrow> bs_all_from b i n = Inr (list_all (\<lambda>x. x) (drop i (bits b)))"
proof (induction n arbitrary: i)
  case (Suc n)
  then have "drop i (bits b) = bits b ! i # drop (Suc i) (bits b)" by (intro Cons_nth_drop_Suc [symmetric]) simp
  with Suc bs_test_bits [of i b] show ?case by simp
qed simp

lemma bs_all_bits: "bs_all b = Inr (list_all (\<lambda>x. x) (bits b))"
  using bs_all_from_bits [of 0 "bs_size b" b] by (simp add: bs_all_def)

lemma bs_none_bits:
  assumes "bs_wf b"
  shows "bs_none b \<longleftrightarrow> list_all Not (bits b)"
proof
  assume "bs_none b"
  then show "list_all Not (bits b)"
    using bs_wfD(3) [OF assms] by (auto simp: bs_none_def bits_def list_all_length)
next
  assume *: "list_all Not (bits b)"
  have "m_bits b ! k = 0" if "k < length (m_bits b)" for k
  proof (rule bit_word_eqI)
    fix j assume "j < LENGTH(8)"
    then have q: "(8 * k + j) div 8 = k" "(8 * k + j) mod 8 = j" by auto
    have "\<not> bit_at b (8 * k + j)"
      using * bs_wfD(2) [OF assms, of "8 * k + j"] that q
      by (cases "8 * k + j < m_num_bits b") (auto simp: bits_def list_all_length)
    with q show "bit (m_bits b ! k) j \<longleftrightarrow> bit (0 :: byte) j" by simp
  qed
  then show "bs_none b" by (simp add: bs_none_def list_all_length)
qed

section \<open>Text and binary forms\<close>

definition bit_char :: "bool \<Rightarrow> char" where
  "bit_char t = (if t then CHR ''1'' else CHR ''0'')"

lemma bit_char_simps [simp]: "bit_char True = CHR ''1''" "bit_char False = CHR ''0''"
  by (simp_all add: bit_char_def)

lemma bs_chars_bits: "n \<le> bs_size b \<Longrightarrow> bs_chars b n = Inr (map bit_char (rev (take n (bits b))))"
proof (induction n)
  case (Suc n)
  then have "take (Suc n) (bits b) = take n (bits b) @ [bits b ! n]" by (simp add: take_Suc_conv_app_nth)
  with Suc bs_test_bits [of n b] show ?case by (simp add: bit_char_def)
qed simp

lemma bs_to_string_bits: "bs_to_string b = Inr (map bit_char (rev (bits b)))"
  using bs_chars_bits [of "bs_size b" b] by (simp add: bs_to_string_def)

lemma bs_from_chars_bits:
  assumes "bs_wf b" and "bs_size b = n" and "i + length ts = n"
    and "\<forall>k < length ts. \<not> bits b ! k"
  shows "\<exists>b'. bs_from_chars n i (map bit_char ts) b = Inr b' \<and> bs_wf b' \<and>
              bits b' = rev ts @ drop (length ts) (bits b)"
  using assms
proof (induction ts arbitrary: i b)
  case Nil
  then show ?case by simp
next
  case (Cons t ts)
  let ?p = "n - i - 1"
  have p: "?p = length ts" "?p < bs_size b" using Cons.prems(2,3) by auto
  have same: "(bits b)[length ts := False] = bits b"
    using Cons.prems(4) p by (simp add: list_update_same_conv)
  have "\<exists>b1. (if t then bs_set ?p b else Inr b) = Inr b1 \<and> bs_wf b1 \<and> bits b1 = (bits b)[length ts := t]"
    using bs_set_bits [OF Cons.prems(1) p(2)] Cons.prems(1) p(1) same by (cases t) simp_all
  then obtain b1 where b1: "(if t then bs_set ?p b else Inr b) = Inr b1" "bs_wf b1"
    "bits b1 = (bits b)[length ts := t]" by blast
  have "bs_size b1 = n" using bits_eq_size [OF b1(3)] Cons.prems(2) by simp
  with Cons.IH [OF b1(2), of "i + 1"] Cons.prems(3,4) b1(3) obtain b' where
    b': "bs_from_chars n (i + 1) (map bit_char ts) b1 = Inr b'" "bs_wf b'"
    "bits b' = rev ts @ drop (length ts) (bits b1)" by auto
  have "drop (length ts) (bits b1) = t # drop (Suc (length ts)) (bits b)"
    using b1(3) p by (simp add: Cons_nth_drop_Suc [symmetric])
  with b' b1(1) show ?case by (cases t) auto
qed

lemma bs_from_string_bits:
  "\<exists>b. bs_from_string (map bit_char ts) = Inr b \<and> bs_wf b \<and> bits b = rev ts"
proof -
  obtain b0 where b0: "bs_resize (length ts) bs_default = Inr b0" "bs_wf b0" "bits b0 = replicate (length ts) False"
    using bs_resize_default by blast
  have "bs_size b0 = length ts" using bits_eq_size [OF b0(3)] by simp
  from bs_from_chars_bits [OF b0(2) this, of 0 ts] b0(3) obtain b' where
    "bs_from_chars (length ts) 0 (map bit_char ts) b0 = Inr b'" "bs_wf b'" "bits b' = rev ts" by auto
  with b0(1) show ?thesis by (simp add: bs_from_string_def Let_def bs_wf_def)
qed

lemma bs_string_roundtrip:
  assumes "bs_wf b"
  shows "rbind (bs_to_string b) bs_from_string = Inr b"
proof -
  obtain b' where "bs_from_string (map bit_char (rev (bits b))) = Inr b'" "bs_wf b'" "bits b' = bits b"
    using bs_from_string_bits [of "rev (bits b)"] by auto
  with bitset_eqI [OF this(2) assms] show ?thesis by (simp add: bs_to_string_bits)
qed

interpretation bitset_c: codec pack_bitset unpack_bitset "\<lambda>b. bs_wf b \<and> bs_size b < 2 ^ 32"
proof unfold_locales
  fix b bs rest assume v: "bs_wf b \<and> bs_size b < 2 ^ 32" and "pack_bitset b = Inr bs"
  then obtain h where len: "calc_num_blocks (bs_size b) \<le> max_num_array_elements"
    and h: "pack_varint (of_nat (bs_size b)) = Inr h" and bs: "bs = (if bs_size b > 0 then h @ m_bits b else h)"
    using bs_wfD(1) [of b] by (auto simp: pack_bitset_def num_blocks_def bs_size_def res_simps)
  have size: "unat (of_nat (bs_size b) :: 32 word) = bs_size b" using v by (simp add: unat_of_nat)
  obtain b0 where b0: "bs_resize (bs_size b) bs_default = Inr b0" "bs_wf b0" "bits b0 = replicate (bs_size b) False"
    using bs_resize_default by blast
  have n: "m_num_bits b0 = bs_size b" using bits_eq_size [OF b0(3)] by (simp add: bs_size_def)
  show "unpack_bitset (bs @ rest) = Inr (b, rest)"
  proof (cases "bs_size b > 0")
    case False
    then have "b0 = b" using b0(3) v by (intro bitset_eqI b0(2)) (auto simp: bits_def bs_size_def)
    with False varint.unpack_pack [OF _ h, of rest] bs size len b0(1) show ?thesis
      by (simp add: unpack_bitset_def)
  next
    case True
    let ?b = "b0\<lparr>m_bits := m_bits b\<rparr>"
    have "?b = b" using n by (simp add: bs_size_def)
    moreover obtain b' where "zero_unused_bits b = Inr b'" "bs_wf b'" "bits b' = bits b"
      using zero_unused_bits_correct [of b] bs_wfD(1) [of b] v by blast
    moreover from this have "b' = b" using v by (intro bitset_eqI) auto
    ultimately have z: "zero_unused_bits ?b = Inr b" by simp
    have l: "length (m_bits b) = calc_num_blocks (bs_size b)" using v bs_wfD(1) [of b] by (simp add: bs_size_def)
    have "unused_bits_zeroed b" using v by (simp add: bs_wf_def)
    with True varint.unpack_pack [OF _ h, of "m_bits b @ rest"] bs size len b0(1) z l n bs_wfD(1) [OF b0(2)]
    show ?thesis by (simp add: unpack_bitset_def num_blocks_def Let_def)
  qed
qed

section \<open>The interface to the vote aggregation\<close>

text \<open>
  What the users of a vote vector rely on: a fresh vector has no votes, a vote can be recorded at any
  position in range and nothing else changes, and reading out of range is an error.
\<close>

locale bit_vector =
  fixes make :: "nat \<Rightarrow> 'b res"
    and test :: "'b \<Rightarrow> nat \<Rightarrow> bool res"
    and put :: "nat \<Rightarrow> 'b \<Rightarrow> 'b res"
    and vec :: "'b \<Rightarrow> bool list"
    and wf :: "'b \<Rightarrow> bool"
  assumes make_vec: "\<exists>b. make n = Inr b \<and> wf b \<and> vec b = replicate n False"
    and test_vec: "test b i = (if i < length (vec b) then Inr (vec b ! i) else Inl Assert_failed)"
    and put_vec: "wf b \<Longrightarrow> i < length (vec b) \<Longrightarrow> \<exists>b'. put i b = Inr b' \<and> wf b' \<and> vec b' = (vec b)[i := True]"
begin

lemma put_eqD:
  assumes "wf b" and "i < length (vec b)" and "put i b = Inr b'"
  shows "wf b'" and "vec b' = (vec b)[i := True]"
  using put_vec [OF assms(1,2)] assms(3) by auto

lemma test_after_put:
  assumes "wf b" and "i < length (vec b)" and "put i b = Inr b'" and "j < length (vec b)"
  shows "test b' j = (if j = i then Inr True else test b j)"
  using assms put_eqD [OF assms(1-3)] by (simp add: test_vec)

lemma make_no_vote: "make n = Inr b \<Longrightarrow> i < n \<Longrightarrow> test b i = Inr False"
  using make_vec [of n] by (auto simp: test_vec)

end

interpretation bv: bit_vector bs_make bs_test bs_set bits bs_wf
proof unfold_locales
  show "\<exists>b. bs_make n = Inr b \<and> bs_wf b \<and> bits b = replicate n False" for n by (rule bs_make_bits)
  show "bs_test b i = (if i < length (bits b) then Inr (bits b ! i) else Inl Assert_failed)" for b i
  proof (cases "i < bs_size b")
    case True
    with bs_test_bits [OF this] show ?thesis by simp
  next
    case False
    then show ?thesis by (simp add: bs_test_def bs_size_def)
  qed
  show "bs_wf b \<Longrightarrow> i < length (bits b) \<Longrightarrow> \<exists>b'. bs_set i b = Inr b' \<and> bs_wf b' \<and> bits b' = (bits b)[i := True]" for b i
    by (rule bs_set_bits) simp_all
qed

text \<open>
  C24: The byte representation implements a vector of booleans: constructing, setting, clearing,
  flipping and uniting bitsets never fails on positions and sizes in range, keeps the representation
  well formed, and does to the vector exactly what the operation's name says.
\<close>

theorem bitset_refines_bools:
  assumes "bs_wf b" and "i < bs_size b" and "bs_wf c" and "bs_size c = bs_size b"
  shows "(\<exists>b'. bs_make n = Inr b' \<and> bs_wf b' \<and> bits b' = replicate n False) \<and>
    bs_test b i = Inr (bits b ! i) \<and>
    (\<exists>b'. bs_set i b = Inr b' \<and> bs_wf b' \<and> bits b' = (bits b)[i := True]) \<and>
    (\<exists>b'. bs_clear i b = Inr b' \<and> bs_wf b' \<and> bits b' = (bits b)[i := False]) \<and>
    (\<exists>b'. bs_flip_at i b = Inr b' \<and> bs_wf b' \<and> bits b' = (bits b)[i := \<not> bits b ! i]) \<and>
    (\<exists>b'. bs_flip b = Inr b' \<and> bs_wf b' \<and> bits b' = map Not (bits b)) \<and>
    (\<exists>b'. bs_or_assign b c = Inr b' \<and> bs_wf b' \<and> bits b' = map2 (\<or>) (bits b) (bits c))"
  by (intro conjI bs_make_bits bs_test_bits bs_set_bits bs_clear_bits bs_flip_at_bits bs_flip_bits
      bs_or_assign_bits assms assms(4) [symmetric])

lemma sample_bitset: "bs_wf \<lparr>m_num_bits = 10, m_bits = [0x81, 0x02]\<rparr>"
  by (simp add: bs_wf_def unused_bits_zeroed_def bit_index_def bs_size_def calc_num_blocks_def)

theorem bitset_refines_bools_witness:
  "\<exists>b'. bs_or_assign \<lparr>m_num_bits = 10, m_bits = [0x81, 0x02]\<rparr> \<lparr>m_num_bits = 10, m_bits = [0x81, 0x02]\<rparr> = Inr b' \<and> bs_wf b'"
  using bitset_refines_bools [OF sample_bitset _ sample_bitset, of 3] by (auto simp: bs_size_def)

text \<open>
  The textual and the binary form of a well-formed bitset are read back as the same bitset,
  and no two well-formed bitsets with the same bits differ in their representation.
\<close>

theorem bitset_roundtrips:
  assumes "bs_wf b"
  shows "rbind (bs_to_string b) bs_from_string = Inr b \<and>
    (\<forall>bs rest. bs_size b < 2 ^ 32 \<and> pack_bitset b = Inr bs \<longrightarrow> unpack_bitset (bs @ rest) = Inr (b, rest)) \<and>
    (\<forall>c. bs_wf c \<and> bits c = bits b \<longrightarrow> c = b)"
  using bs_string_roundtrip [OF assms] bitset_c.unpack_pack assms bitset_eqI [OF _ assms] by blast

theorem bitset_roundtrips_witness:
  "rbind (bs_to_string \<lparr>m_num_bits = 10, m_bits = [0x81, 0x02]\<rparr>) bs_from_string = Inr \<lparr>m_num_bits = 10, m_bits = [0x81, 0x02]\<rparr>"
  using bitset_roundtrips [OF sample_bitset] by blast

end
