(* ===== verification/Ordered_Diff.thy ===== *)
theory Ordered_Diff
  imports Chain_Types
begin

text \<open>
  \<open>fc::ordered_diff\<close> (\<open>libfc/include/fc/container/ordered_diff.hpp\<close>), the difference of two
  vectors that block headers carry instead of whole finalizer and proposer policies.  The index
  type \<open>SizeType\<close> is \<open>uint16_t\<close>, as in both of its instances (\<open>finalizers_differ\<close> and
  \<open>producer_auth_differ\<close>); \<open>size_t\<close> positions are naturals.

  The lemmas show the contract of the class: the difference of two vectors, applied to the first,
  gives the second; and applying an arbitrary difference, such as one received in a block, either
  succeeds or raises the documented error, but never trips the internal \<open>assert\<close>.
\<close>

section \<open>Operations\<close>

type_synonym size_type = "16 word"

record 'a diff_result =
  remove_indexes :: "size_type list"
  insert_indexes :: "(size_type \<times> 'a) list"

definition size_type_max :: nat where
  "size_type_max = 2 ^ 16 - 1"

lemma le_size_type_max [code_unfold]: "n \<le> size_type_max \<longleftrightarrow> int n \<le> 65535"
  by (simp add: size_type_max_def)

definition push_remove :: "nat \<Rightarrow> 'a diff_result \<Rightarrow> 'a diff_result" where
  "push_remove s r = r\<lparr>remove_indexes := remove_indexes r @ [of_nat s]\<rparr>"

definition push_insert :: "nat \<Rightarrow> 'a \<Rightarrow> 'a diff_result \<Rightarrow> 'a diff_result" where
  "push_insert t v r = r\<lparr>insert_indexes := insert_indexes r @ [(of_nat t, v)]\<rparr>"

text \<open>The \<open>while\<close> loop of \<open>diff\<close>.\<close>

function diff_loop ::
  "'a list \<Rightarrow> 'a list \<Rightarrow> nat \<Rightarrow> nat \<Rightarrow> 'a diff_result \<Rightarrow> 'a diff_result res" where
  "diff_loop source target s t r =
     (if s < length source \<and> t < length target then
        if source ! s = target ! t then diff_loop source target (s + 1) (t + 1) r
        else if s = length source - 1 \<and> t = length target - 1 then
          ensure (s \<le> size_type_max \<and> t \<le> size_type_max) Assert_failed
            (diff_loop source target (s + 1) (t + 1) (push_insert t (target ! t) (push_remove s r)))
        else if s + 1 < length source \<and> t + 1 < length target \<and> source ! (s + 1) = target ! (t + 1) then
          ensure (s \<le> size_type_max \<and> t \<le> size_type_max) Assert_failed
            (diff_loop source target (s + 1) (t + 1) (push_insert t (target ! t) (push_remove s r)))
        else if t + 1 < length target \<and> source ! s = target ! (t + 1) then
          ensure (t \<le> size_type_max) Assert_failed
            (diff_loop source target s (t + 1) (push_insert t (target ! t) r))
        else
          ensure (s \<le> size_type_max) Assert_failed
            (diff_loop source target (s + 1) t (push_remove s r))
      else if s < length source then
        ensure (s \<le> size_type_max) Assert_failed
          (diff_loop source target (s + 1) t (push_remove s r))
      else if t < length target then
        ensure (t \<le> size_type_max) Assert_failed
          (diff_loop source target s (t + 1) (push_insert t (target ! t) r))
      else Inr r)"
  by pat_completeness auto
termination
  by (relation "measure (\<lambda>(source, target, s, t, r). (length source - s) + (length target - t))") auto

declare diff_loop.simps [simp del]

definition ordered_diff :: "'a list \<Rightarrow> 'a list \<Rightarrow> 'a diff_result res" where
  "ordered_diff source target =
     ensure (source = [] \<or> length source - 1 \<le> size_type_max) Fc_assert_exception (
     ensure (target = [] \<or> length target - 1 \<le> size_type_max) Fc_assert_exception (
     diff_loop source target 0 0 \<lparr>remove_indexes = [], insert_indexes = []\<rparr>))"

definition erase_at :: "nat \<Rightarrow> 'a list \<Rightarrow> 'a list" where
  "erase_at i xs = take i xs @ drop (i + 1) xs"

definition insert_at :: "nat \<Rightarrow> 'a \<Rightarrow> 'a list \<Rightarrow> 'a list" where
  "insert_at i x xs = take i xs @ x # drop i xs"

text \<open>
  The two \<open>for\<close> loops of \<open>apply_diff\<close>: \<open>i\<close> is the loop counter, \<open>prev\<close> the element at \<open>i - 1\<close>
  (absent in the first iteration).
\<close>

fun remove_loop :: "nat \<Rightarrow> size_type option \<Rightarrow> size_type list \<Rightarrow> 'a list \<Rightarrow> 'a list res" where
  "remove_loop i prev [] container = Inr container"
| "remove_loop i prev (idx # idxs) container =
     ensure (case prev of None \<Rightarrow> True | Some p \<Rightarrow> p < idx) Fc_assert_exception (
     ensure (i \<le> unat idx) Assert_failed (
     let updated_index = unat idx - i in
     ensure (updated_index < length container) Fc_assert_exception (
     remove_loop (i + 1) (Some idx) idxs (erase_at updated_index container))))"

fun insert_loop :: "size_type option \<Rightarrow> (size_type \<times> 'a) list \<Rightarrow> 'a list \<Rightarrow> 'a list res" where
  "insert_loop prev [] container = Inr container"
| "insert_loop prev ((idx, val) # rest) container =
     ensure (case prev of None \<Rightarrow> True | Some p \<Rightarrow> p < idx) Fc_assert_exception (
     ensure (unat idx \<le> length container) Fc_assert_exception (
     insert_loop (Some idx) rest (insert_at (unat idx) val container)))"

definition ordered_apply_diff :: "'a list \<Rightarrow> 'a diff_result \<Rightarrow> 'a list res" where
  "ordered_apply_diff container d =
     rbind (remove_loop 0 None (remove_indexes d) container) (\<lambda>kept.
     insert_loop None (insert_indexes d) kept)"

section \<open>Positions that survive\<close>

text \<open>\<open>skip p is xs\<close>: the elements of \<open>xs\<close> from position \<open>p\<close> on, without the ascending positions \<open>is\<close>.\<close>

fun skip :: "nat \<Rightarrow> nat list \<Rightarrow> 'a list \<Rightarrow> 'a list" where
  "skip p [] xs = drop p xs"
| "skip p (i # is) xs = take (i - p) (drop p xs) @ skip (i + 1) is xs"

fun ascending :: "nat \<Rightarrow> nat list \<Rightarrow> nat \<Rightarrow> bool" where
  "ascending p [] n \<longleftrightarrow> p \<le> n"
| "ascending p (i # is) n \<longleftrightarrow> p \<le> i \<and> i < n \<and> ascending (i + 1) is n"

lemma ascending_bounds: "ascending p is n \<Longrightarrow> i \<in> set is \<Longrightarrow> p \<le> i \<and> i < n"
  by (induction "is" arbitrary: p) fastforce+

lemma ascending_le: "ascending p is n \<Longrightarrow> p \<le> n"
  by (cases "is") auto

lemma ascending_weaken: "ascending (Suc p) is n \<Longrightarrow> ascending p is n"
  by (cases "is") auto

lemma skip_keep:
  "p < length xs \<Longrightarrow> ascending (p + 1) is (length xs) \<Longrightarrow> skip p is xs = xs ! p # skip (p + 1) is xs"
proof (cases "is")
  case (Cons i rest)
  moreover assume "p < length xs" and "ascending (p + 1) is (length xs)"
  ultimately show ?thesis
    by (simp add: Cons_nth_drop_Suc [symmetric] take_Cons' Suc_diff_le)
qed (simp add: Cons_nth_drop_Suc)

lemma skip_drop: "skip p (p # is) xs = skip (p + 1) is xs"
  by simp

lemma unat_of_nat_bounded: "n \<le> size_type_max \<Longrightarrow> unat (of_nat n :: size_type) = n"
  by (simp add: size_type_max_def unat_of_nat)

section \<open>The difference applied to its source gives its target\<close>

lemma remove_loop_skip:
  assumes "ascending p is (length xs)" and "length kept + i = p" and "length xs - 1 \<le> size_type_max"
    and "case prev of None \<Rightarrow> True | Some q \<Rightarrow> unat q < p"
  shows "remove_loop i prev (map of_nat is) (kept @ drop p xs) = Inr (kept @ skip p is xs)"
  using assms
proof (induction "is" arbitrary: p i kept prev)
  case (Cons j rest)
  from Cons.prems have j: "p \<le> j" "j < length xs" and asc: "ascending (j + 1) rest (length xs)"
    by auto
  with Cons.prems(3) have u: "unat (of_nat j :: size_type) = j" by (intro unat_of_nat_bounded) simp
  from Cons.prems(4) j(1) u have prev: "case prev of None \<Rightarrow> True | Some q \<Rightarrow> q < of_nat j"
    by (auto simp: word_less_nat_alt split: option.splits)
  have e: "erase_at (j - i) (kept @ drop p xs) = (kept @ take (j - p) (drop p xs)) @ drop (j + 1) xs"
  proof -
    have "j - i = length kept + (j - p)" using Cons.prems(2) j(1) by simp
    moreover have "Suc (j - p) + p = j + 1" using j(1) by simp
    ultimately show ?thesis by (simp add: erase_at_def)
  qed
  have "remove_loop (i + 1) (Some (of_nat j)) (map of_nat rest)
      ((kept @ take (j - p) (drop p xs)) @ drop (j + 1) xs) =
      Inr ((kept @ take (j - p) (drop p xs)) @ skip (j + 1) rest xs)"
    by (rule Cons.IH [OF asc]) (use Cons.prems(2,3) j u in simp_all)
  moreover have "j - i < length kept + (length xs - p)" and "i \<le> j" using Cons.prems(2) j by linarith+
  ultimately show ?case using prev u e by simp
qed simp

lemma insert_loop_skip:
  assumes "ascending p is (length xs)" and "length xs - 1 \<le> size_type_max"
    and "case prev of None \<Rightarrow> True | Some q \<Rightarrow> unat q < p"
  shows "insert_loop prev (map (\<lambda>i. (of_nat i, xs ! i)) is) (take p xs @ skip p is xs) = Inr xs"
  using assms
proof (induction "is" arbitrary: p prev)
  case (Cons j rest)
  from Cons.prems have j: "p \<le> j" "j < length xs" and asc: "ascending (j + 1) rest (length xs)"
    by auto
  with Cons.prems(2) have u: "unat (of_nat j :: size_type) = j" by (intro unat_of_nat_bounded) simp
  from Cons.prems(3) j(1) u have prev: "case prev of None \<Rightarrow> True | Some q \<Rightarrow> q < of_nat j"
    by (auto simp: word_less_nat_alt split: option.splits)
  have t: "take p xs @ take (j - p) (drop p xs) = take j xs"
    using take_add [of p "j - p" xs] j(1) by simp
  have c: "take p xs @ skip p (j # rest) xs = take j xs @ skip (j + 1) rest xs"
    using t by simp
  have "insert_at j (xs ! j) (take j xs @ skip (j + 1) rest xs) = take (j + 1) xs @ skip (j + 1) rest xs"
    using j(2) by (simp add: insert_at_def take_Suc_conv_app_nth)
  moreover have "insert_loop (Some (of_nat j)) (map (\<lambda>i. (of_nat i, xs ! i)) rest)
      (take (j + 1) xs @ skip (j + 1) rest xs) = Inr xs"
    by (rule Cons.IH [OF asc]) (use Cons.prems(2) u in simp_all)
  ultimately show ?case
    unfolding c using prev u j by simp
qed simp

text \<open>What \<open>diff_loop\<close> adds to its result: ascending positions whose removal leaves equal lists.\<close>

definition aligned :: "'a list \<Rightarrow> 'a list \<Rightarrow> nat \<Rightarrow> nat \<Rightarrow> nat list \<Rightarrow> nat list \<Rightarrow> bool" where
  "aligned xs ys s t rs ts \<longleftrightarrow>
     ascending s rs (length xs) \<and> ascending t ts (length ys) \<and> skip s rs xs = skip t ts ys"

definition extended_by :: "nat list \<Rightarrow> nat list \<Rightarrow> 'a list \<Rightarrow> 'a diff_result \<Rightarrow> 'a diff_result" where
  "extended_by rs ts ys r =
     \<lparr>remove_indexes = remove_indexes r @ map of_nat rs,
      insert_indexes = insert_indexes r @ map (\<lambda>i. (of_nat i, ys ! i)) ts\<rparr>"

lemma extended_by_push:
  "extended_by rs ts ys (push_remove s r) = extended_by (s # rs) ts ys r"
  "extended_by rs ts ys (push_insert t (ys ! t) r) = extended_by rs (t # ts) ys r"
  by (simp_all add: extended_by_def push_remove_def push_insert_def)

lemma aligned_steps:
  "aligned xs ys (Suc s) (Suc t) rs ts \<Longrightarrow> s < length xs \<Longrightarrow> t < length ys \<Longrightarrow> xs ! s = ys ! t \<Longrightarrow>
     aligned xs ys s t rs ts"
  "aligned xs ys (Suc s) t rs ts \<Longrightarrow> s < length xs \<Longrightarrow> aligned xs ys s t (s # rs) ts"
  "aligned xs ys s (Suc t) rs ts \<Longrightarrow> t < length ys \<Longrightarrow> aligned xs ys s t rs (t # ts)"
  by (auto simp: aligned_def skip_keep ascending_weaken)

lemma aligned_end: "length xs \<le> s \<Longrightarrow> length ys \<le> t \<Longrightarrow> s \<le> length xs \<Longrightarrow> t \<le> length ys \<Longrightarrow>
   aligned xs ys s t [] []"
  by (simp add: aligned_def)

definition diff_ok :: "'a list \<Rightarrow> 'a list \<Rightarrow> nat \<Rightarrow> nat \<Rightarrow> 'a diff_result \<Rightarrow> 'a diff_result res \<Rightarrow> bool" where
  "diff_ok xs ys s t r m \<longleftrightarrow> (\<exists>rs ts. m = Inr (extended_by rs ts ys r) \<and> aligned xs ys s t rs ts)"

lemma diff_ok_equal:
  "diff_ok xs ys (s + 1) (t + 1) r m \<Longrightarrow> s < length xs \<Longrightarrow> t < length ys \<Longrightarrow> xs ! s = ys ! t \<Longrightarrow>
   diff_ok xs ys s t r m"
  unfolding diff_ok_def by (auto intro: aligned_steps)

lemma diff_ok_remove:
  "diff_ok xs ys (s + 1) t (push_remove s r) m \<Longrightarrow> s < length xs \<Longrightarrow> diff_ok xs ys s t r m"
  unfolding diff_ok_def extended_by_push by (auto intro: aligned_steps)

lemma diff_ok_insert:
  "diff_ok xs ys s (t + 1) (push_insert t (ys ! t) r) m \<Longrightarrow> t < length ys \<Longrightarrow> diff_ok xs ys s t r m"
  unfolding diff_ok_def extended_by_push by (auto intro: aligned_steps)

lemma diff_ok_end:
  "s = length xs \<Longrightarrow> t = length ys \<Longrightarrow> diff_ok xs ys s t r (Inr r)"
  unfolding diff_ok_def
  by (intro exI [of _ "[]"]) (simp add: extended_by_def aligned_def)

lemma diff_loop_ok:
  assumes "s \<le> length xs" and "t \<le> length ys"
    and "length xs - 1 \<le> size_type_max" and "length ys - 1 \<le> size_type_max"
  shows "diff_ok xs ys s t r (diff_loop xs ys s t r)"
  using assms
proof (induction xs ys s t r rule: diff_loop.induct)
  case (1 xs ys s t r)
  note len = "1.prems"
  have s: "s < length xs \<Longrightarrow> s \<le> size_type_max" and t: "t < length ys \<Longrightarrow> t \<le> size_type_max"
    using len by linarith+
  show ?case
  proof (cases "s < length xs \<and> t < length ys")
    case True
    then have st: "s < length xs" "t < length ys" by blast+
    then have b: "s \<le> size_type_max \<and> t \<le> size_type_max" using s t by blast
    note IH = "1.IH"(1-5) [OF True]
    have both: "diff_ok xs ys s t r m"
      if "diff_ok xs ys (s + 1) (t + 1) (push_insert t (ys ! t) (push_remove s r)) m" for m
      by (intro diff_ok_remove [OF diff_ok_insert [OF that]] st)
    let ?stop = "s = length xs - 1 \<and> t = length ys - 1"
    let ?nxt = "s + 1 < length xs \<and> t + 1 < length ys \<and> xs ! (s + 1) = ys ! (t + 1)"
    let ?ins = "t + 1 < length ys \<and> xs ! s = ys ! (t + 1)"
    consider "xs ! s = ys ! t" | "xs ! s \<noteq> ys ! t" ?stop | "xs ! s \<noteq> ys ! t" "\<not> ?stop" ?nxt
      | "xs ! s \<noteq> ys ! t" "\<not> ?stop" "\<not> ?nxt" ?ins | "xs ! s \<noteq> ys ! t" "\<not> ?stop" "\<not> ?nxt" "\<not> ?ins"
      by blast
    then show ?thesis
    proof cases
      case 1
      from diff_ok_equal [OF IH(1) [OF 1] st 1] st len 1 show ?thesis
        by (simp add: diff_loop.simps [of xs ys s t r])
    next
      case 2
      have "diff_ok xs ys s t r
          (diff_loop xs ys (s + 1) (t + 1) (push_insert t (ys ! t) (push_remove s r)))"
        by (rule both [OF IH(2) [OF 2]]) (use st len in simp_all)
      then show ?thesis
        unfolding diff_loop.simps [of xs ys s t r] if_P [OF True] if_not_P [OF 2(1)] if_P [OF 2(2)]
          ensure_true [OF b] .
    next
      case 3
      have "diff_ok xs ys s t r
          (diff_loop xs ys (s + 1) (t + 1) (push_insert t (ys ! t) (push_remove s r)))"
        by (rule both [OF IH(3) [OF 3]]) (use st len in simp_all)
      then show ?thesis
        unfolding diff_loop.simps [of xs ys s t r] if_P [OF True] if_not_P [OF 3(1)] if_not_P [OF 3(2)]
          if_P [OF 3(3)] ensure_true [OF b] .
    next
      case 4
      have "diff_ok xs ys s t r (diff_loop xs ys s (t + 1) (push_insert t (ys ! t) r))"
        by (rule diff_ok_insert [OF IH(4) [OF 4] st(2)]) (use st len in simp_all)
      then show ?thesis
        unfolding diff_loop.simps [of xs ys s t r] if_P [OF True] if_not_P [OF 4(1)] if_not_P [OF 4(2)]
          if_not_P [OF 4(3)] if_P [OF 4(4)] ensure_true [OF conjunct2 [OF b]] .
    next
      case 5
      have "diff_ok xs ys s t r (diff_loop xs ys (s + 1) t (push_remove s r))"
        by (rule diff_ok_remove [OF IH(5) [OF 5] st(1)]) (use st len in simp_all)
      then show ?thesis
        unfolding diff_loop.simps [of xs ys s t r] if_P [OF True] if_not_P [OF 5(1)] if_not_P [OF 5(2)]
          if_not_P [OF 5(3)] if_not_P [OF 5(4)] ensure_true [OF conjunct1 [OF b]] .
    qed
  next
    case False
    then consider "s < length xs" "\<not> t < length ys" | "\<not> s < length xs" "t < length ys"
      | "\<not> s < length xs" "\<not> t < length ys" by blast
    then show ?thesis
    proof cases
      case 1
      from "1.IH"(6) [OF False 1(1)] s [OF 1(1)] len 1 show ?thesis
        by (subst diff_loop.simps) (auto intro: diff_ok_remove)
    next
      case 2
      from "1.IH"(7) [OF False 2] t [OF 2(2)] len 2 show ?thesis
        by (subst diff_loop.simps) (auto intro: diff_ok_insert)
    next
      case 3
      with len show ?thesis by (subst diff_loop.simps) (auto intro: diff_ok_end)
    qed
  qed
qed

text \<open>
  The contract of the class, as an interface for the policies that are transmitted as differences:
  a difference can be taken of any two vectors that are not too long, and applying it to the first
  gives the second.
\<close>

locale differ =
  fixes diff_of :: "'a list \<Rightarrow> 'a list \<Rightarrow> 'd res"
    and apply_to :: "'a list \<Rightarrow> 'd \<Rightarrow> 'a list res"
    and max_size :: nat
  assumes diff_apply: "length xs \<le> max_size \<Longrightarrow> length ys \<le> max_size \<Longrightarrow>
      \<exists>d. diff_of xs ys = Inr d \<and> apply_to xs d = Inr ys"
begin

lemma diff_total: "length xs \<le> max_size \<Longrightarrow> length ys \<le> max_size \<Longrightarrow> \<exists>d. diff_of xs ys = Inr d"
  using diff_apply by blast

lemma apply_diff_of:
  "diff_of xs ys = Inr d \<Longrightarrow> length xs \<le> max_size \<Longrightarrow> length ys \<le> max_size \<Longrightarrow> apply_to xs d = Inr ys"
  using diff_apply [of xs ys] by auto

text \<open>The receiver of a difference cannot confuse two targets.\<close>

lemma diff_determines_target:
  assumes "diff_of xs ys = Inr d" and "diff_of xs zs = Inr d"
    and "length xs \<le> max_size" and "length ys \<le> max_size" and "length zs \<le> max_size"
  shows "ys = zs"
  using apply_diff_of [OF assms(1,3,4)] apply_diff_of [OF assms(2,3,5)] by simp

end

lemma ordered_diff_roundtrip:
  assumes "length xs \<le> 2 ^ 16" and "length ys \<le> 2 ^ 16"
  shows "\<exists>d. ordered_diff xs ys = Inr d \<and> ordered_apply_diff xs d = Inr ys"
proof -
  let ?r = "\<lparr>remove_indexes = [], insert_indexes = []\<rparr> :: 'a diff_result"
  have len: "length xs - 1 \<le> size_type_max" "length ys - 1 \<le> size_type_max"
    using assms by (simp_all add: size_type_max_def)
  from diff_loop_ok [of 0 xs 0 ys ?r] len obtain rs ts where
    d: "diff_loop xs ys 0 0 ?r = Inr (extended_by rs ts ys ?r)" and al: "aligned xs ys 0 0 rs ts"
    by (auto simp: diff_ok_def)
  have "ordered_apply_diff xs (extended_by rs ts ys ?r) = Inr ys"
    using remove_loop_skip [of 0 rs xs "[]" 0 None] insert_loop_skip [of 0 ts ys None] al len
    by (simp add: ordered_apply_diff_def extended_by_def aligned_def)
  moreover have "ordered_diff xs ys = Inr (extended_by rs ts ys ?r)"
    using len d by (simp add: ordered_diff_def)
  ultimately show ?thesis by blast
qed

lemma ordered_diff_inserts:
  assumes "ordered_diff xs ys = Inr d"
  shows "snd ` set (insert_indexes d) \<subseteq> set ys"
proof -
  let ?r = "\<lparr>remove_indexes = [], insert_indexes = []\<rparr> :: 'a diff_result"
  from assms have len: "length xs - 1 \<le> size_type_max" "length ys - 1 \<le> size_type_max" and dl: "diff_loop xs ys 0 0 ?r = Inr d"
    by (auto simp: ordered_diff_def ensure_Inr_iff)
  with diff_loop_ok [of 0 xs 0 ys ?r] obtain rs ts where "d = extended_by rs ts ys ?r" and "aligned xs ys 0 0 rs ts"
    by (auto simp: diff_ok_def)
  then show ?thesis by (auto simp: extended_by_def aligned_def dest: ascending_bounds)
qed

interpretation od: differ ordered_diff ordered_apply_diff "2 ^ 16"
  by unfold_locales (rule ordered_diff_roundtrip)

text \<open>
  C19: Any two vectors with at most 65536 elements have a difference, and \<open>apply_diff\<close> of that
  difference to the first vector returns exactly the second.
\<close>

theorem ordered_diff_correct:
  assumes "length xs \<le> 2 ^ 16" and "length ys \<le> 2 ^ 16"
  shows "\<exists>d. ordered_diff xs ys = Inr d \<and> ordered_apply_diff xs d = Inr ys"
  by (rule od.diff_apply [OF assms])

theorem ordered_diff_correct_witness:
  "\<exists>d. ordered_diff ''abfcd'' ''bfcdeh'' = Inr d \<and> ordered_apply_diff ''abfcd'' d = Inr ''bfcdeh''"
  using ordered_diff_correct [of "''abfcd''" "''bfcdeh''"] by simp




end
