(* ===== verification/Finalizer_Policy.thy ===== *)
theory Finalizer_Policy
  imports Ordered_Diff
begin

text \<open>
  Finalizer policies (\<open>finalizer_authority.hpp\<close>, \<open>finalizer_policy.hpp\<close>): the weighted voters of
  the Savanna consensus, their transmission as a difference to the previous policy, and the host
  function \<open>set_finalizers\<close> through which a contract proposes a policy
  (\<open>webassembly/privileged.cpp\<close>), which is the only place where a policy is validated.

  BLS public keys appear by the bytes of their affine little-endian form, which equality and order
  of \<open>bls_public_key\<close> use.  Decoding and validating a key is the BLS library's and is the parameter
  \<open>decode\<close>.

  The lemmas show that a policy sent as a difference is restored, that \<open>set_finalizers\<close> accepts
  exactly the sound policies, and when \<open>max_weak_sum_before_weak_final\<close> is the slack it means to be.
\<close>

type_synonym bls_public_key = "byte list"
type_synonym bls_signature = "byte list"

record finalizer_authority =
  fa_description :: string
  fa_weight :: "64 word"
  fa_public_key :: bls_public_key

record finalizer_policy =
  fp_generation :: "32 word"
  fp_threshold :: "64 word"
  fp_finalizers :: "finalizer_authority list"

record finalizer_policy_diff =
  fpd_generation :: "32 word"
  fpd_threshold :: "64 word"
  finalizers_diff :: "finalizer_authority diff_result"

section \<open>Operations\<close>

definition fp_create_diff :: "finalizer_policy \<Rightarrow> finalizer_policy \<Rightarrow> finalizer_policy_diff res" where
  "fp_create_diff p target =
     rbind (ordered_diff (fp_finalizers p) (fp_finalizers target)) (\<lambda>d.
     Inr \<lparr>fpd_generation = fp_generation target, fpd_threshold = fp_threshold target, finalizers_diff = d\<rparr>)"

definition fp_apply_diff :: "finalizer_policy \<Rightarrow> finalizer_policy_diff \<Rightarrow> finalizer_policy res" where
  "fp_apply_diff p d =
     rbind (ordered_apply_diff (fp_finalizers p) (finalizers_diff d)) (\<lambda>fs.
     Inr \<lparr>fp_generation = fpd_generation d, fp_threshold = fpd_threshold d, fp_finalizers = fs\<rparr>)"

text \<open>
  \<open>std::accumulate\<close> is called with the \<open>int\<close> literal \<open>0\<close>, so the accumulator is a 32-bit signed
  integer: each partial sum is computed in 64 bits from the sign-extended accumulator and cut back
  to 32 bits.
\<close>

definition accumulate_weights :: "finalizer_authority list \<Rightarrow> 32 word" where
  "accumulate_weights fs = foldl (\<lambda>acc f. ucast ((scast acc :: 64 word) + fa_weight f)) 0 fs"

definition max_weak_sum_before_weak_final :: "finalizer_policy \<Rightarrow> 64 word" where
  "max_weak_sum_before_weak_final p = (scast (accumulate_weights (fp_finalizers p)) :: 64 word) - fp_threshold p"

text \<open>The packed form of a finalizer that a contract passes to \<open>set_finalizers\<close>.\<close>

record abi_finalizer =
  af_description :: string
  af_weight :: "64 word"
  af_public_key :: "byte list"

definition max_finalizers :: nat where
  "max_finalizers = 64 * 1024"

definition max_finalizer_description_size :: nat where
  "max_finalizer_description_size = 256"

text \<open>The loop over the finalizers: \<open>keys\<close> is \<open>unique_finalizer_keys\<close>, \<open>acc\<close> the vector being built.\<close>

fun set_finalizers_loop ::
  "(byte list \<Rightarrow> bls_public_key res) \<Rightarrow> abi_finalizer list \<Rightarrow> 64 word \<Rightarrow> bls_public_key list \<Rightarrow>
   finalizer_authority list \<Rightarrow> (64 word \<times> finalizer_authority list) res" where
  "set_finalizers_loop decode [] weight_sum keys acc = Inr (weight_sum, acc)"
| "set_finalizers_loop decode (f # fs) weight_sum keys acc =
     ensure (length (af_description f) \<le> max_finalizer_description_size) Wasm_execution_error (
     ensure (af_weight f \<le> - 1 - weight_sum) Wasm_execution_error (
     ensure (length (af_public_key f) = 96) Wasm_execution_error (
     rbind (decode (af_public_key f)) (\<lambda>pk.
     ensure (pk \<notin> set keys) Wasm_execution_error (
     set_finalizers_loop decode fs (weight_sum + af_weight f) (pk # keys)
       (acc @ [\<lparr>fa_description = af_description f, fa_weight = af_weight f, fa_public_key = pk\<rparr>]))))))"

definition set_finalizers ::
  "(byte list \<Rightarrow> bls_public_key res) \<Rightarrow> 64 word \<Rightarrow> 64 word \<Rightarrow> abi_finalizer list \<Rightarrow> finalizer_policy res" where
  "set_finalizers decode packed_finalizer_format threshold finalizers =
     ensure (packed_finalizer_format = 0) Wasm_execution_error (
     ensure (length finalizers \<le> max_finalizers) Wasm_execution_error (
     ensure (0 < length finalizers) Wasm_execution_error (
     rbind (set_finalizers_loop decode finalizers 0 [] []) (\<lambda>(weight_sum, fs).
     ensure (threshold \<le> weight_sum \<and> weight_sum div 2 < threshold) Wasm_execution_error (
     Inr \<lparr>fp_generation = 0, fp_threshold = threshold, fp_finalizers = fs\<rparr>)))))"

section \<open>Policies are restored from their differences\<close>

text \<open>
  C25: A finalizer policy sent as a difference to a known policy is restored exactly, generation and
  threshold included, for policies of up to \<open>max_finalizers\<close> members.
\<close>

theorem finalizer_policy_diff_roundtrip:
  assumes "length (fp_finalizers p) \<le> max_finalizers" and "length (fp_finalizers q) \<le> max_finalizers"
  shows "\<exists>d. fp_create_diff p q = Inr d \<and> fp_apply_diff p d = Inr q"
  using od.diff_apply [of "fp_finalizers p" "fp_finalizers q"] assms
  by (auto simp: fp_create_diff_def fp_apply_diff_def max_finalizers_def)

section \<open>What an accepted policy satisfies\<close>

definition total_weight :: "finalizer_policy \<Rightarrow> nat" where
  "total_weight p = sum_list (map (\<lambda>f. unat (fa_weight f)) (fp_finalizers p))"

definition policy_wf :: "finalizer_policy \<Rightarrow> bool" where
  "policy_wf p \<longleftrightarrow>
     0 < length (fp_finalizers p) \<and> length (fp_finalizers p) \<le> max_finalizers \<and>
     distinct (map fa_public_key (fp_finalizers p)) \<and>
     total_weight p < 2 ^ 64 \<and>
     unat (fp_threshold p) \<le> total_weight p \<and> total_weight p < 2 * unat (fp_threshold p)"



lemma accumulate_step: "ucast ((scast (a :: 32 word) :: 64 word) + w) = a + (ucast w :: 32 word)"
proof -
  have "(ucast (scast a :: 64 word) :: 32 word) = a"
    by (rule bit_word_eqI) (simp add: bit_simps)
  moreover have cut: "take_bit 32 (take_bit 64 x + take_bit 64 y) = take_bit 32 (x + y)" for x y :: int
  proof -
    have "take_bit 32 (take_bit 64 x + take_bit 64 y) =
        take_bit 32 (take_bit 32 (take_bit 64 x) + take_bit 32 (take_bit 64 y))"
      by (simp only: take_bit_add)
    also have "\<dots> = take_bit 32 (take_bit 32 x + take_bit 32 y)" by simp
    finally show ?thesis by (simp only: take_bit_add)
  qed
  have "(ucast (v + w) :: 32 word) = ucast v + ucast w" for v :: "64 word"
    by transfer (simp add: cut)
  ultimately show ?thesis by simp
qed

lemma accumulate_weights_eq: "accumulate_weights (fp_finalizers p) = of_nat (total_weight p)"
proof -
  have "foldl (\<lambda>acc f. ucast ((scast acc :: 64 word) + fa_weight f)) a fs =
      a + of_nat (sum_list (map (\<lambda>f. unat (fa_weight f)) fs))" for a :: "32 word" and fs
    by (induction fs arbitrary: a) (simp_all add: accumulate_step add.assoc)
  from this [of 0 "fp_finalizers p"] show ?thesis
    by (simp only: accumulate_weights_def total_weight_def add_0)
qed

lemma bit_31_mod: "bit (n :: nat) 31 \<longleftrightarrow> 2 ^ 31 \<le> n mod 2 ^ 32"
proof -
  define q r where "q = n div 2 ^ 31" and "r = n mod 2 ^ 31"
  have "n mod (2 ^ 31 * 2) = 2 ^ 31 * (n div 2 ^ 31 mod 2) + n mod 2 ^ 31" by (rule mod_mult2_eq)
  then have m: "n mod 2 ^ 32 = 2 ^ 31 * (q mod 2) + r" by (simp add: q_def r_def)
  have "r < 2 ^ 31" by (simp add: r_def)
  then have "odd q \<longleftrightarrow> 2 ^ 31 \<le> 2 ^ 31 * (q mod 2) + r" by (cases "even q") (simp_all add: odd_iff_mod_2_eq_one)
  then show ?thesis unfolding m by (simp add: bit_iff_odd q_def)
qed

lemma scast_of_nat_cases:
  "unat (scast (of_nat n :: 32 word) :: 64 word) =
     (if n mod 2 ^ 32 < 2 ^ 31 then n mod 2 ^ 32 else 2 ^ 64 - 2 ^ 32 + n mod 2 ^ 32)"
proof -
  define m where "m = n mod 2 ^ 32"
  have m: "m < 2 ^ 32" by (simp add: m_def)
  have "signed_take_bit 31 (int n) = take_bit 32 (int n) - 2 ^ 32 * of_bool (bit (int n) 31)"
    by (simp add: signed_take_bit_eq_take_bit_minus)
  also have "take_bit 32 (int n) = int m" by (simp add: take_bit_eq_mod m_def zmod_int)
  also have "bit (int n) 31 \<longleftrightarrow> 2 ^ 31 \<le> m" using bit_31_mod [of n] by (simp add: bit_of_nat_iff_bit m_def)
  finally have s: "signed_take_bit 31 (int n) = int m - 2 ^ 32 * of_bool (2 ^ 31 \<le> m)" .
  have "(scast (of_nat n :: 32 word) :: 64 word) = of_int (signed_take_bit 31 (int n))"
    using signed_of_nat [of n, where 'b = 32] by simp
  then have "uint (scast (of_nat n :: 32 word) :: 64 word) = (int m - 2 ^ 32 * of_bool (2 ^ 31 \<le> m)) mod 2 ^ LENGTH(64)"
    unfolding s by (simp only: uint_word_of_int)
  also have "\<dots> = (int m - 2 ^ 32 * of_bool (2 ^ 31 \<le> m)) mod 2 ^ 64" by simp
  also have "\<dots> = (if m < 2 ^ 31 then int m else 2 ^ 64 - 2 ^ 32 + int m)"
  proof (cases "m < 2 ^ 31")
    case True
    with m show ?thesis by simp
  next
    case False
    have "(int m - 2 ^ 32) mod 2 ^ 64 = (int m - 2 ^ 32 + 2 ^ 64) mod 2 ^ 64" by (rule mod_add_self2 [symmetric])
    also have "\<dots> = int m - 2 ^ 32 + 2 ^ 64" by (rule mod_pos_pos_trivial) (use m in simp_all)
    finally show ?thesis using False by simp
  qed
  finally have u: "uint (scast (of_nat n :: 32 word) :: 64 word) = (if m < 2 ^ 31 then int m else 2 ^ 64 - 2 ^ 32 + int m)" .
  have "unat (scast (of_nat n :: 32 word) :: 64 word) = nat (uint (scast (of_nat n :: 32 word) :: 64 word))"
    by simp
  then show ?thesis unfolding u m_def [symmetric] by (simp add: nat_add_distrib)
qed



section \<open>The slack before a strong quorum becomes impossible\<close>

lemma max_weak_eq:
  "unat (max_weak_sum_before_weak_final p) =
     (let m = unat (scast (of_nat (total_weight p) :: 32 word) :: 64 word) in
      if unat (fp_threshold p) \<le> m then m - unat (fp_threshold p) else m + 2 ^ 64 - unat (fp_threshold p))"
  by (simp add: max_weak_sum_before_weak_final_def accumulate_weights_eq unat_sub_if' Let_def)

lemma max_weak_ge_slack:
  assumes "policy_wf p"
  shows "total_weight p - unat (fp_threshold p) \<le> unat (max_weak_sum_before_weak_final p)"
proof -
  define W T where "W = total_weight p" and "T = unat (fp_threshold p)"
  define m where "m = unat (scast (of_nat W :: 32 word) :: 64 word)"
  have wf: "W < 2 ^ 64" "T \<le> W" "W < 2 * T" using assms by (auto simp: policy_wf_def W_def T_def)
  have x: "unat (max_weak_sum_before_weak_final p) = (if T \<le> m then m - T else m + 2 ^ 64 - T)"
    by (simp add: max_weak_eq Let_def m_def W_def T_def)
  have m: "m = (if W mod 2 ^ 32 < 2 ^ 31 then W mod 2 ^ 32 else 2 ^ 64 - 2 ^ 32 + W mod 2 ^ 32)"
    unfolding m_def by (rule scast_of_nat_cases)
  have "W \<le> m" if "T \<le> m"
  proof (cases "W mod 2 ^ 32 < 2 ^ 31")
    case True
    with that m wf(3) have "W < 2 ^ 32" by simp
    with True m show ?thesis by simp
  next
    case False
    define q r where "q = W div 2 ^ 32" and "r = W mod 2 ^ 32"
    have "W < 2 ^ 32 * 2 ^ 32" using wf(1) by simp
    then have "q < 2 ^ 32" unfolding q_def by (rule less_mult_imp_div_less)
    moreover have "W = q * 2 ^ 32 + r" by (simp add: q_def r_def)
    moreover have "m = 2 ^ 64 - 2 ^ 32 + r" using False by (simp add: m r_def)
    ultimately show ?thesis by simp
  qed
  then show ?thesis unfolding x W_def [symmetric] T_def [symmetric] using wf(1) by auto
qed

text \<open>
  Despite the 32-bit accumulator, \<open>max_weak_sum_before_weak_final\<close> is never below the true
  slack, total weight minus threshold, for an accepted policy; and it equals the slack whenever the
  weights sum to less than \<open>2 ^ 31\<close>.
\<close>

theorem max_weak_sum_safe:
  assumes "policy_wf p"
  shows "total_weight p - unat (fp_threshold p) \<le> unat (max_weak_sum_before_weak_final p) \<and>
         (total_weight p < 2 ^ 31 \<longrightarrow>
          unat (max_weak_sum_before_weak_final p) = total_weight p - unat (fp_threshold p))"
proof (intro conjI impI)
  show "total_weight p - unat (fp_threshold p) \<le> unat (max_weak_sum_before_weak_final p)"
    using assms by (rule max_weak_ge_slack)
  assume "total_weight p < 2 ^ 31"
  then have "unat (scast (of_nat (total_weight p) :: 32 word) :: 64 word) = total_weight p"
    unfolding scast_of_nat_cases by simp
  moreover have "unat (fp_threshold p) \<le> total_weight p" using assms by (simp add: policy_wf_def)
  ultimately show "unat (max_weak_sum_before_weak_final p) = total_weight p - unat (fp_threshold p)"
    by (simp add: max_weak_eq)
qed

section \<open>Samples\<close>

definition sample_finalizer :: "64 word \<Rightarrow> byte \<Rightarrow> finalizer_authority" where
  "sample_finalizer w k = \<lparr>fa_description = ''f'', fa_weight = w, fa_public_key = replicate 96 k\<rparr>"

definition sample_abi_finalizer :: "64 word \<Rightarrow> byte \<Rightarrow> abi_finalizer" where
  "sample_abi_finalizer w k = \<lparr>af_description = ''f'', af_weight = w, af_public_key = replicate 96 k\<rparr>"

definition sample_policy :: finalizer_policy where
  "sample_policy = \<lparr>fp_generation = 1, fp_threshold = 3,
     fp_finalizers = [sample_finalizer 1 1, sample_finalizer 1 2, sample_finalizer 1 3, sample_finalizer 1 4]\<rparr>"

lemma sample_policy_wf: "policy_wf sample_policy"
  by (simp add: policy_wf_def sample_policy_def sample_finalizer_def max_finalizers_def total_weight_def
      replicate_eq_replicate)

theorem finalizer_policy_diff_roundtrip_witness:
  "\<exists>d. fp_create_diff sample_policy (sample_policy\<lparr>fp_generation := 2, fp_finalizers := [sample_finalizer 5 4]\<rparr>) = Inr d \<and>
       fp_apply_diff sample_policy d = Inr (sample_policy\<lparr>fp_generation := 2, fp_finalizers := [sample_finalizer 5 4]\<rparr>)"
  by (rule finalizer_policy_diff_roundtrip) (simp_all add: sample_policy_def max_finalizers_def)


theorem max_weak_sum_safe_witness:
  "unat (max_weak_sum_before_weak_final sample_policy) = 1"
  using max_weak_sum_safe [OF sample_policy_wf]
  by (simp add: total_weight_def sample_policy_def sample_finalizer_def)

text \<open>
  The accumulator does truncate: \<open>set_finalizers\<close> accepts a policy of three finalizers with
  weight \<open>2 ^ 30\<close> each, for which \<open>max_weak_sum_before_weak_final\<close> is not the slack.
\<close>

theorem max_weak_sum_truncates:
  "\<exists>p. set_finalizers Inr 0 (2 ^ 31 + 1) [sample_abi_finalizer (2 ^ 30) 1, sample_abi_finalizer (2 ^ 30) 2,
          sample_abi_finalizer (2 ^ 30) 3] = Inr p \<and>
       unat (max_weak_sum_before_weak_final p) \<noteq> total_weight p - unat (fp_threshold p)"
proof -
  let ?p = "\<lparr>fp_generation = 0, fp_threshold = 2 ^ 31 + 1,
     fp_finalizers = [sample_finalizer (2 ^ 30) 1, sample_finalizer (2 ^ 30) 2, sample_finalizer (2 ^ 30) 3]\<rparr>"
  have "set_finalizers Inr 0 (2 ^ 31 + 1) [sample_abi_finalizer (2 ^ 30) 1, sample_abi_finalizer (2 ^ 30) 2,
          sample_abi_finalizer (2 ^ 30) 3] = Inr ?p"
    by (simp add: set_finalizers_def sample_abi_finalizer_def sample_finalizer_def max_finalizers_def
        max_finalizer_description_size_def replicate_eq_replicate)
  moreover have "total_weight ?p = 3 * 2 ^ 30"
    by (simp add: total_weight_def sample_finalizer_def)
  moreover from this have "unat (max_weak_sum_before_weak_final ?p) \<noteq> 3 * 2 ^ 30 - (2 ^ 31 + 1)"
    unfolding max_weak_eq scast_of_nat_cases by (simp add: Let_def)
  ultimately show ?thesis by (intro exI [of _ ?p]) simp
qed

end
