(* ===== verification/Qc.thy ===== *)
theory Qc
  imports Finality_Core Bitset Finalizer_Policy
begin

text \<open>
  Quorum certificates and the aggregation of votes (\<open>qc.hpp\<close>, \<open>qc.cpp\<close>, \<open>vote_message.hpp\<close>).

  \<^item> \<open>qc_sig_t\<close>, \<open>qc_t\<close>: a certificate and the checks a node makes on a received one
    (\<open>verify_vote_format\<close>, \<open>verify_weights\<close>, \<open>verify_basic\<close>, \<open>verify_signatures\<close>).
  \<^item> \<open>aggregating_qc_sig_t\<close>: the votes collected for one policy, a state machine over
    \<open>unrestricted\<close>, \<open>restricted\<close>, \<open>weak_achieved\<close>, \<open>weak_final\<close> and \<open>strong\<close>.
  \<^item> \<open>aggregating_qc_t\<close>: the votes for the active and the pending policy of a block.

  The BLS operations are those of the \<open>bls12_381\<close> library; they are the record \<open>bls_api\<close> that the
  definitions take as an argument.  The methods hold a mutex from entry to exit; each is one atomic
  step of the model.
\<close>

section \<open>Data\<close>

record bls_api =
  api_verify :: "bls_public_key \<Rightarrow> byte list \<Rightarrow> bls_signature \<Rightarrow> bool"
  api_aggregate :: "bls_signature \<Rightarrow> bls_signature \<Rightarrow> bls_signature"
  api_zero :: bls_signature
  api_aggregate_public_keys :: "bls_public_key list \<Rightarrow> bls_public_key"
  api_aggregate_verify :: "bls_public_key list \<Rightarrow> byte list list \<Rightarrow> bls_signature \<Rightarrow> bool"

definition weak_bls_sig_postfix :: "byte list" where
  "weak_bls_sig_postfix = [0x57, 0x45, 0x41, 0x4b]"

definition create_weak_digest :: "digest_type \<Rightarrow> byte list" where
  "create_weak_digest digest = sha256_data digest @ weak_bls_sig_postfix"

record finalizer_policies_t =
  pol_finality_digest :: digest_type
  active_finalizer_policy :: finalizer_policy
  pending_finalizer_policy :: "finalizer_policy option"

datatype vote_result_t = Success | Duplicate | Unknown_public_key | Invalid_signature | Unknown_block | Max_exceeded

datatype vote_status_t = Voted | Not_voted | Irrelevant_finalizer

record vote_message =
  vm_block_id :: block_id_type
  vm_strong :: bool
  vm_finalizer_key :: bls_public_key
  vm_sig :: bls_signature

record aggregate_vote_result_t =
  avr_result :: vote_result_t
  avr_active_authority :: "finalizer_authority option"
  avr_pending_authority :: "finalizer_authority option"

record qc_sig_t =
  strong_votes :: "bitset option"
  weak_votes :: "bitset option"
  qs_sig :: bls_signature

record qc_t =
  qc_block_num :: block_num_type
  active_policy_sig :: qc_sig_t
  pending_policy_sig :: "qc_sig_t option"

definition sig_is_weak :: "qc_sig_t \<Rightarrow> bool" where
  "sig_is_weak s \<longleftrightarrow> weak_votes s \<noteq> None"

definition sig_is_strong :: "qc_sig_t \<Rightarrow> bool" where
  "sig_is_strong s \<longleftrightarrow> weak_votes s = None"

definition qc_is_strong :: "qc_t \<Rightarrow> bool" where
  "qc_is_strong qc \<longleftrightarrow> sig_is_strong (active_policy_sig qc) \<and>
     (case pending_policy_sig qc of None \<Rightarrow> True | Some s \<Rightarrow> sig_is_strong s)"

definition qc_is_weak :: "qc_t \<Rightarrow> bool" where
  "qc_is_weak qc \<longleftrightarrow> \<not> qc_is_strong qc"

definition to_qc_claim :: "qc_t \<Rightarrow> qc_claim_t" where
  "to_qc_claim qc = Qc_claim (qc_block_num qc) (qc_is_strong qc)"

section \<open>Verification of a received certificate\<close>

text \<open>\<open>votes && (*votes)[i]\<close>.\<close>

definition opt_test :: "bitset option \<Rightarrow> nat \<Rightarrow> bool res" where
  "opt_test votes i = (case votes of None \<Rightarrow> Inr False | Some b \<Rightarrow> bs_test b i)"

definition vote_same_at :: "qc_sig_t \<Rightarrow> qc_sig_t \<Rightarrow> nat \<Rightarrow> nat \<Rightarrow> bool res" where
  "vote_same_at me other my_vote_index other_vote_index =
     ensure (case strong_votes me of None \<Rightarrow> True | Some b \<Rightarrow> my_vote_index < bs_size b) Assert_failed (
     ensure (case weak_votes me of None \<Rightarrow> True | Some b \<Rightarrow> my_vote_index < bs_size b) Assert_failed (
     rbind (opt_test (strong_votes me) my_vote_index) (\<lambda>ms.
     rbind (opt_test (strong_votes other) other_vote_index) (\<lambda>os.
     rbind (opt_test (weak_votes me) my_vote_index) (\<lambda>mw.
     rbind (opt_test (weak_votes other) other_vote_index) (\<lambda>ow.
     Inr (ms = os \<and> mw = ow)))))))"

text \<open>The position of a key in a policy: \<open>std::find_if\<close>, or the inner loop with its \<open>break\<close>.\<close>

fun find_key :: "bls_public_key \<Rightarrow> finalizer_authority list \<Rightarrow> nat option" where
  "find_key k [] = None"
| "find_key k (f # fs) = (if fa_public_key f = k then Some 0 else map_option Suc (find_key k fs))"

definition verify_dual_finalizers_votes :: "finalizer_policy \<Rightarrow> finalizer_policy \<Rightarrow> qc_sig_t \<Rightarrow> qc_sig_t \<Rightarrow> unit res" where
  "verify_dual_finalizers_votes active pending active_sig pending_sig =
     each (\<lambda>active_vote_index.
       case find_key (fa_public_key (fp_finalizers active ! active_vote_index)) (fp_finalizers pending) of
         None \<Rightarrow> Inr ()
       | Some pending_vote_index \<Rightarrow>
           rbind (vote_same_at active_sig pending_sig active_vote_index pending_vote_index) (\<lambda>same.
           ensure same Invalid_qc (Inr ())))
     [0 ..< length (fp_finalizers active)]"

definition verify_vote_format :: "qc_sig_t \<Rightarrow> finalizer_policy \<Rightarrow> unit res" where
  "verify_vote_format s fin_policy =
     (let num_finalizers = length (fp_finalizers fin_policy) in
      ensure (strong_votes s \<noteq> None \<or> weak_votes s \<noteq> None) Invalid_qc (
      ensure (case strong_votes s of None \<Rightarrow> True | Some b \<Rightarrow> num_finalizers = bs_size b) Invalid_qc (
      ensure (case weak_votes s of None \<Rightarrow> True | Some b \<Rightarrow> num_finalizers = bs_size b) Invalid_qc (
      case (strong_votes s, weak_votes s) of
        (Some sv, Some wv) \<Rightarrow>
          each (\<lambda>i. rbind (bs_test sv i) (\<lambda>a. rbind (if a then bs_test wv i else Inr False) (\<lambda>b.
            ensure (\<not> b) Invalid_qc (Inr ())))) [0 ..< bs_size sv]
      | _ \<Rightarrow> Inr ()))))"

text \<open>The lambda \<open>weights\<close>: a 64-bit sum.\<close>

definition voted_weights :: "finalizer_authority list \<Rightarrow> bitset \<Rightarrow> 64 word res" where
  "voted_weights finalizers votes =
     fold_res (\<lambda>i sum. rbind (bs_test votes i) (\<lambda>v.
       Inr (if v then sum + fa_weight (finalizers ! i) else sum))) [0 ..< length finalizers] 0"

definition verify_weights :: "qc_sig_t \<Rightarrow> finalizer_policy \<Rightarrow> unit res" where
  "verify_weights s fin_policy =
     rbind (case strong_votes s of None \<Rightarrow> Inr 0 | Some b \<Rightarrow> voted_weights (fp_finalizers fin_policy) b) (\<lambda>strong_weights.
     rbind (case weak_votes s of None \<Rightarrow> Inr 0 | Some b \<Rightarrow> voted_weights (fp_finalizers fin_policy) b) (\<lambda>weak_weights.
     if sig_is_strong s
     then ensure (fp_threshold fin_policy \<le> strong_weights) Invalid_qc (Inr ())
     else ensure (fp_threshold fin_policy \<le> strong_weights + weak_weights) Invalid_qc (Inr ())))"

definition aggregate_pubkeys :: "bls_api \<Rightarrow> finalizer_authority list \<Rightarrow> bitset \<Rightarrow> bls_public_key res" where
  "aggregate_pubkeys bls finalizers votes =
     rbind (fold_res (\<lambda>i acc. rbind (bs_test votes i) (\<lambda>v.
         Inr (if v then acc @ [fa_public_key (finalizers ! i)] else acc)))
       [0 ..< min (length finalizers) (bs_size votes)] [])
     (\<lambda>keys. Inr (api_aggregate_public_keys bls keys))"

definition sig_verify_signatures ::
  "bls_api \<Rightarrow> qc_sig_t \<Rightarrow> finalizer_policy \<Rightarrow> digest_type \<Rightarrow> byte list \<Rightarrow> unit res" where
  "sig_verify_signatures bls s fin_policy strong_digest weak_digest =
     rbind (case strong_votes s of None \<Rightarrow> Inr []
       | Some b \<Rightarrow> rbind (aggregate_pubkeys bls (fp_finalizers fin_policy) b) (\<lambda>k. Inr [(k, sha256_data strong_digest)])) (\<lambda>st.
     rbind (case weak_votes s of None \<Rightarrow> Inr []
       | Some b \<Rightarrow> rbind (aggregate_pubkeys bls (fp_finalizers fin_policy) b) (\<lambda>k. Inr [(k, weak_digest)])) (\<lambda>wk.
     ensure (api_aggregate_verify bls (map fst (st @ wk)) (map snd (st @ wk)) (qs_sig s)) Invalid_qc_signature (Inr ())))"

definition qc_verify_signatures :: "bls_api \<Rightarrow> qc_t \<Rightarrow> finalizer_policies_t \<Rightarrow> unit res" where
  "qc_verify_signatures bls qc policies =
     (let strong_digest = pol_finality_digest policies; weak_digest = create_weak_digest strong_digest in
      rbind (sig_verify_signatures bls (active_policy_sig qc) (active_finalizer_policy policies) strong_digest weak_digest) (\<lambda>_.
      case pending_policy_sig qc of
        None \<Rightarrow> Inr ()
      | Some ps \<Rightarrow>
        (case pending_finalizer_policy policies of
           None \<Rightarrow> Inl Invalid_qc
         | Some pp \<Rightarrow> sig_verify_signatures bls ps pp strong_digest weak_digest)))"

definition verify_basic :: "qc_t \<Rightarrow> finalizer_policies_t \<Rightarrow> unit res" where
  "verify_basic qc policies =
     rbind (verify_vote_format (active_policy_sig qc) (active_finalizer_policy policies)) (\<lambda>_.
     rbind (verify_weights (active_policy_sig qc) (active_finalizer_policy policies)) (\<lambda>_.
     case pending_policy_sig qc of
       Some ps \<Rightarrow>
         (case pending_finalizer_policy policies of
            None \<Rightarrow> Inl Invalid_qc
          | Some pp \<Rightarrow>
              rbind (verify_dual_finalizers_votes (active_finalizer_policy policies) pp (active_policy_sig qc) ps) (\<lambda>_.
              rbind (verify_vote_format ps pp) (\<lambda>_.
              verify_weights ps pp)))
     | None \<Rightarrow> ensure (pending_finalizer_policy policies = None) Invalid_qc (Inr ())))"

section \<open>Aggregation for one policy\<close>

datatype agg_state = Unrestricted | Restricted | Weak_achieved | Weak_final | Strong

record votes_t =
  v_bitset :: bitset
  v_sig :: bls_signature
  v_processed :: "bool list"

definition votes_make :: "bls_api \<Rightarrow> nat \<Rightarrow> votes_t res" where
  "votes_make bls num_finalizers =
     rbind (bs_make num_finalizers) (\<lambda>b.
     Inr \<lparr>v_bitset = b, v_sig = api_zero bls, v_processed = replicate num_finalizers False\<rparr>)"

definition votes_reflector_init :: "votes_t \<Rightarrow> votes_t res" where
  "votes_reflector_init v =
     rbind (fold_res (\<lambda>i p. rbind (bs_test (v_bitset v) i) (\<lambda>t. Inr (if t then p[i := True] else p)))
       [0 ..< bs_size (v_bitset v)] (replicate (bs_size (v_bitset v)) False)) (\<lambda>p.
     Inr (v\<lparr>v_processed := p\<rparr>))"

definition votes_has_voted :: "votes_t \<Rightarrow> nat \<Rightarrow> bool res" where
  "votes_has_voted v index = ensure (index < length (v_processed v)) Assert_failed (Inr (v_processed v ! index))"

definition votes_add_vote :: "bls_api \<Rightarrow> votes_t \<Rightarrow> nat \<Rightarrow> bls_signature \<Rightarrow> votes_t res" where
  "votes_add_vote bls v index signature =
     ensure (index < length (v_processed v)) Assert_failed (
     rbind (bs_set index (v_bitset v)) (\<lambda>b.
     Inr \<lparr>v_bitset = b, v_sig = api_aggregate bls (v_sig v) signature,
          v_processed = (v_processed v)[index := True]\<rparr>))"

record aggregating_qc_sig_t =
  received_qc_sig :: "qc_sig_t option"
  quorum :: "64 word"
  max_weak_sum :: "64 word"
  aggregating_state :: agg_state
  strong_sum :: "64 word"
  weak_sum :: "64 word"
  agg_weak_votes :: votes_t
  agg_strong_votes :: votes_t

definition agg_make :: "bls_api \<Rightarrow> nat \<Rightarrow> 64 word \<Rightarrow> 64 word \<Rightarrow> aggregating_qc_sig_t res" where
  "agg_make bls num_finalizers q m =
     rbind (votes_make bls num_finalizers) (\<lambda>wv.
     rbind (votes_make bls num_finalizers) (\<lambda>sv.
     Inr \<lparr>received_qc_sig = None, quorum = q, max_weak_sum = m, aggregating_state = Unrestricted,
          strong_sum = 0, weak_sum = 0, agg_weak_votes = wv, agg_strong_votes = sv\<rparr>))"

definition agg_of_policy :: "bls_api \<Rightarrow> finalizer_policy \<Rightarrow> aggregating_qc_sig_t res" where
  "agg_of_policy bls p =
     agg_make bls (length (fp_finalizers p)) (fp_threshold p) (max_weak_sum_before_weak_final p)"

definition is_quorum_met_state :: "agg_state \<Rightarrow> bool" where
  "is_quorum_met_state s \<longleftrightarrow> s = Strong \<or> s = Weak_achieved \<or> s = Weak_final"

definition agg_is_quorum_met :: "aggregating_qc_sig_t \<Rightarrow> bool" where
  "agg_is_quorum_met a = is_quorum_met_state (aggregating_state a)"

definition agg_has_voted :: "aggregating_qc_sig_t \<Rightarrow> nat \<Rightarrow> bool res" where
  "agg_has_voted a index =
     rbind (votes_has_voted (agg_strong_votes a) index) (\<lambda>s.
     if s then Inr True else votes_has_voted (agg_weak_votes a) index)"

definition check_duplicate :: "aggregating_qc_sig_t \<Rightarrow> nat \<Rightarrow> vote_result_t res" where
  "check_duplicate a index =
     rbind (bs_test (v_bitset (agg_strong_votes a)) index) (\<lambda>s.
     rbind (if s then Inr True else bs_test (v_bitset (agg_weak_votes a)) index) (\<lambda>d.
     Inr (if d then Duplicate else Success)))"

text \<open>The \<open>switch\<close> of \<open>add_strong_vote\<close>, after the sums were updated.\<close>

definition strong_transition :: "aggregating_qc_sig_t \<Rightarrow> aggregating_qc_sig_t res" where
  "strong_transition a =
     (case aggregating_state a of
        Weak_achieved \<Rightarrow> Inr (if quorum a \<le> strong_sum a then a\<lparr>aggregating_state := Strong\<rparr> else a)
      | Weak_final \<Rightarrow> Inr a
      | Strong \<Rightarrow> Inr a
      | _ \<Rightarrow>
        if quorum a \<le> strong_sum a then
          ensure (aggregating_state a \<noteq> Restricted) Assert_failed (Inr (a\<lparr>aggregating_state := Strong\<rparr>))
        else if quorum a \<le> weak_sum a + strong_sum a then
          Inr (a\<lparr>aggregating_state := (if aggregating_state a = Restricted then Weak_final else Weak_achieved)\<rparr>)
        else Inr a)"

definition add_strong_vote :: "bls_api \<Rightarrow> aggregating_qc_sig_t \<Rightarrow> nat \<Rightarrow> bls_signature \<Rightarrow> 64 word \<Rightarrow>
    (vote_result_t \<times> aggregating_qc_sig_t) res" where
  "add_strong_vote bls a index sg weight =
     rbind (votes_add_vote bls (agg_strong_votes a) index sg) (\<lambda>sv.
     rbind (strong_transition (a\<lparr>agg_strong_votes := sv, strong_sum := strong_sum a + weight\<rparr>)) (\<lambda>a'.
     Inr (Success, a')))"

text \<open>The \<open>switch\<close> of \<open>add_weak_vote\<close>, after the sums were updated.\<close>

definition weak_transition :: "aggregating_qc_sig_t \<Rightarrow> aggregating_qc_sig_t" where
  "weak_transition a =
     (case aggregating_state a of
        Weak_achieved \<Rightarrow> if max_weak_sum a \<le> weak_sum a then a\<lparr>aggregating_state := Weak_final\<rparr> else a
      | Weak_final \<Rightarrow> a
      | Strong \<Rightarrow> a
      | _ \<Rightarrow>
        let a1 = (if quorum a \<le> weak_sum a + strong_sum a then a\<lparr>aggregating_state := Weak_achieved\<rparr> else a) in
        if max_weak_sum a1 < weak_sum a1 then
          if aggregating_state a1 = Weak_achieved then a1\<lparr>aggregating_state := Weak_final\<rparr>
          else if aggregating_state a1 = Unrestricted then a1\<lparr>aggregating_state := Restricted\<rparr>
          else a1
        else a1)"

definition add_weak_vote :: "bls_api \<Rightarrow> aggregating_qc_sig_t \<Rightarrow> nat \<Rightarrow> bls_signature \<Rightarrow> 64 word \<Rightarrow>
    (vote_result_t \<times> aggregating_qc_sig_t) res" where
  "add_weak_vote bls a index sg weight =
     rbind (votes_add_vote bls (agg_weak_votes a) index sg) (\<lambda>wv.
     Inr (Success, weak_transition (a\<lparr>agg_weak_votes := wv, weak_sum := weak_sum a + weight\<rparr>)))"

definition agg_add_vote :: "bls_api \<Rightarrow> aggregating_qc_sig_t \<Rightarrow> bool \<Rightarrow> nat \<Rightarrow> bls_signature \<Rightarrow> 64 word \<Rightarrow>
    (vote_result_t \<times> aggregating_qc_sig_t) res" where
  "agg_add_vote bls a strong index sg weight =
     rbind (check_duplicate a index) (\<lambda>s.
     if s = Success then
       if strong then add_strong_vote bls a index sg weight else add_weak_vote bls a index sg weight
     else Inr (s, a))"

definition extract_qc_sig_from_aggregating :: "bls_api \<Rightarrow> aggregating_qc_sig_t \<Rightarrow> qc_sig_t res" where
  "extract_qc_sig_from_aggregating bls a =
     (if aggregating_state a = Strong then
        Inr \<lparr>strong_votes = Some (v_bitset (agg_strong_votes a)), weak_votes = None, qs_sig = v_sig (agg_strong_votes a)\<rparr>
      else if agg_is_quorum_met a then
        Inr \<lparr>strong_votes = Some (v_bitset (agg_strong_votes a)), weak_votes = Some (v_bitset (agg_weak_votes a)),
             qs_sig = api_aggregate bls (v_sig (agg_strong_votes a)) (v_sig (agg_weak_votes a))\<rparr>
      else Inl Assert_failed)"

definition agg_get_best_qc :: "bls_api \<Rightarrow> aggregating_qc_sig_t \<Rightarrow> qc_sig_t option res" where
  "agg_get_best_qc bls a =
     (if \<not> agg_is_quorum_met a then Inr (received_qc_sig a)
      else rbind (extract_qc_sig_from_aggregating bls a) (\<lambda>from_agg.
        case received_qc_sig a of
          None \<Rightarrow> Inr (Some from_agg)
        | Some r \<Rightarrow> if sig_is_strong r \<or> sig_is_weak from_agg then Inr (Some r) else Inr (Some from_agg)))"

definition set_received_qc_sig :: "aggregating_qc_sig_t \<Rightarrow> qc_sig_t \<Rightarrow> bool \<times> aggregating_qc_sig_t" where
  "set_received_qc_sig a qc =
     (case received_qc_sig a of
        None \<Rightarrow> (True, a\<lparr>received_qc_sig := Some qc\<rparr>)
      | Some r \<Rightarrow> if sig_is_weak r \<and> sig_is_strong qc then (True, a\<lparr>received_qc_sig := Some qc\<rparr>) else (False, a))"

definition received_qc_sig_is_strong :: "aggregating_qc_sig_t \<Rightarrow> bool" where
  "received_qc_sig_is_strong a \<longleftrightarrow> (case received_qc_sig a of None \<Rightarrow> False | Some r \<Rightarrow> sig_is_strong r)"

section \<open>Aggregation for a block\<close>

record aggregating_qc_t =
  aq_active_finalizer_policy :: finalizer_policy
  aq_pending_finalizer_policy :: "finalizer_policy option"
  aq_active_policy_sig :: aggregating_qc_sig_t
  aq_pending_policy_sig :: "aggregating_qc_sig_t option"

definition aq_make :: "bls_api \<Rightarrow> finalizer_policy \<Rightarrow> finalizer_policy option \<Rightarrow> aggregating_qc_t res" where
  "aq_make bls active pending =
     rbind (agg_of_policy bls active) (\<lambda>a.
     rbind (case pending of None \<Rightarrow> Inr None | Some p \<Rightarrow> rbind (agg_of_policy bls p) (\<lambda>x. Inr (Some x))) (\<lambda>ps.
     Inr \<lparr>aq_active_finalizer_policy = active, aq_pending_finalizer_policy = pending,
          aq_active_policy_sig = a, aq_pending_policy_sig = ps\<rparr>))"

definition aq_get_best_qc :: "bls_api \<Rightarrow> aggregating_qc_t \<Rightarrow> block_num_type \<Rightarrow> qc_t option res" where
  "aq_get_best_qc bls q block_num =
     rbind (agg_get_best_qc bls (aq_active_policy_sig q)) (\<lambda>active_best.
     case active_best of
       None \<Rightarrow> Inr None
     | Some ab \<Rightarrow>
       (case aq_pending_policy_sig q of
          Some ps \<Rightarrow> rbind (agg_get_best_qc bls ps) (\<lambda>pending_best.
            Inr (case pending_best of
                   Some pb \<Rightarrow> Some \<lparr>qc_block_num = block_num, active_policy_sig = ab, pending_policy_sig = Some pb\<rparr>
                 | None \<Rightarrow> None))
        | None \<Rightarrow> Inr (Some \<lparr>qc_block_num = block_num, active_policy_sig = ab, pending_policy_sig = None\<rparr>)))"

definition set_received_qc :: "aggregating_qc_t \<Rightarrow> qc_t \<Rightarrow> (bool \<times> aggregating_qc_t) res" where
  "set_received_qc q qc =
     ensure (aq_pending_policy_sig q = None \<or> pending_policy_sig qc \<noteq> None) Invalid_qc (
     let (active_better, a) = set_received_qc_sig (aq_active_policy_sig q) (active_policy_sig qc);
         q1 = q\<lparr>aq_active_policy_sig := a\<rparr> in
     case (aq_pending_policy_sig q, pending_policy_sig qc) of
       (Some ps, Some pqc) \<Rightarrow>
         let (pending_better, p) = set_received_qc_sig ps pqc in
         Inr (active_better \<or> pending_better, q1\<lparr>aq_pending_policy_sig := Some p\<rparr>)
     | _ \<Rightarrow> Inr (active_better, q1))"

definition received_qc_is_strong :: "aggregating_qc_t \<Rightarrow> bool" where
  "received_qc_is_strong q \<longleftrightarrow> received_qc_sig_is_strong (aq_active_policy_sig q) \<and>
     (case aq_pending_policy_sig q of None \<Rightarrow> True | Some p \<Rightarrow> received_qc_sig_is_strong p)"

text \<open>
  The lambda \<open>add_vote\<close> of \<open>aggregate_vote\<close>; \<open>verified\<close> is the captured \<open>verified_sig\<close>.  The
  authority is reported whenever the key is in the policy.
\<close>

definition policy_add_vote :: "bls_api \<Rightarrow> vote_message \<Rightarrow> byte list \<Rightarrow> bool \<Rightarrow> finalizer_policy \<Rightarrow> aggregating_qc_sig_t \<Rightarrow>
    (vote_result_t \<times> finalizer_authority option \<times> bool \<times> aggregating_qc_sig_t) res" where
  "policy_add_vote bls vote finalizer_digest verified policy a =
     (case find_key (vm_finalizer_key vote) (fp_finalizers policy) of
        None \<Rightarrow> Inr (Unknown_public_key, None, verified, a)
      | Some index \<Rightarrow>
        let auth = Some (fp_finalizers policy ! index) in
        rbind (agg_has_voted a index) (\<lambda>dup.
        if dup then Inr (Duplicate, auth, verified, a)
        else if \<not> verified \<and> \<not> api_verify bls (vm_finalizer_key vote) finalizer_digest (vm_sig vote)
        then Inr (Invalid_signature, auth, verified, a)
        else rbind (agg_add_vote bls a (vm_strong vote) index (vm_sig vote) (fa_weight (fp_finalizers policy ! index))) (\<lambda>(s, a').
          Inr (s, auth, True, a'))))"

definition aggregate_vote :: "bls_api \<Rightarrow> aggregating_qc_t \<Rightarrow> vote_message \<Rightarrow> byte list \<Rightarrow>
    (aggregate_vote_result_t \<times> aggregating_qc_t) res" where
  "aggregate_vote bls q vote finalizer_digest =
     rbind (policy_add_vote bls vote finalizer_digest False (aq_active_finalizer_policy q) (aq_active_policy_sig q))
       (\<lambda>(r, auth, verified, a).
     let q1 = q\<lparr>aq_active_policy_sig := a\<rparr> in
     if r \<noteq> Success \<and> r \<noteq> Unknown_public_key
     then Inr (\<lparr>avr_result = r, avr_active_authority = auth, avr_pending_authority = None\<rparr>, q1)
     else case aq_pending_finalizer_policy q of
       None \<Rightarrow> Inr (\<lparr>avr_result = r, avr_active_authority = auth, avr_pending_authority = None\<rparr>, q1)
     | Some pp \<Rightarrow>
       (case aq_pending_policy_sig q of
          None \<Rightarrow> Inl Assert_failed
        | Some ps \<Rightarrow>
          rbind (policy_add_vote bls vote finalizer_digest verified pp ps) (\<lambda>(pr, pauth, _, p).
          Inr (\<lparr>avr_result = (if pr \<noteq> Unknown_public_key then pr else r),
                avr_active_authority = auth, avr_pending_authority = pauth\<rparr>,
               q1\<lparr>aq_pending_policy_sig := Some p\<rparr>))))"

definition finalizer_has_voted :: "finalizer_policy \<Rightarrow> aggregating_qc_sig_t \<Rightarrow> bls_public_key \<Rightarrow> vote_status_t res" where
  "finalizer_has_voted policy a key =
     (case find_key key (fp_finalizers policy) of
        Some index \<Rightarrow> rbind (agg_has_voted a index) (\<lambda>v. Inr (if v then Voted else Not_voted))
      | None \<Rightarrow> Inr Irrelevant_finalizer)"

definition aq_has_voted :: "aggregating_qc_t \<Rightarrow> bls_public_key \<Rightarrow> vote_status_t res" where
  "aq_has_voted q key =
     rbind (finalizer_has_voted (aq_active_finalizer_policy q) (aq_active_policy_sig q) key) (\<lambda>active_status.
     case aq_pending_finalizer_policy q of
       None \<Rightarrow> Inr active_status
     | Some pp \<Rightarrow>
       if active_status = Not_voted then Inr active_status
       else (case aq_pending_policy_sig q of
         None \<Rightarrow> Inl Invalid_qc
       | Some ps \<Rightarrow>
         rbind (finalizer_has_voted pp ps key) (\<lambda>pending_status.
         Inr (if pending_status = Irrelevant_finalizer then active_status else pending_status))))"

definition aq_is_quorum_met :: "aggregating_qc_t \<Rightarrow> bool" where
  "aq_is_quorum_met q \<longleftrightarrow> agg_is_quorum_met (aq_active_policy_sig q) \<and>
     (case aq_pending_policy_sig q of None \<Rightarrow> True | Some p \<Rightarrow> agg_is_quorum_met p)"

section \<open>Vote metrics\<close>

record fin_auth =
  fau_fin_auth :: finalizer_authority
  fau_generation :: "32 word"

text \<open>\<open>std::set\<close> with \<open>fin_auth_less\<close>: one element per public key, and \<open>insert\<close> keeps an element already there.\<close>

type_synonym fin_auth_set_t = "bls_public_key \<rightharpoonup> fin_auth"

definition fin_auth_insert :: "fin_auth \<Rightarrow> fin_auth_set_t \<Rightarrow> fin_auth_set_t" where
  "fin_auth_insert f s =
     (let k = fa_public_key (fau_fin_auth f) in if s k = None then s(k \<mapsto> f) else s)"

record qc_vote_metrics_t =
  met_strong_votes :: fin_auth_set_t
  met_weak_votes :: fin_auth_set_t
  met_missing_votes :: fin_auth_set_t
  met_voted_for_block_timestamp :: block_timestamp_type
  met_voted_for_block_id :: block_id_type

definition policy_fin_auth :: "finalizer_policy \<Rightarrow> nat \<Rightarrow> fin_auth" where
  "policy_fin_auth p i = \<lparr>fau_fin_auth = fp_finalizers p ! i, fau_generation = fp_generation p\<rparr>"

definition metrics_add_votes :: "finalizer_policy \<Rightarrow> bitset \<Rightarrow> fin_auth_set_t \<Rightarrow> (fin_auth_set_t \<times> nat) res" where
  "metrics_add_votes p votes results =
     ensure (bs_size votes = length (fp_finalizers p)) Assert_failed (
     fold_res (\<lambda>i (r, added). rbind (bs_test votes i) (\<lambda>t.
         Inr (if t then (fin_auth_insert (policy_fin_auth p i) r, added + 1) else (r, added))))
       [0 ..< bs_size votes] (results, 0))"

definition metrics_add_policy_votes :: "finalizer_policy \<Rightarrow> qc_sig_t \<Rightarrow> qc_vote_metrics_t \<Rightarrow> qc_vote_metrics_t res" where
  "metrics_add_policy_votes p s m =
     rbind (case strong_votes s of
         None \<Rightarrow> Inr (m, 0)
       | Some b \<Rightarrow> rbind (metrics_add_votes p b (met_strong_votes m)) (\<lambda>(r, added). Inr (m\<lparr>met_strong_votes := r\<rparr>, added))) (\<lambda>(m1, added1).
     rbind (case weak_votes s of
         None \<Rightarrow> Inr (m1, added1)
       | Some b \<Rightarrow> rbind (metrics_add_votes p b (met_weak_votes m1)) (\<lambda>(r, added). Inr (m1\<lparr>met_weak_votes := r\<rparr>, added))) (\<lambda>(m2, added2).
     if added2 \<noteq> length (fp_finalizers p) then
       rbind (case strong_votes s of None \<Rightarrow> bs_make (length (fp_finalizers p)) | Some b \<Rightarrow> Inr b) (\<lambda>nv.
       rbind (case weak_votes s of None \<Rightarrow> Inr nv
         | Some b \<Rightarrow> ensure (bs_size nv = bs_size b) Assert_failed (bs_or_assign nv b)) (\<lambda>nv1.
       rbind (bs_flip nv1) (\<lambda>nv2.
       rbind (metrics_add_votes p nv2 (met_missing_votes m2)) (\<lambda>(r, _).
       Inr (m2\<lparr>met_missing_votes := r\<rparr>)))))
     else Inr m2))"

definition vote_metrics :: "aggregating_qc_t \<Rightarrow> qc_t \<Rightarrow> qc_vote_metrics_t res" where
  "vote_metrics q qc =
     rbind (metrics_add_policy_votes (aq_active_finalizer_policy q) (active_policy_sig qc)
       \<lparr>met_strong_votes = Map.empty, met_weak_votes = Map.empty, met_missing_votes = Map.empty,
        met_voted_for_block_timestamp = 0, met_voted_for_block_id = sha256_zero\<rparr>) (\<lambda>m.
     case aq_pending_finalizer_policy q of
       None \<Rightarrow> Inr m
     | Some pp \<Rightarrow> ensure (aq_pending_policy_sig q \<noteq> None) Assert_failed (
         case pending_policy_sig qc of
           None \<Rightarrow> Inl Assert_failed
         | Some ps \<Rightarrow> metrics_add_policy_votes pp ps m))"

definition add_not_voted :: "finalizer_policy \<Rightarrow> qc_sig_t \<Rightarrow> fin_auth_set_t \<Rightarrow> fin_auth_set_t res" where
  "add_not_voted p s not_voted =
     (let other_votes = (if strong_votes s \<noteq> None then weak_votes s else strong_votes s) in
      case (if strong_votes s \<noteq> None then strong_votes s else weak_votes s) of
        None \<Rightarrow> Inl Assert_failed
      | Some votes \<Rightarrow>
        ensure (bs_size votes = length (fp_finalizers p)) Assert_failed (
        ensure (case other_votes of None \<Rightarrow> True | Some b \<Rightarrow> bs_size b = length (fp_finalizers p)) Assert_failed (
        fold_res (\<lambda>i r. rbind (bs_test votes i) (\<lambda>v.
            if v then Inr r
            else rbind (opt_test other_votes i) (\<lambda>ov.
              Inr (if ov then r else fin_auth_insert (policy_fin_auth p i) r))))
          [0 ..< bs_size votes] not_voted)))"

definition missing_votes :: "aggregating_qc_t \<Rightarrow> qc_t \<Rightarrow> fin_auth_set_t res" where
  "missing_votes q qc =
     rbind (add_not_voted (aq_active_finalizer_policy q) (active_policy_sig qc) Map.empty) (\<lambda>r.
     case aq_pending_finalizer_policy q of
       None \<Rightarrow> Inr r
     | Some pp \<Rightarrow> ensure (aq_pending_policy_sig q \<noteq> None) Assert_failed (
         case pending_policy_sig qc of
           None \<Rightarrow> Inl Assert_failed
         | Some ps \<Rightarrow> add_not_voted pp ps r))"

end
