(* ===== verification/Qc_Verify.thy ===== *)
theory Qc_Verify
  imports Qc
begin

text \<open>
  What the checks on a received quorum certificate establish: a weighted quorum of the policy, no
  finalizer counted twice, equal votes of the finalizers that are in both policies, and, as the
  basis of finality, a common finalizer in any two certificates of a policy.
\<close>

section \<open>Voters and their weight\<close>

definition voters :: "bitset option \<Rightarrow> nat set" where
  "voters v = (case v of None \<Rightarrow> {} | Some b \<Rightarrow> {i. i < bs_size b \<and> bits b ! i})"

definition weight_of :: "finalizer_policy \<Rightarrow> nat set \<Rightarrow> nat" where
  "weight_of p V = (\<Sum>i \<in> V \<inter> {..< length (fp_finalizers p)}. unat (fa_weight (fp_finalizers p ! i)))"

definition sig_voters :: "qc_sig_t \<Rightarrow> nat set" where
  "sig_voters s = voters (strong_votes s) \<union> voters (weak_votes s)"

lemma voters_simps [simp]: "voters None = {}" "voters (Some b) = {i. i < bs_size b \<and> bits b ! i}"
  by (simp_all add: voters_def)

lemma finite_voters [simp]: "finite (voters v)"
  by (cases v) simp_all

lemma total_weight_eq: "total_weight p = weight_of p {..< length (fp_finalizers p)}"
  by (simp add: total_weight_def weight_of_def sum_list_sum_nth lessThan_atLeast0)

lemma weight_of_le_total: "weight_of p V \<le> total_weight p"
  unfolding total_weight_eq weight_of_def by (rule sum_mono2) auto

lemma weight_of_mono: "U \<subseteq> V \<Longrightarrow> weight_of p U \<le> weight_of p V"
  unfolding weight_of_def by (rule sum_mono2) auto

lemma weight_of_Un_Int: "weight_of p (U \<union> V) + weight_of p (U \<inter> V) = weight_of p U + weight_of p V"
proof -
  let ?N = "{..< length (fp_finalizers p)}"
  have "(U \<union> V) \<inter> ?N = (U \<inter> ?N) \<union> (V \<inter> ?N)" and "(U \<inter> V) \<inter> ?N = (U \<inter> ?N) \<inter> (V \<inter> ?N)" by auto
  then show ?thesis unfolding weight_of_def by (simp add: sum.union_inter)
qed

lemma weight_of_disjoint: "U \<inter> V = {} \<Longrightarrow> weight_of p (U \<union> V) = weight_of p U + weight_of p V"
  using weight_of_Un_Int [of p U V] by (simp add: weight_of_def)

lemma weight_of_insert:
  "i \<notin> V \<Longrightarrow> i < length (fp_finalizers p) \<Longrightarrow>
   weight_of p (insert i V) = weight_of p V + unat (fa_weight (fp_finalizers p ! i))"
  using weight_of_disjoint [of "{i}" V p] by (simp add: weight_of_def)

lemma voted_weights_prefix:
  assumes "n \<le> length fs" and "n \<le> bs_size b"
  shows "fold_res (\<lambda>i sum. rbind (bs_test b i) (\<lambda>v. Inr (if v then sum + fa_weight (fs ! i) else sum))) [0 ..< n] (0 :: 64 word) =
     Inr (of_nat (\<Sum>i \<in> {i. i < n \<and> bits b ! i}. unat (fa_weight (fs ! i))))"
  using assms
proof (induction n)
  case (Suc n)
  have "{i. i < Suc n \<and> bits b ! i} = (if bits b ! n then insert n {i. i < n \<and> bits b ! i} else {i. i < n \<and> bits b ! i})"
    by (auto simp: less_Suc_eq)
  with Suc bs_test_bits [of n b] show ?case
    by (simp add: fold_res_append add.commute)
qed simp

lemma voted_weights_eq:
  assumes "bs_size b = length (fp_finalizers p)"
  shows "voted_weights (fp_finalizers p) b = Inr (of_nat (weight_of p (voters (Some b))))"
proof -
  have "voters (Some b) \<inter> {..< length (fp_finalizers p)} = {i. i < length (fp_finalizers p) \<and> bits b ! i}"
    using assms by auto
  with voted_weights_prefix [of "length (fp_finalizers p)" "fp_finalizers p" b] assms show ?thesis
    by (simp add: voted_weights_def weight_of_def del: voters_simps)
qed

lemma unat_weight:
  assumes "policy_wf p"
  shows "unat (of_nat (weight_of p V) :: 64 word) = weight_of p V"
  using assms weight_of_le_total [of p V] by (simp add: policy_wf_def unat_of_nat)

section \<open>The checks on one signature\<close>

definition format_ok :: "qc_sig_t \<Rightarrow> finalizer_policy \<Rightarrow> bool" where
  "format_ok s p \<longleftrightarrow>
     (strong_votes s \<noteq> None \<or> weak_votes s \<noteq> None) \<and>
     pred_option (\<lambda>b. bs_size b = length (fp_finalizers p)) (strong_votes s) \<and>
     pred_option (\<lambda>b. bs_size b = length (fp_finalizers p)) (weak_votes s) \<and>
     voters (strong_votes s) \<inter> voters (weak_votes s) = {}"

lemma verify_vote_format_eq:
  "verify_vote_format s p = (if format_ok s p then Inr () else Inl Invalid_qc)"
proof -
  have loop: "each (\<lambda>i. rbind (bs_test sv i) (\<lambda>a. rbind (if a then bs_test wv i else Inr False) (\<lambda>b.
        ensure (\<not> b) Invalid_qc (Inr ())))) [0 ..< n] =
      ensure (voters (Some sv) \<inter> voters (Some wv) = {}) Invalid_qc (Inr ())"
    if n: "bs_size sv = n" "bs_size wv = n" for sv wv n
  proof -
    have "each (\<lambda>i. rbind (bs_test sv i) (\<lambda>a. rbind (if a then bs_test wv i else Inr False) (\<lambda>b.
        ensure (\<not> b) Invalid_qc (Inr ())))) [0 ..< n] =
      each (\<lambda>i. ensure (\<not> (bits sv ! i \<and> bits wv ! i)) Invalid_qc (Inr ())) [0 ..< n]"
      by (rule each_cong) (use n in \<open>auto simp: bs_test_bits\<close>)
    also have "\<dots> = ensure (list_all (\<lambda>i. \<not> (bits sv ! i \<and> bits wv ! i)) [0 ..< n]) Invalid_qc (Inr ())"
      by (rule each_ensure)
    also have "list_all (\<lambda>i. \<not> (bits sv ! i \<and> bits wv ! i)) [0 ..< n] \<longleftrightarrow> voters (Some sv) \<inter> voters (Some wv) = {}"
      using n by (auto simp: list_all_iff)
    finally show ?thesis .
  qed
  show ?thesis
  proof (cases "\<exists>sv wv. strong_votes s = Some sv \<and> weak_votes s = Some wv \<and>
      bs_size sv = length (fp_finalizers p) \<and> bs_size wv = length (fp_finalizers p)")
    case True
    then show ?thesis
      by (elim exE) (simp add: verify_vote_format_def format_ok_def Let_def loop del: voters_simps)
  next
    case False
    then show ?thesis
      by (cases "strong_votes s"; cases "weak_votes s")
        (auto simp: verify_vote_format_def format_ok_def Let_def ensure_def)
  qed
qed

definition quorum_ok :: "qc_sig_t \<Rightarrow> finalizer_policy \<Rightarrow> bool" where
  "quorum_ok s p \<longleftrightarrow> unat (fp_threshold p) \<le> weight_of p (sig_voters s)"

lemma verify_weights_eq:
  assumes "policy_wf p" and "format_ok s p"
  shows "verify_weights s p = (if quorum_ok s p then Inr () else Inl Invalid_qc)"
proof -
  let ?S = "voters (strong_votes s)" and ?K = "voters (weak_votes s)"
  have w: "weight_of p {} = 0" by (simp add: weight_of_def)
  have strong: "(case strong_votes s of None \<Rightarrow> Inr 0 | Some b \<Rightarrow> voted_weights (fp_finalizers p) b) =
      Inr (of_nat (weight_of p ?S))"
    using assms(2) by (cases "strong_votes s") (simp_all add: format_ok_def voted_weights_eq w)
  have weak: "(case weak_votes s of None \<Rightarrow> Inr 0 | Some b \<Rightarrow> voted_weights (fp_finalizers p) b) =
      Inr (of_nat (weight_of p ?K))"
    using assms(2) by (cases "weak_votes s") (simp_all add: format_ok_def voted_weights_eq w)
  have sum: "weight_of p (sig_voters s) = weight_of p ?S + weight_of p ?K"
    using assms(2) by (simp add: sig_voters_def format_ok_def weight_of_disjoint)
  have "unat (of_nat (weight_of p ?S) + of_nat (weight_of p ?K) :: 64 word) = weight_of p (sig_voters s)"
    using unat_weight [OF assms(1), of "sig_voters s"] by (simp add: sum)
  then show ?thesis
    using unat_weight [OF assms(1), of ?S]
    by (simp add: verify_weights_def strong weak sig_is_strong_def quorum_ok_def sum word_le_nat_alt ensure_def w)
qed

section \<open>Certificates of one policy intersect\<close>

text \<open>The two checks that every certificate signature passes.\<close>

definition sig_verified :: "qc_sig_t \<Rightarrow> finalizer_policy \<Rightarrow> bool" where
  "sig_verified s p \<longleftrightarrow> verify_vote_format s p = Inr () \<and> verify_weights s p = Inr ()"

lemma sig_verified_iff: "policy_wf p \<Longrightarrow> sig_verified s p \<longleftrightarrow> format_ok s p \<and> quorum_ok s p"
  by (auto simp: sig_verified_def verify_vote_format_eq verify_weights_eq)

text \<open>
  C27: The checks on a certificate signature decide exactly: the vote vectors have the size of the
  policy, no finalizer votes both strong and weak, and the finalizers that voted, each counted once,
  weigh at least the threshold (only strong votes exist in a strong certificate).  The 64-bit sums
  do not wrap, and every failed check is reported as \<open>invalid_qc\<close>.
\<close>

theorem verify_sig_decides_quorum:
  assumes "policy_wf p"
  shows "rbind (verify_vote_format s p) (\<lambda>_. verify_weights s p) =
    (if (strong_votes s \<noteq> None \<or> weak_votes s \<noteq> None) \<and>
        pred_option (\<lambda>b. bs_size b = length (fp_finalizers p)) (strong_votes s) \<and>
        pred_option (\<lambda>b. bs_size b = length (fp_finalizers p)) (weak_votes s) \<and>
        voters (strong_votes s) \<inter> voters (weak_votes s) = {} \<and>
        unat (fp_threshold p) \<le> weight_of p (voters (strong_votes s) \<union> voters (weak_votes s))
     then Inr () else Inl Invalid_qc)"
  using assms
  by (auto simp: verify_vote_format_eq verify_weights_eq format_ok_def quorum_ok_def sig_voters_def)

text \<open>
  C11: Any two verified certificate signatures for the same policy have common voters: together
  these weigh at least twice the threshold minus the total weight, which is positive, so at least
  one finalizer voted in both.
\<close>

theorem verified_quorums_intersect:
  assumes "policy_wf p" and "sig_verified s p" and "sig_verified t p"
  shows "2 * unat (fp_threshold p) - total_weight p \<le> weight_of p (sig_voters s \<inter> sig_voters t) \<and>
         0 < 2 * unat (fp_threshold p) - total_weight p \<and>
         (\<exists>i < length (fp_finalizers p). i \<in> sig_voters s \<and> i \<in> sig_voters t)"
proof -
  let ?I = "sig_voters s \<inter> sig_voters t" and ?T = "unat (fp_threshold p)"
  have "?T \<le> weight_of p (sig_voters s)" and "?T \<le> weight_of p (sig_voters t)"
    using assms by (simp_all add: sig_verified_iff quorum_ok_def)
  with weight_of_Un_Int [of p "sig_voters s" "sig_voters t"] weight_of_le_total [of p "sig_voters s \<union> sig_voters t"]
  have w: "2 * ?T - total_weight p \<le> weight_of p ?I" by linarith
  moreover have pos: "0 < 2 * ?T - total_weight p" using assms(1) by (simp add: policy_wf_def)
  ultimately have "weight_of p ?I \<noteq> 0" by linarith
  then have "?I \<inter> {..< length (fp_finalizers p)} \<noteq> {}" by (auto simp: weight_of_def)
  with w pos show ?thesis by auto
qed

definition sample_votes :: "byte \<Rightarrow> bitset" where
  "sample_votes w = \<lparr>m_num_bits = 4, m_bits = [w]\<rparr>"

definition sample_sig :: "byte \<Rightarrow> byte \<Rightarrow> qc_sig_t" where
  "sample_sig s w = \<lparr>strong_votes = Some (sample_votes s), weak_votes = Some (sample_votes w), qs_sig = []\<rparr>"

lemma sample_sig_verified: "sig_verified (sample_sig 0x3 0x4) sample_policy" "sig_verified (sample_sig 0xc 0x2) sample_policy"
  unfolding sig_verified_def by (code_simp, code_simp)

theorem verify_sig_decides_quorum_witness:
  "unat (fp_threshold sample_policy) \<le>
   weight_of sample_policy (voters (strong_votes (sample_sig 0x3 0x4)) \<union> voters (weak_votes (sample_sig 0x3 0x4)))"
  using verify_sig_decides_quorum [OF sample_policy_wf, of "sample_sig 0x3 0x4"] sample_sig_verified(1)
  by (simp add: sig_verified_def split: if_splits)

theorem verified_quorums_intersect_witness:
  "\<exists>i < length (fp_finalizers sample_policy). i \<in> sig_voters (sample_sig 0x3 0x4) \<and> i \<in> sig_voters (sample_sig 0xc 0x2)"
  using verified_quorums_intersect [OF sample_policy_wf sample_sig_verified] by blast

section \<open>Both policies of a block\<close>

lemma find_key_Some:
  "find_key k fs = Some j \<longleftrightarrow> j < length fs \<and> fa_public_key (fs ! j) = k \<and> (\<forall>i < j. fa_public_key (fs ! i) \<noteq> k)"
proof (induction fs arbitrary: j)
  case (Cons f fs)
  show ?case
  proof (cases j)
    case 0
    then show ?thesis by auto
  next
    case (Suc m)
    with Cons.IH [of m] show ?thesis by (auto simp: less_Suc_eq_0_disj)
  qed
qed simp

lemma find_key_None: "find_key k fs = None \<longleftrightarrow> k \<notin> fa_public_key ` set fs"
  by (induction fs) auto

lemma find_key_distinct:
  assumes "distinct (map fa_public_key fs)" and "j < length fs"
  shows "find_key (fa_public_key (fs ! j)) fs = Some j"
  unfolding find_key_Some using assms by (auto simp: distinct_conv_nth)

lemma opt_test_voters:
  assumes "pred_option (\<lambda>b. i < bs_size b) v"
  shows "opt_test v i = Inr (i \<in> voters v)"
  using assms by (cases v) (simp_all add: opt_test_def bs_test_bits)

lemma vote_same_at_eq:
  assumes "pred_option (\<lambda>b. i < bs_size b) (strong_votes s)" and "pred_option (\<lambda>b. i < bs_size b) (weak_votes s)"
    and "pred_option (\<lambda>b. j < bs_size b) (strong_votes t)" and "pred_option (\<lambda>b. j < bs_size b) (weak_votes t)"
  shows "vote_same_at s t i j = Inr ((i \<in> voters (strong_votes s) \<longleftrightarrow> j \<in> voters (strong_votes t)) \<and>
     (i \<in> voters (weak_votes s) \<longleftrightarrow> j \<in> voters (weak_votes t)))"
proof -
  have "(case strong_votes s of None \<Rightarrow> True | Some b \<Rightarrow> i < bs_size b)"
    "(case weak_votes s of None \<Rightarrow> True | Some b \<Rightarrow> i < bs_size b)"
    using assms(1,2) by (auto split: option.splits)
  then show ?thesis by (simp add: vote_same_at_def opt_test_voters assms)
qed

definition same_votes :: "finalizer_policy \<Rightarrow> finalizer_policy \<Rightarrow> qc_sig_t \<Rightarrow> qc_sig_t \<Rightarrow> bool" where
  "same_votes p q s t \<longleftrightarrow>
     (\<forall>i < length (fp_finalizers p). \<forall>j < length (fp_finalizers q).
        fa_public_key (fp_finalizers p ! i) = fa_public_key (fp_finalizers q ! j) \<longrightarrow>
        (i \<in> voters (strong_votes s) \<longleftrightarrow> j \<in> voters (strong_votes t)) \<and>
        (i \<in> voters (weak_votes s) \<longleftrightarrow> j \<in> voters (weak_votes t)))"

lemma format_ok_sizes:
  "format_ok s p \<Longrightarrow> i < length (fp_finalizers p) \<Longrightarrow> pred_option (\<lambda>b. i < bs_size b) (strong_votes s)"
  "format_ok s p \<Longrightarrow> i < length (fp_finalizers p) \<Longrightarrow> pred_option (\<lambda>b. i < bs_size b) (weak_votes s)"
  by (auto simp: format_ok_def option.pred_set)

lemma verify_dual_eq:
  assumes "format_ok s p" and "format_ok t q" and "policy_wf q"
  shows "verify_dual_finalizers_votes p q s t = (if same_votes p q s t then Inr () else Inl Invalid_qc)"
proof -
  define D where "D i \<longleftrightarrow> (\<forall>j < length (fp_finalizers q).
        fa_public_key (fp_finalizers p ! i) = fa_public_key (fp_finalizers q ! j) \<longrightarrow>
        (i \<in> voters (strong_votes s) \<longleftrightarrow> j \<in> voters (strong_votes t)) \<and>
        (i \<in> voters (weak_votes s) \<longleftrightarrow> j \<in> voters (weak_votes t)))" for i
  have dist: "distinct (map fa_public_key (fp_finalizers q))" using assms(3) by (simp add: policy_wf_def)
  have step: "(case find_key (fa_public_key (fp_finalizers p ! i)) (fp_finalizers q) of
         None \<Rightarrow> Inr ()
       | Some j \<Rightarrow> rbind (vote_same_at s t i j) (\<lambda>same. ensure same Invalid_qc (Inr ()))) =
       ensure (D i) Invalid_qc (Inr ())" if i: "i < length (fp_finalizers p)" for i
  proof (cases "find_key (fa_public_key (fp_finalizers p ! i)) (fp_finalizers q)")
    case None
    then have "fa_public_key (fp_finalizers q ! j) \<noteq> fa_public_key (fp_finalizers p ! i)"
      if "j < length (fp_finalizers q)" for j
      using imageI [OF nth_mem [OF that], of fa_public_key] by (auto simp: find_key_None)
    then have "D i" unfolding D_def by fastforce
    with None show ?thesis by simp
  next
    case (Some j)
    then have j: "j < length (fp_finalizers q)" and key: "fa_public_key (fp_finalizers q ! j) = fa_public_key (fp_finalizers p ! i)"
      by (auto simp: find_key_Some)
    have "j' = j" if "j' < length (fp_finalizers q)" "fa_public_key (fp_finalizers p ! i) = fa_public_key (fp_finalizers q ! j')" for j'
      using find_key_distinct [OF dist that(1)] Some that(2) by simp
    then have "D i \<longleftrightarrow> (i \<in> voters (strong_votes s) \<longleftrightarrow> j \<in> voters (strong_votes t)) \<and>
        (i \<in> voters (weak_votes s) \<longleftrightarrow> j \<in> voters (weak_votes t))"
      using j key unfolding D_def by metis
    with Some vote_same_at_eq [OF format_ok_sizes [OF assms(1) i] format_ok_sizes [OF assms(2) j]] show ?thesis by simp
  qed
  have "verify_dual_finalizers_votes p q s t = each (\<lambda>i. ensure (D i) Invalid_qc (Inr ())) [0 ..< length (fp_finalizers p)]"
    unfolding verify_dual_finalizers_votes_def by (rule each_cong) (simp add: step)
  also have "\<dots> = ensure (list_all D [0 ..< length (fp_finalizers p)]) Invalid_qc (Inr ())" by (rule each_ensure)
  also have "list_all D [0 ..< length (fp_finalizers p)] = same_votes p q s t"
    unfolding same_votes_def D_def [symmetric] by (auto simp: list_all_iff)
  finally show ?thesis by (simp add: ensure_def)
qed

lemma sig_verified_format: "sig_verified s p \<Longrightarrow> format_ok s p"
  by (simp add: sig_verified_def verify_vote_format_eq split: if_splits)

lemma verify_basic_iff:
  assumes "policy_wf (active_finalizer_policy ps)" and "pred_option policy_wf (pending_finalizer_policy ps)"
  shows "verify_basic qc ps = Inr () \<longleftrightarrow>
    sig_verified (active_policy_sig qc) (active_finalizer_policy ps) \<and>
    (case (pending_policy_sig qc, pending_finalizer_policy ps) of
        (None, None) \<Rightarrow> True
      | (Some s, Some p) \<Rightarrow> sig_verified s p \<and> same_votes (active_finalizer_policy ps) p (active_policy_sig qc) s
      | _ \<Rightarrow> False)"
proof (cases "pending_policy_sig qc")
  case None
  then show ?thesis
    by (cases "pending_finalizer_policy ps") (auto simp: verify_basic_def sig_verified_def res_simps)
next
  case (Some s)
  show ?thesis
  proof (cases "pending_finalizer_policy ps")
    case None
    with Some show ?thesis by (auto simp: verify_basic_def sig_verified_def res_simps)
  next
    case p: (Some p)
    with assms(2) have "policy_wf p" by simp
    have "verify_basic qc ps = Inr () \<longleftrightarrow>
        sig_verified (active_policy_sig qc) (active_finalizer_policy ps) \<and> sig_verified s p \<and>
        verify_dual_finalizers_votes (active_finalizer_policy ps) p (active_policy_sig qc) s = Inr ()"
      using Some p by (auto simp: verify_basic_def sig_verified_def rbind_Inr_iff)
    moreover have "verify_dual_finalizers_votes (active_finalizer_policy ps) p (active_policy_sig qc) s = Inr () \<longleftrightarrow>
        same_votes (active_finalizer_policy ps) p (active_policy_sig qc) s"
      if "sig_verified (active_policy_sig qc) (active_finalizer_policy ps)" "sig_verified s p"
      using verify_dual_eq [OF that [THEN sig_verified_format] \<open>policy_wf p\<close>] by simp
    ultimately show ?thesis using Some p by auto
  qed
qed

text \<open>
  C28: A certificate that passes \<open>verify_basic\<close> has a quorum of the active policy, and of the
  pending policy exactly when the block has one, and every finalizer that is in both policies is
  recorded with the same vote in both; conversely every such certificate passes.
\<close>

theorem verify_basic_decides:
  assumes "policy_wf (active_finalizer_policy ps)" and "pred_option policy_wf (pending_finalizer_policy ps)"
  shows "verify_basic qc ps = Inr () \<longleftrightarrow>
    sig_verified (active_policy_sig qc) (active_finalizer_policy ps) \<and>
    (case (pending_policy_sig qc, pending_finalizer_policy ps) of
        (None, None) \<Rightarrow> True
      | (Some s, Some p) \<Rightarrow> sig_verified s p \<and> same_votes (active_finalizer_policy ps) p (active_policy_sig qc) s
      | _ \<Rightarrow> False)"
  by (rule verify_basic_iff [OF assms])

text \<open>Two policies with a common finalizer, for the samples below.\<close>

definition sample_pending :: finalizer_policy where
  "sample_pending = \<lparr>fp_generation = 2, fp_threshold = 2, fp_finalizers = [sample_finalizer 1 4, sample_finalizer 1 5, sample_finalizer 1 6]\<rparr>"

definition sample_policies :: finalizer_policies_t where
  "sample_policies = \<lparr>pol_finality_digest = sha256_zero, active_finalizer_policy = sample_policy,
     pending_finalizer_policy = Some sample_pending\<rparr>"

definition sample_qc :: "nat \<Rightarrow> byte \<Rightarrow> qc_t" where
  "sample_qc n w = \<lparr>qc_block_num = 7, active_policy_sig = sample_sig 0x7 0x8,
     pending_policy_sig = Some \<lparr>strong_votes = Some \<lparr>m_num_bits = n, m_bits = [w]\<rparr>, weak_votes = Some \<lparr>m_num_bits = n, m_bits = [1]\<rparr>, qs_sig = []\<rparr>\<rparr>"

lemma sample_pending_wf: "policy_wf sample_pending"
  by (simp add: policy_wf_def sample_pending_def sample_finalizer_def max_finalizers_def total_weight_def replicate_eq_replicate)

lemma sample_policies_wf: "policy_wf (active_finalizer_policy sample_policies)" "pred_option policy_wf (pending_finalizer_policy sample_policies)"
  by (simp_all add: sample_policies_def sample_policy_wf sample_pending_wf)

theorem verify_basic_decides_witness:
  "sig_verified (active_policy_sig (sample_qc 3 0x2)) (active_finalizer_policy sample_policies)"
proof -
  have "verify_basic (sample_qc 3 0x2) sample_policies = Inr ()" by code_simp
  then show ?thesis using verify_basic_decides [OF sample_policies_wf] by blast
qed

text \<open>
  \<open>verify_basic\<close> compares the votes of common finalizers before it checks the size of the
  pending vote vectors.  A certificate whose pending vectors are too short makes it read them out of
  range instead of being rejected with \<open>invalid_qc\<close>.
\<close>

theorem verify_basic_out_of_range:
  "verify_basic (sample_qc 0 0) sample_policies = Inl Assert_failed \<and>
   policy_wf (active_finalizer_policy sample_policies) \<and> pred_option policy_wf (pending_finalizer_policy sample_policies)"
proof (intro conjI sample_policies_wf)
  show "verify_basic (sample_qc 0 0) sample_policies = Inl Assert_failed" by code_simp
qed

end
