(* ===== verification/Qc_Aggregate.thy ===== *)
theory Qc_Aggregate
  imports Qc_Verify
begin

text \<open>
  Correctness of the vote aggregation.  \<open>agg_inv\<close> is the invariant of the votes collected for one
  policy: the vote vectors are well formed and disjoint, the sums are the weights of the voters, and
  the state says what the comments of \<open>aggregating_qc_sig_t::state_t\<close> say of it.  \<open>aq_inv\<close> is the
  invariant of the votes for a block, with the votes of common finalizers equal in both policies.
\<close>

section \<open>The invariant for one policy\<close>

definition votes_ok :: "finalizer_policy \<Rightarrow> votes_t \<Rightarrow> bool" where
  "votes_ok p v \<longleftrightarrow> bs_wf (v_bitset v) \<and> bs_size (v_bitset v) = length (fp_finalizers p) \<and>
     v_processed v = bits (v_bitset v)"

abbreviation strong_voters :: "aggregating_qc_sig_t \<Rightarrow> nat set" where
  "strong_voters a \<equiv> voters (Some (v_bitset (agg_strong_votes a)))"

abbreviation weak_voters :: "aggregating_qc_sig_t \<Rightarrow> nat set" where
  "weak_voters a \<equiv> voters (Some (v_bitset (agg_weak_votes a)))"

text \<open>\<open>S\<close>, \<open>K\<close>: the strong and weak weight; \<open>T\<close>: the threshold; \<open>m\<close>: \<open>max_weak_sum_before_weak_final\<close>.\<close>

fun state_ok :: "agg_state \<Rightarrow> nat \<Rightarrow> nat \<Rightarrow> nat \<Rightarrow> nat \<Rightarrow> bool" where
  "state_ok Unrestricted S K T m \<longleftrightarrow> S + K < T \<and> K \<le> m"
| "state_ok Restricted S K T m \<longleftrightarrow> S + K < T \<and> m < K"
| "state_ok Weak_achieved S K T m \<longleftrightarrow> T \<le> S + K \<and> S < T \<and> K \<le> m"
| "state_ok Weak_final S K T m \<longleftrightarrow> T \<le> S + K \<and> m \<le> K"
| "state_ok Strong S K T m \<longleftrightarrow> T \<le> S"

definition agg_inv :: "finalizer_policy \<Rightarrow> aggregating_qc_sig_t \<Rightarrow> bool" where
  "agg_inv p a \<longleftrightarrow> policy_wf p \<and> quorum a = fp_threshold p \<and>
     max_weak_sum a = max_weak_sum_before_weak_final p \<and>
     votes_ok p (agg_strong_votes a) \<and> votes_ok p (agg_weak_votes a) \<and>
     strong_voters a \<inter> weak_voters a = {} \<and>
     unat (strong_sum a) = weight_of p (strong_voters a) \<and> unat (weak_sum a) = weight_of p (weak_voters a) \<and>
     state_ok (aggregating_state a) (weight_of p (strong_voters a)) (weight_of p (weak_voters a))
       (unat (fp_threshold p)) (unat (max_weak_sum_before_weak_final p))"

lemma agg_invD:
  assumes "agg_inv p a"
  shows "policy_wf p" and "quorum a = fp_threshold p" and "max_weak_sum a = max_weak_sum_before_weak_final p"
    and "votes_ok p (agg_strong_votes a)" and "votes_ok p (agg_weak_votes a)"
    and "strong_voters a \<inter> weak_voters a = {}"
    and "unat (strong_sum a) = weight_of p (strong_voters a)" and "unat (weak_sum a) = weight_of p (weak_voters a)"
    and "state_ok (aggregating_state a) (weight_of p (strong_voters a)) (weight_of p (weak_voters a))
       (unat (fp_threshold p)) (unat (max_weak_sum_before_weak_final p))"
  using assms unfolding agg_inv_def by blast+

lemma votes_make_ok:
  "\<exists>v. votes_make bls (length (fp_finalizers p)) = Inr v \<and> votes_ok p v \<and> voters (Some (v_bitset v)) = {}"
proof -
  obtain b where b: "bs_make (length (fp_finalizers p)) = Inr b" "bs_wf b"
    "bits b = replicate (length (fp_finalizers p)) False"
    using bv.make_vec by blast
  moreover have "bs_size b = length (fp_finalizers p)" using bits_eq_size [OF b(3)] by simp
  ultimately show ?thesis by (auto simp: votes_make_def votes_ok_def)
qed

lemma votes_add_vote_ok:
  assumes "votes_ok p v" and "i < length (fp_finalizers p)"
  shows "\<exists>v'. votes_add_vote bls v i sg = Inr v' \<and> votes_ok p v' \<and> v_sig v' = api_aggregate bls (v_sig v) sg \<and>
     voters (Some (v_bitset v')) = insert i (voters (Some (v_bitset v)))"
proof -
  from assms have v: "bs_wf (v_bitset v)" "bs_size (v_bitset v) = length (fp_finalizers p)"
    "v_processed v = bits (v_bitset v)" by (auto simp: votes_ok_def)
  obtain b where b: "bs_set i (v_bitset v) = Inr b" "bs_wf b" "bits b = (bits (v_bitset v))[i := True]"
    using bv.put_vec [of "v_bitset v" i] v assms(2) by auto
  have n: "bs_size b = length (fp_finalizers p)" using bits_eq_size [OF b(3)] v(2) by simp
  have "{j. j < bs_size b \<and> bits b ! j} = insert i {j. j < bs_size (v_bitset v) \<and> bits (v_bitset v) ! j}"
    using assms(2) v(2) n by (auto simp: b(3) nth_list_update)
  with b n v assms(2) show ?thesis by (auto simp: votes_add_vote_def votes_ok_def)
qed

lemma votes_has_voted_eq:
  assumes "votes_ok p v" and "i < length (fp_finalizers p)"
  shows "votes_has_voted v i = Inr (i \<in> voters (Some (v_bitset v)))"
  using assms by (simp add: votes_has_voted_def votes_ok_def)

lemma votes_test_eq:
  assumes "votes_ok p v" and "i < length (fp_finalizers p)"
  shows "bs_test (v_bitset v) i = Inr (i \<in> voters (Some (v_bitset v)))"
  using assms by (simp add: votes_ok_def bs_test_bits)

lemma agg_of_policy_inv:
  assumes "policy_wf p"
  shows "\<exists>a. agg_of_policy bls p = Inr a \<and> agg_inv p a \<and> strong_voters a = {} \<and> weak_voters a = {} \<and> received_qc_sig a = None"
proof -
  obtain v where v: "votes_make bls (length (fp_finalizers p)) = Inr v" "votes_ok p v" "voters (Some (v_bitset v)) = {}"
    using votes_make_ok by blast
  have "0 < unat (fp_threshold p)" using assms by (auto simp: policy_wf_def)
  with v assms show ?thesis
    by (simp add: agg_of_policy_def agg_make_def agg_inv_def weight_of_def del: voters_simps)
qed

lemma weights_bounded:
  assumes "policy_wf p" and "S \<inter> K = {}"
  shows "weight_of p S + weight_of p K \<le> total_weight p" and "weight_of p S + weight_of p K < 2 ^ 64"
  using weight_of_disjoint [OF assms(2), of p] weight_of_le_total [of p "S \<union> K"] assms(1)
  by (simp_all add: policy_wf_def)

lemma check_duplicate_eq:
  assumes "agg_inv p a" and "i < length (fp_finalizers p)"
  shows "check_duplicate a i = Inr (if i \<in> strong_voters a \<union> weak_voters a then Duplicate else Success)"
  using votes_test_eq [OF agg_invD(4) [OF assms(1)] assms(2)] votes_test_eq [OF agg_invD(5) [OF assms(1)] assms(2)]
  by (simp add: check_duplicate_def del: voters_simps)

lemma agg_has_voted_eq:
  assumes "agg_inv p a" and "i < length (fp_finalizers p)"
  shows "agg_has_voted a i = Inr (i \<in> strong_voters a \<union> weak_voters a)"
  using votes_has_voted_eq [OF agg_invD(4) [OF assms(1)] assms(2)] votes_has_voted_eq [OF agg_invD(5) [OF assms(1)] assms(2)]
  by (simp add: agg_has_voted_def del: voters_simps)

text \<open>The two \<open>switch\<close> statements, on the weights: they keep \<open>state_ok\<close>.\<close>

lemma agg_state_same [simp]: "aggregating_state a = st \<Longrightarrow> a\<lparr>aggregating_state := st\<rparr> = a"
  by auto

lemma strong_transition_ok:
  assumes old: "state_ok (aggregating_state a) S0 K T m"
    and sums: "unat (strong_sum a) = S" "unat (weak_sum a) = K" "unat (quorum a) = T" "S + K < 2 ^ 64"
    and grow: "S0 \<le> S" and slack: "S + K \<le> W" "W - T \<le> m"
  shows "\<exists>st. strong_transition a = Inr (a\<lparr>aggregating_state := st\<rparr>) \<and> state_ok st S K T m"
proof -
  have q: "quorum a \<le> strong_sum a \<longleftrightarrow> T \<le> S" "quorum a \<le> weak_sum a + strong_sum a \<longleftrightarrow> T \<le> K + S"
    using sums by (simp_all add: word_le_nat_alt unat_word_ariths)
  show ?thesis
  proof (cases "aggregating_state a")
    case Unrestricted
    with old grow show ?thesis
      by (intro exI [of _ "if T \<le> S then Strong else if T \<le> K + S then Weak_achieved else Unrestricted"])
        (simp add: strong_transition_def q)
  next
    case Restricted
    have "\<not> T \<le> S"
    proof
      assume "T \<le> S"
      with slack(1) have "K \<le> W - T" by linarith
      with slack(2) Restricted old show False by simp
    qed
    with Restricted old grow show ?thesis
      by (intro exI [of _ "if T \<le> K + S then Weak_final else Restricted"]) (simp add: strong_transition_def q)
  next
    case Weak_achieved
    with old grow show ?thesis
      by (intro exI [of _ "if T \<le> S then Strong else Weak_achieved"]) (simp add: strong_transition_def q)
  next
    case Weak_final
    with old grow show ?thesis by (intro exI [of _ Weak_final]) (simp add: strong_transition_def)
  next
    case Strong
    with old grow show ?thesis by (intro exI [of _ Strong]) (simp add: strong_transition_def)
  qed
qed

lemma weak_transition_ok:
  assumes old: "state_ok (aggregating_state a) S K0 T m"
    and sums: "unat (strong_sum a) = S" "unat (weak_sum a) = K" "unat (quorum a) = T" "unat (max_weak_sum a) = m" "S + K < 2 ^ 64"
    and grow: "K0 \<le> K"
  shows "\<exists>st. weak_transition a = a\<lparr>aggregating_state := st\<rparr> \<and> state_ok st S K T m"
proof -
  have q: "quorum a \<le> weak_sum a + strong_sum a \<longleftrightarrow> T \<le> K + S" "max_weak_sum a \<le> weak_sum a \<longleftrightarrow> m \<le> K"
    "max_weak_sum a < weak_sum a \<longleftrightarrow> m < K"
    using sums by (simp_all add: word_le_nat_alt word_less_nat_alt unat_word_ariths)
  show ?thesis
  proof (cases "aggregating_state a")
    case Unrestricted
    with old grow show ?thesis
      by (intro exI [of _ "if T \<le> K + S then if m < K then Weak_final else Weak_achieved else if m < K then Restricted else Unrestricted"])
        (simp add: weak_transition_def Let_def q)
  next
    case Restricted
    with old grow show ?thesis
      by (intro exI [of _ "if T \<le> K + S then Weak_final else Restricted"]) (simp add: weak_transition_def Let_def q)
  next
    case Weak_achieved
    with old grow show ?thesis
      by (intro exI [of _ "if m \<le> K then Weak_final else Weak_achieved"]) (simp add: weak_transition_def q)
  next
    case Weak_final
    with old grow show ?thesis by (intro exI [of _ Weak_final]) (simp add: weak_transition_def)
  next
    case Strong
    with old grow show ?thesis by (intro exI [of _ Strong]) (simp add: weak_transition_def)
  qed
qed

lemma agg_add_strong:
  assumes inv: "agg_inv p a" and i: "i < length (fp_finalizers p)" and new: "i \<notin> strong_voters a \<union> weak_voters a"
  shows "\<exists>a'. add_strong_vote bls a i sg (fa_weight (fp_finalizers p ! i)) = Inr (Success, a') \<and> agg_inv p a' \<and>
     strong_voters a' = insert i (strong_voters a) \<and> weak_voters a' = weak_voters a \<and> received_qc_sig a' = received_qc_sig a"
proof -
  let ?w = "fa_weight (fp_finalizers p ! i)" and ?K = "weak_voters a"
  obtain v where v: "votes_add_vote bls (agg_strong_votes a) i sg = Inr v" "votes_ok p v"
    "voters (Some (v_bitset v)) = insert i (strong_voters a)"
    using votes_add_vote_ok [OF agg_invD(4) [OF inv] i] by blast
  let ?S = "voters (Some (v_bitset v))" and ?a = "a\<lparr>agg_strong_votes := v, strong_sum := strong_sum a + ?w\<rparr>"
  have disj: "?S \<inter> ?K = {}" using new agg_invD(6) [OF inv] unfolding v(3) by blast
  note b = weights_bounded [OF agg_invD(1) [OF inv] disj]
  have w: "weight_of p ?S = weight_of p (strong_voters a) + unat ?w"
    unfolding v(3) using new i by (intro weight_of_insert) blast+
  have sum: "unat (strong_sum ?a) = weight_of p ?S"
    using b(2) agg_invD(7) [OF inv] by (simp add: w unat_word_ariths del: voters_simps)
  obtain st where st: "strong_transition ?a = Inr (?a\<lparr>aggregating_state := st\<rparr>)"
    "state_ok st (weight_of p ?S) (weight_of p ?K) (unat (fp_threshold p)) (unat (max_weak_sum_before_weak_final p))"
  proof (rule exE [OF strong_transition_ok [of ?a "weight_of p (strong_voters a)" "weight_of p ?K"
        "unat (fp_threshold p)" "unat (max_weak_sum_before_weak_final p)" "weight_of p ?S" "total_weight p"]])
    show "state_ok (aggregating_state ?a) (weight_of p (strong_voters a)) (weight_of p ?K)
        (unat (fp_threshold p)) (unat (max_weak_sum_before_weak_final p))"
      using agg_invD(9) [OF inv] by (simp del: voters_simps)
    show "unat (weak_sum ?a) = weight_of p ?K" "unat (quorum ?a) = unat (fp_threshold p)"
      using agg_invD(2,8) [OF inv] by (simp_all del: voters_simps)
  qed (use sum b w max_weak_ge_slack [OF agg_invD(1) [OF inv]] in \<open>simp_all del: voters_simps\<close>)
  have "agg_inv p (?a\<lparr>aggregating_state := st\<rparr>)"
    using agg_invD [OF inv] v(2) disj sum st(2) unfolding agg_inv_def by (simp del: voters_simps)
  with v(1,3) st(1) show ?thesis by (simp add: add_strong_vote_def del: voters_simps)
qed

lemma agg_add_weak:
  assumes inv: "agg_inv p a" and i: "i < length (fp_finalizers p)" and new: "i \<notin> strong_voters a \<union> weak_voters a"
  shows "\<exists>a'. add_weak_vote bls a i sg (fa_weight (fp_finalizers p ! i)) = Inr (Success, a') \<and> agg_inv p a' \<and>
     strong_voters a' = strong_voters a \<and> weak_voters a' = insert i (weak_voters a) \<and> received_qc_sig a' = received_qc_sig a"
proof -
  let ?w = "fa_weight (fp_finalizers p ! i)" and ?S = "strong_voters a"
  obtain v where v: "votes_add_vote bls (agg_weak_votes a) i sg = Inr v" "votes_ok p v"
    "voters (Some (v_bitset v)) = insert i (weak_voters a)"
    using votes_add_vote_ok [OF agg_invD(5) [OF inv] i] by blast
  let ?K = "voters (Some (v_bitset v))" and ?a = "a\<lparr>agg_weak_votes := v, weak_sum := weak_sum a + ?w\<rparr>"
  have disj: "?S \<inter> ?K = {}" using new agg_invD(6) [OF inv] unfolding v(3) by blast
  note b = weights_bounded [OF agg_invD(1) [OF inv] disj]
  have w: "weight_of p ?K = weight_of p (weak_voters a) + unat ?w"
    unfolding v(3) using new i by (intro weight_of_insert) blast+
  have sum: "unat (weak_sum ?a) = weight_of p ?K"
    using b(2) agg_invD(8) [OF inv] by (simp add: w unat_word_ariths del: voters_simps)
  obtain st where st: "weak_transition ?a = ?a\<lparr>aggregating_state := st\<rparr>"
    "state_ok st (weight_of p ?S) (weight_of p ?K) (unat (fp_threshold p)) (unat (max_weak_sum_before_weak_final p))"
  proof (rule exE [OF weak_transition_ok [of ?a "weight_of p ?S" "weight_of p (weak_voters a)"
        "unat (fp_threshold p)" "unat (max_weak_sum_before_weak_final p)" "weight_of p ?K"]])
    show "state_ok (aggregating_state ?a) (weight_of p ?S) (weight_of p (weak_voters a))
        (unat (fp_threshold p)) (unat (max_weak_sum_before_weak_final p))"
      using agg_invD(9) [OF inv] by (simp del: voters_simps)
    show "unat (strong_sum ?a) = weight_of p ?S" "unat (quorum ?a) = unat (fp_threshold p)"
      "unat (max_weak_sum ?a) = unat (max_weak_sum_before_weak_final p)"
      using agg_invD(2,3,7) [OF inv] by (simp_all del: voters_simps)
  qed (use sum b w in \<open>simp_all del: voters_simps\<close>)
  have "agg_inv p (?a\<lparr>aggregating_state := st\<rparr>)"
    using agg_invD [OF inv] v(2) disj sum st(2) unfolding agg_inv_def by (simp del: voters_simps)
  with v(1,3) st(1) show ?thesis by (simp add: add_weak_vote_def del: voters_simps)
qed

text \<open>One vote for one policy, as the caller sees it.\<close>

lemma agg_add_vote_ok:
  assumes inv: "agg_inv p a" and i: "i < length (fp_finalizers p)"
  shows "\<exists>a'. agg_add_vote bls a strong i sg (fa_weight (fp_finalizers p ! i)) =
       Inr (if i \<in> strong_voters a \<union> weak_voters a then Duplicate else Success, a') \<and> agg_inv p a' \<and>
     received_qc_sig a' = received_qc_sig a \<and>
     (if i \<in> strong_voters a \<union> weak_voters a then a' = a
      else strong_voters a' = (if strong then insert i (strong_voters a) else strong_voters a) \<and>
           weak_voters a' = (if strong then weak_voters a else insert i (weak_voters a)))"
proof (cases "i \<in> strong_voters a \<union> weak_voters a")
  case True
  with inv check_duplicate_eq [OF assms] show ?thesis by (simp add: agg_add_vote_def del: voters_simps)
next
  case False
  with check_duplicate_eq [OF assms] agg_add_strong [OF assms False, of bls sg] agg_add_weak [OF assms False, of bls sg] show ?thesis
    by (cases strong) (auto simp add: agg_add_vote_def simp del: voters_simps)
qed

section \<open>Runs of the aggregation for one policy\<close>









section \<open>The votes for a block\<close>

definition policy_keys :: "finalizer_policy \<Rightarrow> bls_public_key set" where
  "policy_keys p = fa_public_key ` set (fp_finalizers p)"

text \<open>What a policy's aggregation has recorded for a key: \<open>Some True\<close> a strong vote, \<open>Some False\<close> a weak one.\<close>

definition policy_votes :: "finalizer_policy \<Rightarrow> aggregating_qc_sig_t \<Rightarrow> bls_public_key \<Rightarrow> bool option" where
  "policy_votes p a k = (case find_key k (fp_finalizers p) of
     None \<Rightarrow> None
   | Some i \<Rightarrow> if i \<in> strong_voters a then Some True else if i \<in> weak_voters a then Some False else None)"

definition aq_inv :: "aggregating_qc_t \<Rightarrow> bool" where
  "aq_inv q \<longleftrightarrow> agg_inv (aq_active_finalizer_policy q) (aq_active_policy_sig q) \<and>
     (case (aq_pending_finalizer_policy q, aq_pending_policy_sig q) of
        (None, None) \<Rightarrow> True
      | (Some pp, Some ps) \<Rightarrow> agg_inv pp ps \<and>
          (\<forall>k \<in> policy_keys (aq_active_finalizer_policy q) \<inter> policy_keys pp.
             policy_votes (aq_active_finalizer_policy q) (aq_active_policy_sig q) k = policy_votes pp ps k)
      | _ \<Rightarrow> False)"

text \<open>The abstract state of the votes for a block: the finalizers entitled to vote, and who voted how.\<close>

definition aq_keys :: "aggregating_qc_t \<Rightarrow> bls_public_key set" where
  "aq_keys q = policy_keys (aq_active_finalizer_policy q) \<union>
     (case aq_pending_finalizer_policy q of None \<Rightarrow> {} | Some pp \<Rightarrow> policy_keys pp)"

definition aq_votes :: "aggregating_qc_t \<Rightarrow> bls_public_key \<Rightarrow> bool option" where
  "aq_votes q k =
     (case policy_votes (aq_active_finalizer_policy q) (aq_active_policy_sig q) k of
        Some v \<Rightarrow> Some v
      | None \<Rightarrow> (case (aq_pending_finalizer_policy q, aq_pending_policy_sig q) of
          (Some pp, Some ps) \<Rightarrow> policy_votes pp ps k | _ \<Rightarrow> None))"

text \<open>The abstract operation: a vote counts once, for a known key with a valid signature.\<close>

definition vote_spec :: "bls_api \<Rightarrow> vote_message \<Rightarrow> byte list \<Rightarrow> bls_public_key set \<Rightarrow> (bls_public_key \<rightharpoonup> bool) \<Rightarrow>
    vote_result_t \<times> (bls_public_key \<rightharpoonup> bool)" where
  "vote_spec bls vote digest keys votes =
     (let k = vm_finalizer_key vote in
      if k \<notin> keys then (Unknown_public_key, votes)
      else if votes k \<noteq> None then (Duplicate, votes)
      else if \<not> api_verify bls k digest (vm_sig vote) then (Invalid_signature, votes)
      else (Success, votes(k \<mapsto> vm_strong vote)))"

lemma policy_votes_None_iff:
  "policy_votes p a k = None \<longleftrightarrow> (\<forall>i. find_key k (fp_finalizers p) = Some i \<longrightarrow> i \<notin> strong_voters a \<union> weak_voters a)"
  by (auto simp: policy_votes_def split: option.splits simp del: voters_simps)

lemma policy_votes_unknown: "k \<notin> policy_keys p \<Longrightarrow> policy_votes p a k = None"
  by (simp add: policy_votes_def policy_keys_def find_key_None [THEN iffD2])

lemma find_key_inj: "find_key k fs = Some i \<Longrightarrow> find_key l fs = Some i \<Longrightarrow> k = l"
  by (auto simp: find_key_Some)

lemma policy_votes_update:
  assumes "find_key k (fp_finalizers p) = Some i" and "i \<notin> strong_voters a \<union> weak_voters a"
    and "strong_voters a' = (if strong then insert i (strong_voters a) else strong_voters a)"
    and "weak_voters a' = (if strong then weak_voters a else insert i (weak_voters a))"
  shows "policy_votes p a' = (policy_votes p a)(k \<mapsto> strong)"
proof
  fix l
  show "policy_votes p a' l = ((policy_votes p a)(k \<mapsto> strong)) l"
  proof (cases "find_key l (fp_finalizers p) = Some i")
    case True
    with assms find_key_inj [OF True assms(1)] show ?thesis by (simp add: policy_votes_def del: voters_simps)
  next
    case False
    with assms have "l \<noteq> k" by auto
    with False show ?thesis
      by (cases "find_key l (fp_finalizers p)") (auto simp: policy_votes_def assms(3,4) simp del: voters_simps)
  qed
qed

definition pol_result :: "bool \<Rightarrow> finalizer_policy \<Rightarrow> aggregating_qc_sig_t \<Rightarrow> bls_public_key \<Rightarrow> vote_result_t" where
  "pol_result ok p a k = (if k \<notin> policy_keys p then Unknown_public_key else if policy_votes p a k \<noteq> None then Duplicate
     else if ok then Success else Invalid_signature)"

lemma policy_add_vote_ok:
  assumes inv: "agg_inv p a" and k_def: "k = vm_finalizer_key vote"
    and r_def: "r = pol_result (verified \<or> api_verify bls k digest (vm_sig vote)) p a k"
  shows "\<exists>auth a'. policy_add_vote bls vote digest verified p a = Inr (r, auth, verified \<or> r = Success, a') \<and>
     agg_inv p a' \<and>
     (if r = Success then policy_votes p a' = (policy_votes p a)(k \<mapsto> vm_strong vote) else a' = a)"
proof (cases "find_key k (fp_finalizers p)")
  case None
  then have "r = Unknown_public_key" by (simp add: r_def pol_result_def policy_keys_def flip: find_key_None)
  with None inv show ?thesis by (simp add: policy_add_vote_def k_def)
next
  case (Some i)
  then have i: "i < length (fp_finalizers p)" and k: "k \<in> policy_keys p"
    by (auto simp: find_key_Some policy_keys_def)
  show ?thesis
  proof (cases "i \<in> strong_voters a \<union> weak_voters a")
    case True
    then have "policy_votes p a k \<noteq> None" using Some by (auto simp: policy_votes_None_iff simp del: voters_simps)
    with Some True k inv agg_has_voted_eq [OF inv i] show ?thesis
      by (simp add: policy_add_vote_def r_def pol_result_def k_def [symmetric] Let_def del: voters_simps)
  next
    case False
    then have n: "policy_votes p a k = None" using Some by (auto simp: policy_votes_None_iff simp del: voters_simps)
    obtain a' where a': "agg_add_vote bls a (vm_strong vote) i (vm_sig vote) (fa_weight (fp_finalizers p ! i)) = Inr (Success, a')"
      "agg_inv p a'" "strong_voters a' = (if vm_strong vote then insert i (strong_voters a) else strong_voters a)"
      "weak_voters a' = (if vm_strong vote then weak_voters a else insert i (weak_voters a))"
      using agg_add_vote_ok [OF inv i, of bls "vm_strong vote" "vm_sig vote"] False by (auto simp del: voters_simps)
    from policy_votes_update [OF Some False a'(3,4)] a'(1,2) n k Some False inv agg_has_voted_eq [OF inv i]
    show ?thesis by (simp add: policy_add_vote_def r_def pol_result_def k_def [symmetric] Let_def del: voters_simps)
  qed
qed

lemma aq_invD:
  assumes "aq_inv q"
  shows "agg_inv (aq_active_finalizer_policy q) (aq_active_policy_sig q)"
    and "aq_pending_finalizer_policy q = None \<Longrightarrow> aq_pending_policy_sig q = None"
    and "aq_pending_finalizer_policy q = Some pp \<Longrightarrow> \<exists>ps. aq_pending_policy_sig q = Some ps \<and> agg_inv pp ps \<and>
      (\<forall>k \<in> policy_keys (aq_active_finalizer_policy q) \<inter> policy_keys pp.
         policy_votes (aq_active_finalizer_policy q) (aq_active_policy_sig q) k = policy_votes pp ps k)"
  using assms by (auto simp: aq_inv_def split: option.splits)

lemma aq_make_inv:
  assumes "policy_wf p" and "pred_option policy_wf pp"
  shows "\<exists>q. aq_make bls p pp = Inr q \<and> aq_inv q \<and> aq_votes q = Map.empty \<and>
    aq_active_finalizer_policy q = p \<and> aq_pending_finalizer_policy q = pp"
proof -
  have fresh: "policy_votes r a = Map.empty" if "strong_voters a = {}" "weak_voters a = {}" for r a
    using that by (auto simp: policy_votes_def fun_eq_iff split: option.splits simp del: voters_simps)
  obtain a where a: "agg_of_policy bls p = Inr a" "agg_inv p a" "strong_voters a = {}" "weak_voters a = {}"
    using agg_of_policy_inv [OF assms(1)] by blast
  show ?thesis
  proof (cases pp)
    case None
    with a fresh show ?thesis by (auto simp: aq_make_def aq_inv_def aq_votes_def fun_eq_iff simp del: voters_simps)
  next
    case (Some p')
    with assms(2) obtain b where b: "agg_of_policy bls p' = Inr b" "agg_inv p' b" "strong_voters b = {}" "weak_voters b = {}"
      using agg_of_policy_inv by auto blast
    with Some a fresh show ?thesis by (auto simp: aq_make_def aq_inv_def aq_votes_def fun_eq_iff simp del: voters_simps)
  qed
qed

lemma finalizer_has_voted_eq:
  assumes "agg_inv p a"
  shows "finalizer_has_voted p a k =
    Inr (if k \<notin> policy_keys p then Irrelevant_finalizer else if policy_votes p a k = None then Not_voted else Voted)"
proof (cases "find_key k (fp_finalizers p)")
  case None
  then show ?thesis by (simp add: finalizer_has_voted_def policy_keys_def flip: find_key_None)
next
  case (Some i)
  then have "i < length (fp_finalizers p)" "k \<in> policy_keys p" by (auto simp: find_key_Some policy_keys_def)
  with Some agg_has_voted_eq [OF assms, of i] show ?thesis
    by (auto simp: finalizer_has_voted_def policy_votes_def simp del: voters_simps)
qed

lemma aq_has_voted_eq:
  assumes "aq_inv q"
  shows "aq_has_voted q k =
    Inr (if k \<notin> aq_keys q then Irrelevant_finalizer else if aq_votes q k = None then Not_voted else Voted)"
proof (cases "aq_pending_finalizer_policy q")
  case None
  with aq_invD [OF assms] show ?thesis
    by (auto simp: aq_has_voted_def aq_keys_def aq_votes_def finalizer_has_voted_eq split: option.splits)
next
  case (Some pp)
  obtain ps where ps: "aq_pending_policy_sig q = Some ps" "agg_inv pp ps"
    "\<forall>k \<in> policy_keys (aq_active_finalizer_policy q) \<inter> policy_keys pp.
       policy_votes (aq_active_finalizer_policy q) (aq_active_policy_sig q) k = policy_votes pp ps k"
    using aq_invD(3) [OF assms Some] by blast
  then show ?thesis
    using Some finalizer_has_voted_eq [OF aq_invD(1) [OF assms], of k] finalizer_has_voted_eq [OF ps(2), of k]
      policy_votes_unknown [of k pp ps] policy_votes_unknown [of k "aq_active_finalizer_policy q" "aq_active_policy_sig q"]
    by (auto simp: aq_has_voted_def aq_keys_def aq_votes_def split: option.splits)
qed

lemma aggregate_vote_pending:
  assumes inv: "aq_inv q" and pp: "aq_pending_finalizer_policy q = Some pp"
  shows "\<exists>res q'. aggregate_vote bls q vote digest = Inr (res, q') \<and> aq_inv q' \<and> aq_keys q' = aq_keys q \<and>
     (avr_result res, aq_votes q') = vote_spec bls vote digest (aq_keys q) (aq_votes q)"
proof -
  define p a k ok where pa: "p = aq_active_finalizer_policy q" "a = aq_active_policy_sig q"
    and k: "k = vm_finalizer_key vote" and ok: "ok = api_verify bls k digest (vm_sig vote)"
  have ai: "agg_inv p a" using aq_invD(1) [OF inv] by (simp add: pa)
  obtain ps where ps: "aq_pending_policy_sig q = Some ps" "agg_inv pp ps"
    and dual: "\<And>k. k \<in> policy_keys p \<Longrightarrow> k \<in> policy_keys pp \<Longrightarrow> policy_votes p a k = policy_votes pp ps k"
    using aq_invD(3) [OF inv pp] by (auto simp: pa)
  define r where r: "r = pol_result ok p a k"
  define s where s: "s = pol_result (r = Success \<or> ok) pp ps k"
  obtain auth a' where a': "policy_add_vote bls vote digest False p a = Inr (r, auth, r = Success, a')" "agg_inv p a'"
      "if r = Success then policy_votes p a' = (policy_votes p a)(k \<mapsto> vm_strong vote) else a' = a"
    using policy_add_vote_ok [OF ai k, of r False bls digest] r ok by auto
  obtain auth' b where b: "policy_add_vote bls vote digest (r = Success) pp ps = Inr (s, auth', r = Success \<or> s = Success, b)"
      "agg_inv pp b" "if s = Success then policy_votes pp b = (policy_votes pp ps)(k \<mapsto> vm_strong vote) else b = ps"
    using policy_add_vote_ok [OF ps(2) k, of s "r = Success" bls digest] s ok by auto
  have un: "k \<notin> policy_keys p \<Longrightarrow> policy_votes p a k = None" "k \<notin> policy_keys pp \<Longrightarrow> policy_votes pp ps k = None"
    by (simp_all add: policy_votes_unknown)
  show ?thesis
  proof (cases "r \<noteq> Success \<and> r \<noteq> Unknown_public_key")
    case True
    with a' inv r ok k un dual [of k] pp ps pa(1) pa(2) show ?thesis
      by (cases "k \<in> policy_keys pp")
        (auto simp: aggregate_vote_def vote_spec_def aq_keys_def aq_votes_def pol_result_def Let_def split: if_splits)
  next
    case False
    let ?q = "q\<lparr>aq_active_policy_sig := a', aq_pending_policy_sig := Some b\<rparr>"
    have run: "\<exists>res. aggregate_vote bls q vote digest = Inr (res, ?q) \<and> avr_result res = (if s \<noteq> Unknown_public_key then s else r)"
      using a'(1) b(1) ps(1) pp pa(1) pa(2) False by (auto simp: aggregate_vote_def)
    have same: "policy_votes p a' l = policy_votes pp b l" if l: "l \<in> policy_keys p" "l \<in> policy_keys pp" for l
      using False a'(3) b(3) dual [OF l] l un dual [of k] r s by (auto simp: pol_result_def split: if_splits)
    have "aq_inv ?q" using a'(2) b(2) same pp pa(1) by (simp add: aq_inv_def)
    moreover have "((if s \<noteq> Unknown_public_key then s else r), aq_votes ?q) = vote_spec bls vote digest (aq_keys q) (aq_votes q)"
      using False a'(3) b(3) un dual [of k] r s ok k pp ps(1) pa(1) pa(2)
      by (auto simp: vote_spec_def aq_keys_def aq_votes_def pol_result_def Let_def fun_eq_iff split: if_splits option.splits)
    ultimately show ?thesis using run by (auto simp: aq_keys_def)
  qed
qed

lemma aggregate_vote_active:
  assumes inv: "aq_inv q" and pp: "aq_pending_finalizer_policy q = None"
  shows "\<exists>res q'. aggregate_vote bls q vote digest = Inr (res, q') \<and> aq_inv q' \<and> aq_keys q' = aq_keys q \<and>
     (avr_result res, aq_votes q') = vote_spec bls vote digest (aq_keys q) (aq_votes q)"
proof -
  let ?p = "aq_active_finalizer_policy q" and ?a = "aq_active_policy_sig q" and ?k = "vm_finalizer_key vote"
  define r where r: "r = pol_result (api_verify bls ?k digest (vm_sig vote)) ?p ?a ?k"
  obtain auth a' where a': "policy_add_vote bls vote digest False ?p ?a = Inr (r, auth, r = Success, a')" "agg_inv ?p a'"
      "if r = Success then policy_votes ?p a' = (policy_votes ?p ?a)(?k \<mapsto> vm_strong vote) else a' = ?a"
    using policy_add_vote_ok [OF aq_invD(1) [OF inv] refl, of r False bls vote digest] r by auto
  let ?q = "q\<lparr>aq_active_policy_sig := a'\<rparr>"
  have "aq_inv ?q" using a'(2) aq_invD(2) [OF inv pp] pp by (simp add: aq_inv_def)
  moreover have "\<exists>res. aggregate_vote bls q vote digest = Inr (res, ?q) \<and> avr_result res = r"
    using a'(1) pp by (auto simp: aggregate_vote_def Let_def)
  moreover have "(r, aq_votes ?q) = vote_spec bls vote digest (aq_keys q) (aq_votes q)"
    using a'(3) r pp by (auto simp: vote_spec_def aq_keys_def aq_votes_def pol_result_def Let_def fun_eq_iff split: if_splits option.splits)
  ultimately show ?thesis by (auto simp: aq_keys_def)
qed

text \<open>
  C30: Aggregating a vote for a block refines the abstract vote box: a vote is counted exactly once,
  for a finalizer of the active or the pending policy, with a valid signature; a finalizer in both
  policies gets the same vote in both; every other vote is reported (unknown key, duplicate, invalid
  signature) and changes nothing; no run fails; and \<open>has_voted\<close> answers from the recorded votes.
\<close>

theorem aggregate_vote_refines_spec:
  assumes "aq_inv q"
  shows "\<exists>res q'. aggregate_vote bls q vote digest = Inr (res, q') \<and> aq_inv q' \<and> aq_keys q' = aq_keys q \<and>
     (avr_result res, aq_votes q') = vote_spec bls vote digest (aq_keys q) (aq_votes q) \<and>
     aq_has_voted q' k = Inr (if k \<notin> aq_keys q then Irrelevant_finalizer else if aq_votes q' k = None then Not_voted else Voted)"
proof -
  obtain res q' where q': "aggregate_vote bls q vote digest = Inr (res, q')" "aq_inv q'" "aq_keys q' = aq_keys q"
    "(avr_result res, aq_votes q') = vote_spec bls vote digest (aq_keys q) (aq_votes q)"
    using aggregate_vote_active [OF assms, of bls vote digest] aggregate_vote_pending [OF assms, of _ bls vote digest] by blast
  with aq_has_voted_eq [OF q'(2), of k] show ?thesis by (intro exI [of _ res] exI [of _ q']) simp
qed

section \<open>Concrete runs\<close>

text \<open>A BLS interface in which every signature is valid, and the votes given as positions or keys.\<close>

definition sample_bls :: bls_api where
  "sample_bls = \<lparr>api_verify = (\<lambda>_ _ _. True), api_aggregate = (\<lambda>a b. a @ b), api_zero = [],
     api_aggregate_public_keys = concat, api_aggregate_verify = (\<lambda>_ _ _. True)\<rparr>"


definition sample_vote :: "byte \<Rightarrow> bool \<Rightarrow> vote_message" where
  "sample_vote k strong = \<lparr>vm_block_id = sha256_zero, vm_strong = strong, vm_finalizer_key = replicate 96 k, vm_sig = []\<rparr>"







theorem aggregate_vote_refines_spec_witness:
  "\<exists>q res q'. aq_make sample_bls sample_policy (Some sample_pending) = Inr q \<and>
     aggregate_vote sample_bls q (sample_vote 4 True) [] = Inr (res, q') \<and> avr_result res = Success \<and>
     aq_has_voted q' (replicate 96 4) = Inr Voted"
proof -
  obtain q where q: "aq_make sample_bls sample_policy (Some sample_pending) = Inr q" "aq_inv q" "aq_votes q = Map.empty"
    "aq_active_finalizer_policy q = sample_policy"
    using aq_make_inv [of sample_policy "Some sample_pending"] sample_policy_wf sample_pending_wf by auto
  then have k: "replicate 96 4 \<in> aq_keys q"
    by (simp add: aq_keys_def policy_keys_def sample_policy_def sample_finalizer_def)
  obtain res q' where r: "aggregate_vote sample_bls q (sample_vote 4 True) [] = Inr (res, q')" "aq_keys q' = aq_keys q"
    "(avr_result res, aq_votes q') = vote_spec sample_bls (sample_vote 4 True) [] (aq_keys q) (aq_votes q)"
    "aq_has_voted q' (replicate 96 4) = Inr (if replicate 96 4 \<notin> aq_keys q then Irrelevant_finalizer
       else if aq_votes q' (replicate 96 4) = None then Not_voted else Voted)"
    using aggregate_vote_refines_spec [OF q(2), of sample_bls "sample_vote 4 True" "[]" "replicate 96 4"] by blast
  with q k show ?thesis by (auto simp: vote_spec_def sample_vote_def sample_bls_def Let_def)
qed






end
