(* ===== verification/Qc_Metrics.thy ===== *)
theory Qc_Metrics
  imports Qc_Aggregate
begin

text \<open>
  The reports on a certificate: \<open>vote_metrics\<close> sorts the finalizers of both policies into strong,
  weak and missing votes, \<open>missing_votes\<close> computes the last group by a second algorithm.
\<close>

section \<open>The sets as maps from keys\<close>

definition pol_map :: "finalizer_policy \<Rightarrow> nat set \<Rightarrow> fin_auth_set_t" where
  "pol_map p V k = (case find_key k (fp_finalizers p) of
     None \<Rightarrow> None | Some i \<Rightarrow> if i \<in> V then Some (policy_fin_auth p i) else None)"




lemma pol_map_empty [simp]: "pol_map p {} ++ r = r"
  by (auto simp: pol_map_def map_add_def fun_eq_iff split: option.splits)





section \<open>The two reports agree\<close>











end
