(* ===== verification/Proposer_Policy.thy ===== *)
theory Proposer_Policy
  imports Ordered_Diff
begin

text \<open>
  Block producers: keys and block signing authorities, the producer schedule and its round robin
  (\<open>producer_schedule.hpp\<close>, \<open>block_header_state_utils.hpp\<close>), and the proposer policy with its
  differences (\<open>proposer_policy.hpp\<close>).
\<close>

type_synonym account_name = "64 word"

section \<open>Keys and signing authorities\<close>

text \<open>\<open>fc::crypto::public_key\<close>: one alternative per curve, with the bytes of the key.\<close>

datatype public_key_type =
    PUB_K1 "byte list"
  | PUB_R1 "byte list"
  | PUB_WA "byte list" byte string
  | PUB_EM "byte list"
  | PUB_ED "byte list"

record key_weight =
  kw_key :: public_key_type
  kw_weight :: "16 word"

datatype block_signing_authority =
  Block_signing_authority_v0 (bsa_threshold: "32 word") (bsa_keys: "key_weight list")

text \<open>
  The loop of \<open>keys_satisfy_and_relevant\<close>: the number of presented keys among those of the authority,
  and their weight, added with saturation and only while it is below the threshold.
\<close>

fun satisfy_loop :: "public_key_type set \<Rightarrow> 32 word \<Rightarrow> key_weight list \<Rightarrow> nat \<Rightarrow> 32 word \<Rightarrow> nat \<times> 32 word" where
  "satisfy_loop presented threshold [] relevant wsum = (relevant, wsum)"
| "satisfy_loop presented threshold (kw # kws) relevant wsum =
     (if kw_key kw \<in> presented then
        satisfy_loop presented threshold kws (relevant + 1)
          (if wsum < threshold then wsum + min (0xffffffff - wsum) (ucast (kw_weight kw)) else wsum)
      else satisfy_loop presented threshold kws relevant wsum)"

definition keys_satisfy_and_relevant :: "public_key_type set \<Rightarrow> block_signing_authority \<Rightarrow> bool \<times> nat" where
  "keys_satisfy_and_relevant presented a =
     (let (relevant, wsum) = satisfy_loop presented (bsa_threshold a) (bsa_keys a) 0 0
      in (bsa_threshold a \<le> wsum, relevant))"

section \<open>Schedules\<close>

record producer_authority =
  pa_producer_name :: account_name
  pa_authority :: block_signing_authority

record producer_authority_schedule =
  sched_version :: "32 word"
  sched_producers :: "producer_authority list"

text \<open>The legacy schedule of the header field \<open>new_producers\<close>, and its up-conversion.\<close>

record producer_key =
  pk_producer_name :: account_name
  pk_block_signing_key :: public_key_type

record legacy_producer_schedule =
  legacy_version :: "32 word"
  legacy_producers :: "producer_key list"

definition schedule_of_legacy :: "legacy_producer_schedule \<Rightarrow> producer_authority_schedule" where
  "schedule_of_legacy old = \<lparr>sched_version = legacy_version old,
     sched_producers = map (\<lambda>p. \<lparr>pa_producer_name = pk_producer_name p,
       pa_authority = Block_signing_authority_v0 1 [\<lparr>kw_key = pk_block_signing_key p, kw_weight = 1\<rparr>]\<rparr>) (legacy_producers old)\<rparr>"

text \<open>The remainder by zero for an empty schedule has no defined result.\<close>

definition get_scheduled_producer :: "producer_authority list \<Rightarrow> block_timestamp_type \<Rightarrow> producer_authority res" where
  "get_scheduled_producer producers t =
     ensure (producers \<noteq> []) Assert_failed (
     let index = unat t mod (length producers * unat producer_repetitions) in
     vec_at producers (index div unat producer_repetitions))"

section \<open>Proposer policies\<close>

record proposer_policy_diff =
  ppd_version :: "32 word"
  ppd_proposal_time :: block_timestamp_type
  producer_auth_diff :: "producer_authority diff_result"

record proposer_policy =
  proposal_time :: block_timestamp_type
  proposer_schedule :: producer_authority_schedule

definition pp_create_diff :: "proposer_policy \<Rightarrow> proposer_policy \<Rightarrow> proposer_policy_diff res" where
  "pp_create_diff p target =
     rbind (ordered_diff (sched_producers (proposer_schedule p)) (sched_producers (proposer_schedule target))) (\<lambda>d.
     Inr \<lparr>ppd_version = sched_version (proposer_schedule target), ppd_proposal_time = proposal_time target, producer_auth_diff = d\<rparr>)"

definition pp_apply_diff :: "proposer_policy \<Rightarrow> proposer_policy_diff \<Rightarrow> proposer_policy res" where
  "pp_apply_diff p d =
     rbind (ordered_apply_diff (sched_producers (proposer_schedule p)) (producer_auth_diff d)) (\<lambda>ps.
     Inr \<lparr>proposal_time = ppd_proposal_time d, proposer_schedule = \<lparr>sched_version = ppd_version d, sched_producers = ps\<rparr>\<rparr>)"

definition max_proposers :: nat where
  "max_proposers = 64 * 1024"

lemma proposer_diff_roundtrip:
  assumes "length (sched_producers (proposer_schedule p)) \<le> max_proposers"
    and "length (sched_producers (proposer_schedule q)) \<le> max_proposers"
  shows "\<exists>d. pp_create_diff p q = Inr d \<and> pp_apply_diff p d = Inr q"
  using od.diff_apply [of "sched_producers (proposer_schedule p)" "sched_producers (proposer_schedule q)"] assms
  by (auto simp: pp_create_diff_def pp_apply_diff_def max_proposers_def)

section \<open>A signing authority is satisfied by enough weight\<close>

abbreviation presented_weight :: "public_key_type set \<Rightarrow> key_weight list \<Rightarrow> nat" where
  "presented_weight K kws \<equiv> sum_list (map (\<lambda>kw. if kw_key kw \<in> K then unat (kw_weight kw) else 0) kws)"

lemma saturating_add:
  "unat (wsum + min (0xffffffff - wsum) (ucast (w :: 16 word)) :: 32 word) = min (2 ^ 32 - 1) (unat wsum + unat w)"
proof -
  have t: "unat wsum < 2 ^ 32" using unsigned_less [of wsum] by simp
  have a: "unat (0xffffffff - wsum) = 2 ^ 32 - 1 - unat wsum"
    using t by (simp add: unat_sub_if')
  have "unat w < 2 ^ 16" using unsigned_less [of w] by simp
  then have "unat w < 2 ^ 32" by simp
  then have w: "unat (ucast w :: 32 word) = unat w" by (simp add: unsigned_ucast_eq take_bit_nat_eq_self)
  have "unat (min (0xffffffff - wsum) (ucast w) :: 32 word) = min (2 ^ 32 - 1 - unat wsum) (unat w)"
    using a w by (simp add: min_def word_le_nat_alt)
  moreover have "unat wsum + min (2 ^ 32 - 1 - unat wsum) (unat w) = min (2 ^ 32 - 1) (unat wsum + unat w)"
    using t by (auto simp: min_def)
  ultimately show ?thesis using t by (simp add: unat_word_ariths)
qed

lemma satisfy_loop_weight:
  "threshold \<le> snd (satisfy_loop K threshold kws r wsum) \<longleftrightarrow> unat threshold \<le> unat wsum + presented_weight K kws"
proof (induction kws arbitrary: r wsum)
  case (Cons kw kws)
  have "unat threshold < 2 ^ 32" using unsigned_less [of threshold] by simp
  then show ?case
    by (cases "wsum < threshold") (simp_all add: Cons saturating_add, simp_all add: word_less_nat_alt min_def add.assoc)
qed (simp add: word_le_nat_alt)

lemma satisfy_loop_count:
  "fst (satisfy_loop K threshold kws r wsum) = r + length (filter (\<lambda>kw. kw_key kw \<in> K) kws)"
  by (induction kws arbitrary: r wsum) simp_all

lemma keys_satisfy_iff:
  "keys_satisfy_and_relevant K a =
     (unat (bsa_threshold a) \<le> presented_weight K (bsa_keys a), length (filter (\<lambda>kw. kw_key kw \<in> K) (bsa_keys a)))"
  by (simp add: keys_satisfy_and_relevant_def case_prod_beta satisfy_loop_weight satisfy_loop_count)

section \<open>The round robin\<close>

lemma producer_repetitions_nat [simp]: "unat producer_repetitions = 12"
  by (simp add: producer_repetitions_def)

lemma get_scheduled_producer_eq:
  assumes "ps \<noteq> []"
  shows "get_scheduled_producer ps t = Inr (ps ! (unat t div 12 mod length ps))"
proof -
  have "unat t mod (length ps * 12) div 12 = unat t div 12 mod length ps"
    using mod_mult2_eq [of "unat t" 12 "length ps"] by (simp add: mult.commute)
  moreover have "unat t div 12 mod length ps < length ps" using assms by simp
  ultimately show ?thesis using assms by (simp add: get_scheduled_producer_def Let_def)
qed

end
