(* ===== verification/Header_Codec.thy ===== *)
theory Header_Codec
  imports Proposer_Policy Finalizer_Policy Finality_Core Raw_Codec
begin

text \<open>
  The binary form of the structures that block headers carry: reflected structures are their fields
  in sequence (\<open>FC_REFLECT\<close>), a variant is its index and its value, keys have their own operators.
  Every pair below obeys the contract \<open>codec\<close>.

  \<open>g1_ok\<close> stands for \<open>bls12_381::g1::fromAffineBytesLE\<close> of the BLS library: whether 96 bytes
  are a point of the group.
\<close>

section \<open>Combinators\<close>

definition pack_map :: "('a \<Rightarrow> 'b) \<Rightarrow> ('b \<Rightarrow> byte list res) \<Rightarrow> 'a \<Rightarrow> byte list res" where
  "pack_map f p x = p (f x)"

definition unpack_map :: "('b \<Rightarrow> 'a res) \<Rightarrow> (byte list \<Rightarrow> ('b \<times> byte list) res) \<Rightarrow> byte list \<Rightarrow> ('a \<times> byte list) res" where
  "unpack_map g u s = rbind (u s) (\<lambda>(y, s1). rbind (g y) (\<lambda>x. Inr (x, s1)))"

lemma codec_map:
  assumes "codec p u v" and "\<And>x. w x \<Longrightarrow> v (f x) \<and> g (f x) = Inr x"
  shows "codec (pack_map f p) (unpack_map g u) w"
proof unfold_locales
  fix x bs rest assume "w x" and "pack_map f p x = Inr bs"
  with assms(2) [OF \<open>w x\<close>] codec.unpack_pack [OF assms(1), of "f x" bs rest]
  show "unpack_map g u (bs @ rest) = Inr (x, rest)" by (simp add: pack_map_def unpack_map_def)
qed

lemma codec_weaken: "codec p u v \<Longrightarrow> (\<And>x. w x \<Longrightarrow> v x) \<Longrightarrow> codec p u w"
  unfolding codec_def by blast

definition max_size_of_byte_arrays :: nat where
  "max_size_of_byte_arrays = 20 * 1024 * 1024"

lemma le_max_byte_arrays [code_unfold]: "n \<le> max_size_of_byte_arrays \<longleftrightarrow> int n \<le> 20971520"
  by (simp add: max_size_of_byte_arrays_def)

text \<open>\<open>std::vector<char>\<close>\<close>

definition pack_chars :: "byte list \<Rightarrow> byte list res" where
  "pack_chars v =
     ensure (length v \<le> max_size_of_byte_arrays) Fc_assert_exception (
     rbind (pack_varint (of_nat (length v))) (\<lambda>n. Inr (n @ v)))"

definition unpack_chars :: "byte list \<Rightarrow> (byte list \<times> byte list) res" where
  "unpack_chars s = rbind (unpack_varint s) (\<lambda>(size, s1).
     ensure (unat size \<le> max_size_of_byte_arrays) Fc_assert_exception (ds_read (unat size) s1))"

interpretation chars: codec pack_chars unpack_chars "\<lambda>_. True"
proof unfold_locales
  fix x bs rest assume "pack_chars x = Inr bs"
  then obtain n where len: "length x \<le> max_size_of_byte_arrays" and n: "pack_varint (of_nat (length x)) = Inr n" and bs: "bs = n @ x"
    by (auto simp: pack_chars_def res_simps)
  have "unat (of_nat (length x) :: 32 word) = length x" using len by (simp add: unat_of_nat max_size_of_byte_arrays_def)
  with len varint.unpack_pack [OF _ n, of "x @ rest"] show "unpack_chars (bs @ rest) = Inr (x, rest)"
    by (simp add: unpack_chars_def bs)
qed

definition byte_of_char :: "char \<Rightarrow> byte" where
  "byte_of_char c = of_nat (of_char c)"

definition char_of_byte :: "byte \<Rightarrow> char" where
  "char_of_byte b = char_of (unat b)"

definition pack_string :: "string \<Rightarrow> byte list res" where
  "pack_string = pack_map (map byte_of_char) pack_chars"

definition unpack_string :: "byte list \<Rightarrow> (string \<times> byte list) res" where
  "unpack_string = unpack_map (\<lambda>bs. Inr (map char_of_byte bs)) unpack_chars"

lemma char_of_byte_of_char [simp]: "char_of_byte (byte_of_char c) = c"
proof -
  have "(of_char c :: nat) < 256" by simp
  then show ?thesis by (simp add: char_of_byte_def byte_of_char_def unat_of_nat del: nat_of_char_less_256)
qed

interpretation str: codec pack_string unpack_string "\<lambda>_. True"
  unfolding pack_string_def unpack_string_def
  by (rule codec_map [OF chars.codec_axioms]) (simp add: o_def)

section \<open>Keys and authorities\<close>

definition pack_bls_public_key :: "bls_public_key \<Rightarrow> byte list res" where
  "pack_bls_public_key k = rbind (pack_varint 96) (\<lambda>n. Inr (n @ k))"

definition unpack_bls_public_key :: "(byte list \<Rightarrow> bool) \<Rightarrow> byte list \<Rightarrow> (bls_public_key \<times> byte list) res" where
  "unpack_bls_public_key g1_ok s = rbind (unpack_varint s) (\<lambda>(size, s1).
     ensure (size = 96) Fc_assert_exception (
     rbind (ds_read 96 s1) (\<lambda>(k, s2).
     ensure (g1_ok k) Fc_assert_exception (Inr (k, s2)))))"

lemma codec_bls_public_key: "codec pack_bls_public_key (unpack_bls_public_key g1_ok) (\<lambda>k. length k = 96 \<and> g1_ok k)"
proof unfold_locales
  fix x bs rest assume v: "length x = 96 \<and> g1_ok x" and "pack_bls_public_key x = Inr bs"
  then obtain n where n: "pack_varint 96 = Inr n" and bs: "bs = n @ x" by (auto simp: pack_bls_public_key_def res_simps)
  from v varint.unpack_pack [OF _ n, of "x @ rest"] show "unpack_bls_public_key g1_ok (bs @ rest) = Inr (x, rest)"
    by (simp add: unpack_bls_public_key_def bs)
qed

definition pack_webauthn :: "byte list \<times> byte \<times> string \<Rightarrow> byte list res" where
  "pack_webauthn = pack_pair (pack_bytes 33) (pack_pair pack_u8 pack_string)"

definition unpack_webauthn :: "byte list \<Rightarrow> ((byte list \<times> byte \<times> string) \<times> byte list) res" where
  "unpack_webauthn = unpack_map (\<lambda>k. ensure (snd (snd k) \<noteq> []) Fc_assert_exception (Inr k))
     (unpack_pair (unpack_bytes 33) (unpack_pair unpack_u8 unpack_string))"

fun pack_public_key :: "public_key_type \<Rightarrow> byte list res" where
  "pack_public_key (PUB_K1 d) = rbind (pack_varint 0) (\<lambda>n. rbind (pack_bytes 33 d) (\<lambda>b. Inr (n @ b)))"
| "pack_public_key (PUB_R1 d) = rbind (pack_varint 1) (\<lambda>n. rbind (pack_bytes 33 d) (\<lambda>b. Inr (n @ b)))"
| "pack_public_key (PUB_WA d t r) = rbind (pack_varint 2) (\<lambda>n. rbind (pack_webauthn (d, t, r)) (\<lambda>b. Inr (n @ b)))"
| "pack_public_key (PUB_EM d) = rbind (pack_varint 3) (\<lambda>n. rbind (pack_bytes 33 d) (\<lambda>b. Inr (n @ b)))"
| "pack_public_key (PUB_ED d) = rbind (pack_varint 4) (\<lambda>n. rbind (pack_bytes 32 d) (\<lambda>b. Inr (n @ b)))"

definition unpack_public_key :: "byte list \<Rightarrow> (public_key_type \<times> byte list) res" where
  "unpack_public_key s = rbind (unpack_varint s) (\<lambda>(w, s1).
     if w = 0 then unpack_map (\<lambda>d. Inr (PUB_K1 d)) (unpack_bytes 33) s1
     else if w = 1 then unpack_map (\<lambda>d. Inr (PUB_R1 d)) (unpack_bytes 33) s1
     else if w = 2 then unpack_map (\<lambda>(d, t, r). Inr (PUB_WA d t r)) unpack_webauthn s1
     else if w = 3 then unpack_map (\<lambda>d. Inr (PUB_EM d)) (unpack_bytes 33) s1
     else if w = 4 then unpack_map (\<lambda>d. Inr (PUB_ED d)) (unpack_bytes 32) s1
     else Inl Fc_assert_exception)"

fun public_key_ok :: "public_key_type \<Rightarrow> bool" where
  "public_key_ok (PUB_K1 d) \<longleftrightarrow> length d = 33"
| "public_key_ok (PUB_R1 d) \<longleftrightarrow> length d = 33"
| "public_key_ok (PUB_WA d t r) \<longleftrightarrow> length d = 33 \<and> r \<noteq> []"
| "public_key_ok (PUB_EM d) \<longleftrightarrow> length d = 33"
| "public_key_ok (PUB_ED d) \<longleftrightarrow> length d = 32"

lemma codec_check:
  assumes "codec p u v" and "\<And>x. w x \<Longrightarrow> v x \<and> c x"
  shows "codec p (unpack_map (\<lambda>x. ensure (c x) e (Inr x)) u) w"
proof -
  have "pack_map (\<lambda>x. x) p = p" by (simp add: pack_map_def fun_eq_iff)
  with codec_map [OF assms(1), of w "\<lambda>x. x" "\<lambda>x. ensure (c x) e (Inr x)"] assms(2) show ?thesis by simp
qed

lemma webauthn_codec: "codec pack_webauthn unpack_webauthn (\<lambda>k. length (fst k) = 33 \<and> snd (snd k) \<noteq> [])"
  unfolding unpack_webauthn_def pack_webauthn_def
  by (rule codec_check [OF codec_pair [OF bytes_c.codec_axioms codec_pair [OF u8.codec_axioms str.codec_axioms]]]) simp

lemma webauthn_unpack:
  "length d = 33 \<Longrightarrow> r \<noteq> [] \<Longrightarrow> pack_webauthn (d, t, r) = Inr b \<Longrightarrow> unpack_webauthn (b @ rest) = Inr ((d, t, r), rest)"
  by (rule codec.unpack_pack [OF webauthn_codec]) simp_all

lemma tagged_value:
  assumes "rbind (pack_varint w) (\<lambda>n. rbind m (\<lambda>b. Inr (n @ b))) = Inr bs"
  shows "\<exists>b. m = Inr b \<and> unpack_varint (bs @ rest) = Inr (w, b @ rest)"
  using assms varint.unpack_pack by (auto simp: res_simps)

interpretation pubkey: codec pack_public_key unpack_public_key public_key_ok
proof unfold_locales
  fix x bs rest assume "public_key_ok x" and "pack_public_key x = Inr bs"
  then show "unpack_public_key (bs @ rest) = Inr (x, rest)"
    by (cases x) (auto dest!: tagged_value [where rest = rest] simp: unpack_public_key_def unpack_map_def
        bytes_c.unpack_pack webauthn_unpack)
qed

definition pack_key_weight :: "key_weight \<Rightarrow> byte list res" where
  "pack_key_weight = pack_map (\<lambda>kw. (kw_key kw, kw_weight kw)) (pack_pair pack_public_key pack_u16)"

definition unpack_key_weight :: "byte list \<Rightarrow> (key_weight \<times> byte list) res" where
  "unpack_key_weight = unpack_map (\<lambda>(k, w). Inr \<lparr>kw_key = k, kw_weight = w\<rparr>) (unpack_pair unpack_public_key unpack_u16)"

definition pack_signing_authority :: "block_signing_authority \<Rightarrow> byte list res" where
  "pack_signing_authority a = rbind (pack_varint 0) (\<lambda>n.
     rbind (pack_pair pack_u32 (pack_vector pack_key_weight) (bsa_threshold a, bsa_keys a)) (\<lambda>b. Inr (n @ b)))"

definition unpack_signing_authority :: "byte list \<Rightarrow> (block_signing_authority \<times> byte list) res" where
  "unpack_signing_authority s = rbind (unpack_varint s) (\<lambda>(w, s1).
     if w = 0 then unpack_map (\<lambda>(t, ks). Inr (Block_signing_authority_v0 t ks)) (unpack_pair unpack_u32 (unpack_vector unpack_key_weight)) s1
     else Inl Fc_assert_exception)"

definition pack_producer_authority :: "producer_authority \<Rightarrow> byte list res" where
  "pack_producer_authority = pack_map (\<lambda>p. (pa_producer_name p, pa_authority p)) (pack_pair pack_u64 pack_signing_authority)"

definition unpack_producer_authority :: "byte list \<Rightarrow> (producer_authority \<times> byte list) res" where
  "unpack_producer_authority = unpack_map (\<lambda>(n, a). Inr \<lparr>pa_producer_name = n, pa_authority = a\<rparr>) (unpack_pair unpack_u64 unpack_signing_authority)"

definition pack_schedule :: "producer_authority_schedule \<Rightarrow> byte list res" where
  "pack_schedule = pack_map (\<lambda>s. (sched_version s, sched_producers s)) (pack_pair pack_u32 (pack_vector pack_producer_authority))"

definition unpack_schedule :: "byte list \<Rightarrow> (producer_authority_schedule \<times> byte list) res" where
  "unpack_schedule = unpack_map (\<lambda>(v, ps). Inr \<lparr>sched_version = v, sched_producers = ps\<rparr>) (unpack_pair unpack_u32 (unpack_vector unpack_producer_authority))"

definition pack_finalizer_authority :: "finalizer_authority \<Rightarrow> byte list res" where
  "pack_finalizer_authority = pack_map (\<lambda>f. (fa_description f, fa_weight f, fa_public_key f))
     (pack_pair pack_string (pack_pair pack_u64 pack_bls_public_key))"

definition unpack_finalizer_authority :: "(byte list \<Rightarrow> bool) \<Rightarrow> byte list \<Rightarrow> (finalizer_authority \<times> byte list) res" where
  "unpack_finalizer_authority g1_ok = unpack_map (\<lambda>(d, w, k). Inr \<lparr>fa_description = d, fa_weight = w, fa_public_key = k\<rparr>)
     (unpack_pair unpack_string (unpack_pair unpack_u64 (unpack_bls_public_key g1_ok)))"

definition authority_ok :: "block_signing_authority \<Rightarrow> bool" where
  "authority_ok a \<longleftrightarrow> list_all (\<lambda>kw. public_key_ok (kw_key kw)) (bsa_keys a)"

definition finalizer_ok :: "(byte list \<Rightarrow> bool) \<Rightarrow> finalizer_authority \<Rightarrow> bool" where
  "finalizer_ok g1_ok f \<longleftrightarrow> length (fa_public_key f) = 96 \<and> g1_ok (fa_public_key f)"

interpretation kweight: codec pack_key_weight unpack_key_weight "\<lambda>kw. public_key_ok (kw_key kw)"
  unfolding pack_key_weight_def unpack_key_weight_def
  by (rule codec_map [OF codec_pair [OF pubkey.codec_axioms u16.codec_axioms]]) simp

interpretation sauth: codec pack_signing_authority unpack_signing_authority authority_ok
proof unfold_locales
  fix x bs rest assume v: "authority_ok x" and "pack_signing_authority x = Inr bs"
  then obtain b where b: "pack_pair pack_u32 (pack_vector pack_key_weight) (bsa_threshold x, bsa_keys x) = Inr b"
    "unpack_varint (bs @ rest) = Inr (0, b @ rest)"
    by (auto simp: pack_signing_authority_def dest: tagged_value [where rest = rest])
  have "unpack_pair unpack_u32 (unpack_vector unpack_key_weight) (b @ rest) = Inr ((bsa_threshold x, bsa_keys x), rest)"
    by (rule codec.unpack_pack [OF codec_pair [OF u32.codec_axioms codec_vector [OF kweight.codec_axioms]] _ b(1)])
      (use v in \<open>simp add: authority_ok_def\<close>)
  with b(2) show "unpack_signing_authority (bs @ rest) = Inr (x, rest)"
    by (simp add: unpack_signing_authority_def unpack_map_def)
qed

interpretation pauth: codec pack_producer_authority unpack_producer_authority "\<lambda>p. authority_ok (pa_authority p)"
  unfolding pack_producer_authority_def unpack_producer_authority_def
  by (rule codec_map [OF codec_pair [OF u64.codec_axioms sauth.codec_axioms]]) simp

interpretation sched: codec pack_schedule unpack_schedule "\<lambda>s. list_all (\<lambda>p. authority_ok (pa_authority p)) (sched_producers s)"
  unfolding pack_schedule_def unpack_schedule_def
  by (rule codec_map [OF codec_pair [OF u32.codec_axioms codec_vector [OF pauth.codec_axioms]]]) simp

interpretation fauth: codec pack_finalizer_authority "unpack_finalizer_authority g1_ok" "finalizer_ok g1_ok" for g1_ok
  unfolding pack_finalizer_authority_def unpack_finalizer_authority_def
  by (rule codec_map [OF codec_pair [OF str.codec_axioms codec_pair [OF u64.codec_axioms codec_bls_public_key]]])
    (simp add: finalizer_ok_def)

section \<open>Policies, differences and the header extensions\<close>

definition pack_diff_result :: "('a \<Rightarrow> byte list res) \<Rightarrow> 'a diff_result \<Rightarrow> byte list res" where
  "pack_diff_result p = pack_map (\<lambda>d. (remove_indexes d, insert_indexes d)) (pack_pair (pack_vector pack_u16) (pack_vector (pack_pair pack_u16 p)))"

definition unpack_diff_result :: "(byte list \<Rightarrow> ('a \<times> byte list) res) \<Rightarrow> byte list \<Rightarrow> ('a diff_result \<times> byte list) res" where
  "unpack_diff_result u = unpack_map (\<lambda>(r, i). Inr \<lparr>remove_indexes = r, insert_indexes = i\<rparr>)
     (unpack_pair (unpack_vector unpack_u16) (unpack_vector (unpack_pair unpack_u16 u)))"

lemma codec_diff_result:
  assumes "codec p u v"
  shows "codec (pack_diff_result p) (unpack_diff_result u) (\<lambda>d. list_all (\<lambda>x. v (snd x)) (insert_indexes d))"
  unfolding pack_diff_result_def unpack_diff_result_def
  by (rule codec_map [OF codec_pair [OF codec_vector [OF u16.codec_axioms] codec_vector [OF codec_pair [OF u16.codec_axioms assms]]]])
    (simp add: list_all_iff)

definition pack_finalizer_policy_diff :: "finalizer_policy_diff \<Rightarrow> byte list res" where
  "pack_finalizer_policy_diff = pack_map (\<lambda>d. (fpd_generation d, fpd_threshold d, finalizers_diff d))
     (pack_pair pack_u32 (pack_pair pack_u64 (pack_diff_result pack_finalizer_authority)))"

definition unpack_finalizer_policy_diff :: "(byte list \<Rightarrow> bool) \<Rightarrow> byte list \<Rightarrow> (finalizer_policy_diff \<times> byte list) res" where
  "unpack_finalizer_policy_diff g1_ok = unpack_map (\<lambda>(g, t, d). Inr \<lparr>fpd_generation = g, fpd_threshold = t, finalizers_diff = d\<rparr>)
     (unpack_pair unpack_u32 (unpack_pair unpack_u64 (unpack_diff_result (unpack_finalizer_authority g1_ok))))"

definition pack_proposer_policy_diff :: "proposer_policy_diff \<Rightarrow> byte list res" where
  "pack_proposer_policy_diff = pack_map (\<lambda>d. (ppd_version d, ppd_proposal_time d, producer_auth_diff d))
     (pack_pair pack_u32 (pack_pair pack_u32 (pack_diff_result pack_producer_authority)))"

definition unpack_proposer_policy_diff :: "byte list \<Rightarrow> (proposer_policy_diff \<times> byte list) res" where
  "unpack_proposer_policy_diff = unpack_map (\<lambda>(v, t, d). Inr \<lparr>ppd_version = v, ppd_proposal_time = t, producer_auth_diff = d\<rparr>)
     (unpack_pair unpack_u32 (unpack_pair unpack_u32 (unpack_diff_result unpack_producer_authority)))"

definition pack_qc_claim :: "qc_claim_t \<Rightarrow> byte list res" where
  "pack_qc_claim = pack_map (\<lambda>c. (claim_block_num c, is_strong_qc c)) (pack_pair pack_u32 pack_bool)"

definition unpack_qc_claim :: "byte list \<Rightarrow> (qc_claim_t \<times> byte list) res" where
  "unpack_qc_claim = unpack_map (\<lambda>(n, s). Inr (Qc_claim n s)) (unpack_pair unpack_u32 unpack_bool)"

record finality_extension =
  fe_qc_claim :: qc_claim_t
  fe_new_finalizer_policy_diff :: "finalizer_policy_diff option"
  fe_new_proposer_policy_diff :: "proposer_policy_diff option"

definition pack_finality_extension :: "finality_extension \<Rightarrow> byte list res" where
  "pack_finality_extension = pack_map (\<lambda>e. (fe_qc_claim e, fe_new_finalizer_policy_diff e, fe_new_proposer_policy_diff e))
     (pack_pair pack_qc_claim (pack_pair (pack_optional pack_finalizer_policy_diff) (pack_optional pack_proposer_policy_diff)))"

definition unpack_finality_extension :: "(byte list \<Rightarrow> bool) \<Rightarrow> byte list \<Rightarrow> (finality_extension \<times> byte list) res" where
  "unpack_finality_extension g1_ok = unpack_map (\<lambda>(c, f, p). Inr \<lparr>fe_qc_claim = c, fe_new_finalizer_policy_diff = f, fe_new_proposer_policy_diff = p\<rparr>)
     (unpack_pair unpack_qc_claim (unpack_pair (unpack_optional (unpack_finalizer_policy_diff g1_ok)) (unpack_optional unpack_proposer_policy_diff)))"

definition fpd_ok :: "(byte list \<Rightarrow> bool) \<Rightarrow> finalizer_policy_diff \<Rightarrow> bool" where
  "fpd_ok g1_ok d \<longleftrightarrow> list_all (\<lambda>x. finalizer_ok g1_ok (snd x)) (insert_indexes (finalizers_diff d))"

definition ppd_ok :: "proposer_policy_diff \<Rightarrow> bool" where
  "ppd_ok d \<longleftrightarrow> list_all (\<lambda>x. authority_ok (pa_authority (snd x))) (insert_indexes (producer_auth_diff d))"

definition fe_ok :: "(byte list \<Rightarrow> bool) \<Rightarrow> finality_extension \<Rightarrow> bool" where
  "fe_ok g1_ok e \<longleftrightarrow> pred_option (fpd_ok g1_ok) (fe_new_finalizer_policy_diff e) \<and> pred_option ppd_ok (fe_new_proposer_policy_diff e)"

interpretation fpd: codec pack_finalizer_policy_diff "unpack_finalizer_policy_diff g1_ok" "fpd_ok g1_ok" for g1_ok
  unfolding pack_finalizer_policy_diff_def unpack_finalizer_policy_diff_def
  by (rule codec_map [OF codec_pair [OF u32.codec_axioms codec_pair [OF u64.codec_axioms codec_diff_result [OF fauth.codec_axioms]]]])
    (simp add: fpd_ok_def)

interpretation ppd: codec pack_proposer_policy_diff unpack_proposer_policy_diff ppd_ok
  unfolding pack_proposer_policy_diff_def unpack_proposer_policy_diff_def
  by (rule codec_map [OF codec_pair [OF u32.codec_axioms codec_pair [OF u32.codec_axioms codec_diff_result [OF pauth.codec_axioms]]]])
    (simp add: ppd_ok_def)

interpretation claim: codec pack_qc_claim unpack_qc_claim "\<lambda>_. True"
  unfolding pack_qc_claim_def unpack_qc_claim_def
  by (rule codec_map [OF codec_pair [OF u32.codec_axioms bool_c.codec_axioms]]) simp

interpretation fext: codec pack_finality_extension "unpack_finality_extension g1_ok" "fe_ok g1_ok" for g1_ok
  unfolding pack_finality_extension_def unpack_finality_extension_def
  by (rule codec_map [OF codec_pair [OF claim.codec_axioms codec_pair [OF codec_optional [OF fpd.codec_axioms] codec_optional [OF ppd.codec_axioms]]]])
    (simp add: fe_ok_def)

end
