(* ===== verification/Block_Header.thy ===== *)
theory Block_Header
  imports Header_Codec
begin

text \<open>
  Block headers (\<open>block_header.hpp\<close>, \<open>block_header.cpp\<close>): the header, its identifier, and its
  extensions, which are stored as bytes and decoded by \<open>validate_and_extract_header_extensions\<close>.
  SHA-256 is the argument \<open>sha\<close>.
\<close>

type_synonym extensions_type = "(16 word \<times> byte list) list"

section \<open>Extensions\<close>

definition finality_extension_id :: "16 word" where
  "finality_extension_id = 2"

definition protocol_feature_activation_id :: "16 word" where
  "protocol_feature_activation_id = 0"

definition producer_schedule_change_id :: "16 word" where
  "producer_schedule_change_id = 1"

datatype block_header_extension =
    Protocol_feature_activation "digest_type list"
  | Producer_schedule_change producer_authority_schedule
  | Finality finality_extension

type_synonym header_extension_multimap = "(16 word \<times> block_header_extension) list"

definition emplace_extension :: "extensions_type \<Rightarrow> 16 word \<Rightarrow> byte list \<Rightarrow> extensions_type" where
  "emplace_extension exts eid data =
     takeWhile (\<lambda>e. \<not> eid < fst e) exts @ (eid, data) # dropWhile (\<lambda>e. \<not> eid < fst e) exts"

text \<open>\<open>protocol_feature_activation::reflector_init\<close>\<close>

definition protocol_features_init :: "digest_type list \<Rightarrow> digest_type list res" where
  "protocol_features_init ds =
     ensure (0 < length ds) Ill_formed_protocol_feature_activation (
     ensure (distinct ds) Ill_formed_protocol_feature_activation (Inr ds))"

definition unpack_protocol_feature_activation :: "byte list \<Rightarrow> (digest_type list \<times> byte list) res" where
  "unpack_protocol_feature_activation = unpack_map protocol_features_init (unpack_vector unpack_sha256)"

text \<open>
  \<open>decompose::extract\<close>: the value and \<open>enforce_unique\<close>, or nothing for an unknown id.  Bytes
  behind the value are ignored.
\<close>

definition decompose_extract :: "(byte list \<Rightarrow> bool) \<Rightarrow> 16 word \<Rightarrow> byte list \<Rightarrow> (block_header_extension \<times> bool) option res" where
  "decompose_extract g1_ok i data =
     (if i = protocol_feature_activation_id then
        rbind (unpack_protocol_feature_activation data) (\<lambda>(d, _). Inr (Some (Protocol_feature_activation d, True)))
      else if i = producer_schedule_change_id then
        rbind (unpack_schedule data) (\<lambda>(s, _). Inr (Some (Producer_schedule_change s, True)))
      else if i = finality_extension_id then
        rbind (unpack_finality_extension g1_ok data) (\<lambda>(f, _). Inr (Some (Finality f, True)))
      else Inr None)"

fun extract_loop :: "(byte list \<Rightarrow> bool) \<Rightarrow> bool \<Rightarrow> 16 word \<Rightarrow> extensions_type \<Rightarrow> header_extension_multimap \<Rightarrow> header_extension_multimap res" where
  "extract_loop g1_ok first lower [] results = Inr results"
| "extract_loop g1_ok first lower ((i, data) # es) results =
     ensure (lower \<le> i) Invalid_block_header_extension (
     rbind (decompose_extract g1_ok i data) (\<lambda>m.
     case m of
       None \<Rightarrow> Inl Invalid_block_header_extension
     | Some (ext, enforce_unique) \<Rightarrow>
       ensure (enforce_unique \<longrightarrow> first \<or> lower < i) Invalid_block_header_extension (
       extract_loop g1_ok False i es (results @ [(i, ext)]))))"

definition ext_find :: "16 word \<Rightarrow> header_extension_multimap \<Rightarrow> block_header_extension option" where
  "ext_find i exts = map_of exts i"

section \<open>Headers\<close>

record block_header =
  bh_timestamp :: block_timestamp_type
  bh_producer :: account_name
  bh_confirmed :: "16 word"
  bh_previous :: block_id_type
  bh_transaction_mroot :: digest_type
  bh_action_mroot :: digest_type
  bh_schedule_version :: "32 word"
  bh_new_producers :: "legacy_producer_schedule option"
  bh_header_extensions :: extensions_type

definition validate_and_extract_header_extensions :: "(byte list \<Rightarrow> bool) \<Rightarrow> block_header \<Rightarrow> header_extension_multimap res" where
  "validate_and_extract_header_extensions g1_ok h = extract_loop g1_ok True 0 (bh_header_extensions h) []"

fun extract_one :: "(byte list \<Rightarrow> bool) \<Rightarrow> 16 word \<Rightarrow> extensions_type \<Rightarrow> block_header_extension option res" where
  "extract_one g1_ok extension_id [] = Inr None"
| "extract_one g1_ok extension_id ((i, data) # es) =
     (if extension_id < i then Inr None
      else if i \<noteq> extension_id then extract_one g1_ok extension_id es
      else rbind (decompose_extract g1_ok i data) (\<lambda>m.
        case m of None \<Rightarrow> Inl Invalid_block_header_extension | Some (ext, _) \<Rightarrow> Inr (Some ext)))"

definition extract_header_extension :: "(byte list \<Rightarrow> bool) \<Rightarrow> 16 word \<Rightarrow> block_header \<Rightarrow> block_header_extension option res" where
  "extract_header_extension g1_ok extension_id h = extract_one g1_ok extension_id (bh_header_extensions h)"

definition contains_header_extension :: "16 word \<Rightarrow> block_header \<Rightarrow> bool" where
  "contains_header_extension extension_id h \<longleftrightarrow> list_ex (\<lambda>e. fst e = extension_id) (bh_header_extensions h)"

definition proper_svnn_schedule_version :: "32 word" where
  "proper_svnn_schedule_version = 2 ^ 31"

definition header_is_proper_svnn_block :: "block_header \<Rightarrow> bool" where
  "header_is_proper_svnn_block h \<longleftrightarrow> bh_schedule_version h = proper_svnn_schedule_version"

definition header_is_legacy_block :: "block_header \<Rightarrow> bool" where
  "header_is_legacy_block h \<longleftrightarrow> \<not> contains_header_extension finality_extension_id h"

definition header_block_num :: "block_header \<Rightarrow> block_num_type" where
  "header_block_num h = num_from_id (bh_previous h) + 1"

definition pack_producer_key :: "producer_key \<Rightarrow> byte list res" where
  "pack_producer_key = pack_map (\<lambda>p. (pk_producer_name p, pk_block_signing_key p)) (pack_pair pack_u64 pack_public_key)"

definition pack_legacy_schedule :: "legacy_producer_schedule \<Rightarrow> byte list res" where
  "pack_legacy_schedule = pack_map (\<lambda>s. (legacy_version s, legacy_producers s)) (pack_pair pack_u32 (pack_vector pack_producer_key))"

definition pack_header :: "block_header \<Rightarrow> byte list res" where
  "pack_header = pack_map
     (\<lambda>h. (bh_timestamp h, bh_producer h, bh_confirmed h, bh_previous h, bh_transaction_mroot h, bh_action_mroot h,
           bh_schedule_version h, bh_new_producers h, bh_header_extensions h))
     (pack_pair pack_u32 (pack_pair pack_u64 (pack_pair pack_u16 (pack_pair pack_sha256 (pack_pair pack_sha256 (pack_pair pack_sha256
       (pack_pair pack_u32 (pack_pair (pack_optional pack_legacy_schedule) (pack_vector (pack_pair pack_u16 pack_chars))))))))))"

definition header_digest :: "(byte list \<Rightarrow> sha256) \<Rightarrow> block_header \<Rightarrow> digest_type res" where
  "header_digest sha h = rbind (pack_header h) (\<lambda>b. Inr (sha b))"

definition calculate_id :: "(byte list \<Rightarrow> sha256) \<Rightarrow> block_header \<Rightarrow> block_id_type res" where
  "calculate_id sha h = rbind (header_digest sha h) (\<lambda>d. Inr (embed_block_num d (header_block_num h)))"

section \<open>What a sender adds is what a receiver extracts\<close>

lemma unpack_features:
  assumes "ds \<noteq> []" and "distinct ds" and "pack_vector pack_sha256 ds = Inr bs"
  shows "unpack_protocol_feature_activation bs = Inr (ds, [])"
proof -
  have "unpack_vector unpack_sha256 bs = Inr (ds, [])"
    using assms(3) by (intro sha256s.unpack_pack_all) (simp_all add: list_all_iff)
  with assms(1,2) show ?thesis
    by (simp add: unpack_protocol_feature_activation_def unpack_map_def protocol_features_init_def)
qed

lemma calculate_id_num: "calculate_id sha h = Inr i \<Longrightarrow> num_from_id i = header_block_num h"
  by (auto simp: calculate_id_def res_simps num_from_embed_block_num)

text \<open>The lookup of one extension agrees with the decoded map of a header that passed validation.\<close>

lemma extract_loop_step:
  assumes "extract_loop g1_ok first lower ((i, data) # es) results = Inr exts"
  shows "\<exists>ext u. lower \<le> i \<and> decompose_extract g1_ok i data = Inr (Some (ext, u)) \<and>
    extract_loop g1_ok False i es (results @ [(i, ext)]) = Inr exts"
proof -
  from assms obtain m where m: "lower \<le> i" "decompose_extract g1_ok i data = Inr m"
    "(case m of None \<Rightarrow> Inl Invalid_block_header_extension
     | Some (ext, enforce_unique) \<Rightarrow> ensure (enforce_unique \<longrightarrow> first \<or> lower < i) Invalid_block_header_extension (
       extract_loop g1_ok False i es (results @ [(i, ext)]))) = Inr exts"
    by (auto simp: ensure_Inr_iff rbind_Inr_iff)
  then show ?thesis by (cases m) (auto simp: ensure_Inr_iff)
qed

lemma extract_loop_lower:
  "extract_loop g1_ok first lower es results = Inr exts \<Longrightarrow> list_all (\<lambda>e. lower \<le> fst e) es"
proof (induction es arbitrary: first lower results)
  case (Cons e es)
  obtain i data where e: "e = (i, data)" by (cases e)
  obtain ext u where "lower \<le> i" "extract_loop g1_ok False i es (results @ [(i, ext)]) = Inr exts"
    using extract_loop_step [of g1_ok first lower i data es results exts] Cons.prems e by blast
  with Cons.IH [of False i "results @ [(i, ext)]"] e show ?case by (auto simp: list_all_iff)
qed simp

lemma extract_loop_prefix: "extract_loop g1_ok first lower es results = Inr exts \<Longrightarrow> \<exists>more. exts = results @ more"
proof (induction es arbitrary: first lower results)
  case (Cons e es)
  obtain i data where e: "e = (i, data)" by (cases e)
  obtain ext u where "extract_loop g1_ok False i es (results @ [(i, ext)]) = Inr exts"
    using extract_loop_step [of g1_ok first lower i data es results exts] Cons.prems e by blast
  from Cons.IH [OF this] show ?case by auto
qed simp

lemma extract_loop_find:
  assumes "extract_loop g1_ok first lower es results = Inr exts" and "map_of results eid = None"
  shows "extract_one g1_ok eid es = Inr (ext_find eid exts)"
  using assms
proof (induction es arbitrary: first lower results)
  case Nil
  then show ?case by (simp add: ext_find_def)
next
  case (Cons e es)
  obtain i data where e: "e = (i, data)" by (cases e)
  obtain ext u where x: "decompose_extract g1_ok i data = Inr (Some (ext, u))"
    and loop: "extract_loop g1_ok False i es (results @ [(i, ext)]) = Inr exts"
    using extract_loop_step [of g1_ok first lower i data es results exts] Cons.prems(1) e by blast
  obtain more where more: "exts = results @ (i, ext) # more" using extract_loop_prefix [OF loop] by auto
  show ?case
  proof (cases "i = eid")
    case True
    with x e more Cons.prems(2) show ?thesis by (simp add: ext_find_def map_add_def)
  next
    case False
    then have IH: "extract_one g1_ok eid es = Inr (ext_find eid exts)"
      using Cons.IH [OF loop] Cons.prems(2) by (simp add: map_add_def)
    show ?thesis
    proof (cases "eid < i")
      case True
      then have "extract_one g1_ok eid es = Inr None"
        using extract_loop_lower [OF loop] by (cases es) auto
      with IH e True show ?thesis by simp
    next
      case nless: False
      with e False IH show ?thesis by simp
    qed
  qed
qed

lemma extract_header_extension_eq:
  assumes "validate_and_extract_header_extensions g1_ok h = Inr exts"
  shows "extract_header_extension g1_ok eid h = Inr (ext_find eid exts)"
  using extract_loop_find [of g1_ok True 0 "bh_header_extensions h" "[]" exts eid] assms
  by (simp add: validate_and_extract_header_extensions_def extract_header_extension_def)

end
