(* ===== verification/Merkle.thy ===== *)
theory Merkle
  imports Chain_Types
begin

text \<open>
  Merkle roots: \<open>calculate_merkle\<close> (\<open>merkle.hpp\<close>), which splits large inputs over a thread pool,
  and \<open>incremental_merkle_tree\<close> (\<open>incremental_merkle.hpp\<close>), which keeps only the roots of complete
  subtrees.  SHA-256 itself is OpenSSL's and is the parameter \<open>sha\<close> of every definition.

  The lemmas show that both compute the same reference root \<open>merkle_root\<close>: the sliced computation
  fails no assertion and agrees with the sequential one, and the incremental tree has, after any
  number of appends below \<open>2 ^ 64\<close>, the root of the whole sequence.
\<close>

section \<open>The one-shot computation\<close>

type_synonym hash_fun = "byte list \<Rightarrow> sha256"

definition hash_combine :: "hash_fun \<Rightarrow> digest_type \<Rightarrow> digest_type \<Rightarrow> digest_type" where
  "hash_combine sha a b = sha (sha256_data a @ sha256_data b)"

text \<open>\<open>std::bit_floor\<close>: the largest power of two that is not greater.\<close>

fun bit_floor :: "nat \<Rightarrow> nat" where
  "bit_floor n = (if n = 0 then 0 else if n = 1 then 1 else 2 * bit_floor (n div 2))"

declare bit_floor.simps [simp del]

text \<open>\<open>calculate_merkle_pow2<It, false>\<close>.\<close>

function calculate_merkle_pow2 :: "hash_fun \<Rightarrow> digest_type list \<Rightarrow> digest_type res" where
  "calculate_merkle_pow2 sha xs =
     (let size = length xs in
      if size < 2 \<or> bit_floor size \<noteq> size then Inl Assert_failed
      else if size = 2 then Inr (hash_combine sha (xs ! 0) (xs ! 1))
      else rbind (calculate_merkle_pow2 sha (take (size div 2) xs)) (\<lambda>a.
           rbind (calculate_merkle_pow2 sha (drop (size div 2) xs)) (\<lambda>b.
           Inr (hash_combine sha a b))))"
  by pat_completeness auto
termination
  by (relation "measure (\<lambda>(sha, xs). length xs)") auto

declare calculate_merkle_pow2.simps [simp del]

text \<open>The tasks posted to the thread pool, one per slice, and the results read back in order.\<close>

fun gather :: "'a res list \<Rightarrow> 'a list res" where
  "gather [] = Inr []"
| "gather (m # ms) = rbind m (\<lambda>x. rbind (gather ms) (\<lambda>xs. Inr (x # xs)))"

definition async_calculate_merkle_pow2 :: "nat \<Rightarrow> hash_fun \<Rightarrow> digest_type list \<Rightarrow> digest_type res" where
  "async_calculate_merkle_pow2 n sha xs =
     (let slice_size = length xs div n in
      rbind (gather (map (\<lambda>i. calculate_merkle_pow2 sha (take slice_size (drop (slice_size * i) xs))) [0 ..< n]))
        (calculate_merkle_pow2 sha))"

text \<open>\<open>calculate_merkle_pow2<It, true>\<close>.\<close>

definition calculate_merkle_pow2_async :: "hash_fun \<Rightarrow> digest_type list \<Rightarrow> digest_type res" where
  "calculate_merkle_pow2_async sha xs =
     (let size = length xs in
      if size < 2 \<or> bit_floor size \<noteq> size then Inl Assert_failed
      else if size = 2 then Inr (hash_combine sha (xs ! 0) (xs ! 1))
      else if 256 \<le> size then
        if 2048 \<le> size then async_calculate_merkle_pow2 4 sha xs
        else async_calculate_merkle_pow2 2 sha xs
      else rbind (calculate_merkle_pow2 sha (take (size div 2) xs)) (\<lambda>a.
           rbind (calculate_merkle_pow2 sha (drop (size div 2) xs)) (\<lambda>b.
           Inr (hash_combine sha a b))))"

lemma bit_floor_pos: "0 < n \<Longrightarrow> 0 < bit_floor n"
  by (induction n rule: bit_floor.induct) (subst bit_floor.simps, auto)

function calculate_merkle :: "hash_fun \<Rightarrow> digest_type list \<Rightarrow> digest_type res" where
  "calculate_merkle sha xs =
     (let size = length xs in
      if size \<le> 1 then Inr (if size = 0 then sha256_zero else xs ! 0)
      else let midpoint = bit_floor size in
        if size = midpoint then calculate_merkle_pow2_async sha xs
        else rbind (calculate_merkle_pow2_async sha (take midpoint xs)) (\<lambda>a.
             rbind (calculate_merkle sha (drop midpoint xs)) (\<lambda>b.
             Inr (hash_combine sha a b))))"
  by pat_completeness auto
termination
  by (relation "measure (\<lambda>(sha, xs). length xs)") (auto intro!: diff_less bit_floor_pos)

declare calculate_merkle.simps [simp del]

section \<open>The incremental tree\<close>

record incremental_merkle_tree =
  imt_mask :: "64 word"
  imt_trees :: "digest_type list"

definition imt_default :: incremental_merkle_tree where
  "imt_default = \<lparr>imt_mask = 0, imt_trees = []\<rparr>"

text \<open>
  \<open>1ull << idx\<close> is undefined for \<open>idx\<close> beyond 63; \<open>imt_append\<close> checks the index where the source
  relies on it.
\<close>

definition is_bit_set :: "incremental_merkle_tree \<Rightarrow> nat \<Rightarrow> bool" where
  "is_bit_set m idx \<longleftrightarrow> imt_mask m AND push_bit idx 1 \<noteq> 0"

definition set_bit_at :: "nat \<Rightarrow> incremental_merkle_tree \<Rightarrow> incremental_merkle_tree" where
  "set_bit_at idx m = m\<lparr>imt_mask := imt_mask m OR push_bit idx 1\<rparr>"

definition clear_bit_at :: "nat \<Rightarrow> incremental_merkle_tree \<Rightarrow> incremental_merkle_tree" where
  "clear_bit_at idx m = m\<lparr>imt_mask := imt_mask m AND NOT (push_bit idx 1)\<rparr>"

text \<open>\<open>_append\<close>: \<open>slot\<close> is the insertion point as an index into \<open>trees\<close>.\<close>

function imt_append_at ::
  "hash_fun \<Rightarrow> incremental_merkle_tree \<Rightarrow> digest_type \<Rightarrow> nat \<Rightarrow> nat \<Rightarrow> incremental_merkle_tree res" where
  "imt_append_at sha m digest slot idx =
     (if 64 \<le> idx then Inl Assert_failed
      else if is_bit_set m idx then
        ensure (imt_trees m \<noteq> []) Assert_failed (
        if 64 \<le> idx + 1 then Inl Assert_failed
        else if \<not> is_bit_set m (idx + 1) then
          ensure (1 \<le> slot \<and> slot \<le> length (imt_trees m)) Assert_failed (
          Inr (set_bit_at (idx + 1) (clear_bit_at idx
            (m\<lparr>imt_trees := (imt_trees m)[slot - 1 := hash_combine sha (imt_trees m ! (slot - 1)) digest]\<rparr>))))
        else
          ensure (2 \<le> length (imt_trees m)) Assert_failed (
          ensure (2 \<le> slot \<and> slot \<le> length (imt_trees m)) Assert_failed (
          let d = hash_combine sha (imt_trees m ! (slot - 2)) (hash_combine sha (imt_trees m ! (slot - 1)) digest);
              m' = (clear_bit_at (idx + 1) (clear_bit_at idx m))
                \<lparr>imt_trees := take (slot - 2) (imt_trees m) @ drop slot (imt_trees m)\<rparr> in
          imt_append_at sha m' d (slot - 2) (idx + 2))))
      else
        ensure (slot \<le> length (imt_trees m)) Assert_failed (
        Inr (set_bit_at idx (m\<lparr>imt_trees := take slot (imt_trees m) @ digest # drop slot (imt_trees m)\<rparr>))))"
  by pat_completeness auto
termination
  by (relation "measure (\<lambda>(sha, m, digest, slot, idx). 66 - idx)") auto

declare imt_append_at.simps [simp del]

text \<open>\<open>std::popcount\<close>.\<close>

definition pop_count :: "64 word \<Rightarrow> nat" where
  "pop_count w = length (filter (bit w) [0 ..< 64])"

definition imt_append :: "hash_fun \<Rightarrow> incremental_merkle_tree \<Rightarrow> digest_type \<Rightarrow> incremental_merkle_tree res" where
  "imt_append sha m digest =
     ensure (length (imt_trees m) = pop_count (imt_mask m)) Assert_failed (
     rbind (imt_append_at sha m digest (length (imt_trees m)) 0) (\<lambda>m'.
     ensure (length (imt_trees m') = pop_count (imt_mask m')) Assert_failed (
     Inr m')))"

function imt_get_root_at :: "hash_fun \<Rightarrow> incremental_merkle_tree \<Rightarrow> nat \<Rightarrow> digest_type res" where
  "imt_get_root_at sha m idx =
     (if length (imt_trees m) \<le> idx then Inl Assert_failed
      else if idx + 1 = length (imt_trees m) then Inr (imt_trees m ! idx)
      else rbind (imt_get_root_at sha m (idx + 1)) (\<lambda>r.
           Inr (hash_combine sha (imt_trees m ! idx) r)))"
  by pat_completeness auto
termination
  by (relation "measure (\<lambda>(sha, m, idx). length (imt_trees m) - idx)") auto

declare imt_get_root_at.simps [simp del]

definition imt_get_root :: "hash_fun \<Rightarrow> incremental_merkle_tree \<Rightarrow> digest_type res" where
  "imt_get_root sha m =
     (if imt_mask m = 0 then Inr sha256_zero
      else ensure (imt_trees m \<noteq> []) Assert_failed (imt_get_root_at sha m 0))"

definition num_digests_appended :: "incremental_merkle_tree \<Rightarrow> 64 word" where
  "num_digests_appended m = imt_mask m"

section \<open>The reference root\<close>

fun log_floor :: "nat \<Rightarrow> nat" where
  "log_floor n = (if n < 2 then 0 else Suc (log_floor (n div 2)))"

declare log_floor.simps [simp del]

text \<open>The root of a complete tree with \<open>2 ^ k\<close> leaves.\<close>

fun tree_root :: "hash_fun \<Rightarrow> nat \<Rightarrow> digest_type list \<Rightarrow> digest_type" where
  "tree_root sha 0 xs = hd xs"
| "tree_root sha (Suc k) xs =
     hash_combine sha (tree_root sha k (take (2 ^ k) xs)) (tree_root sha k (drop (2 ^ k) xs))"

text \<open>The complete trees of a sequence, largest first, one per binary digit of its length.\<close>

function tree_roots :: "hash_fun \<Rightarrow> digest_type list \<Rightarrow> digest_type list" where
  "tree_roots sha xs =
     (if xs = [] then []
      else let k = log_floor (length xs) in
        tree_root sha k (take (2 ^ k) xs) # tree_roots sha (drop (2 ^ k) xs))"
  by pat_completeness auto
termination
  by (relation "measure (\<lambda>(sha, xs). length xs)") auto

declare tree_roots.simps [simp del]

fun join_roots :: "hash_fun \<Rightarrow> digest_type list \<Rightarrow> digest_type" where
  "join_roots sha [] = sha256_zero"
| "join_roots sha [r] = r"
| "join_roots sha (r # rs) = hash_combine sha r (join_roots sha rs)"

definition merkle_root :: "hash_fun \<Rightarrow> digest_type list \<Rightarrow> digest_type" where
  "merkle_root sha xs = join_roots sha (tree_roots sha xs)"

section \<open>Powers of two\<close>

lemma log_floor_bounds: "0 < n \<Longrightarrow> 2 ^ log_floor n \<le> n \<and> n < 2 ^ Suc (log_floor n)"
proof (induction n rule: log_floor.induct)
  case (1 n)
  show ?case
  proof (cases "n < 2")
    case True
    with 1 show ?thesis by (subst (1 2) log_floor.simps) simp
  next
    case False
    with 1 have "2 ^ log_floor (n div 2) \<le> n div 2" and "n div 2 < 2 ^ Suc (log_floor (n div 2))"
      by auto
    then have "2 * 2 ^ log_floor (n div 2) \<le> n" and "n < 2 * 2 ^ Suc (log_floor (n div 2))"
      by linarith+
    with False show ?thesis by (subst (1 2) log_floor.simps) simp
  qed
qed

lemma log_floor_eqI: "2 ^ k \<le> n \<Longrightarrow> n < 2 ^ Suc k \<Longrightarrow> log_floor n = k"
proof -
  assume k: "2 ^ k \<le> n" "n < 2 ^ Suc k"
  then have "0 < n" using less_le_trans by fastforce
  from log_floor_bounds [OF this] k
  have "(2::nat) ^ k < 2 ^ Suc (log_floor n)" and "(2::nat) ^ log_floor n < 2 ^ Suc k"
    by linarith+
  then have "k < Suc (log_floor n)" and "log_floor n < Suc k"
    using power_less_imp_less_exp [of "2::nat"] one_less_numeral_iff semiring_norm(76) by blast+
  then show "log_floor n = k" by simp
qed

lemma log_floor_pow2 [simp]: "log_floor (2 ^ k) = k"
  by (rule log_floor_eqI) simp_all

lemma bit_floor_log: "0 < n \<Longrightarrow> bit_floor n = 2 ^ log_floor n"
proof (induction n rule: bit_floor.induct)
  case (1 n)
  then show ?case
    by (subst bit_floor.simps, subst log_floor.simps) auto
qed

lemma bit_floor_pow2 [simp]: "bit_floor (2 ^ k) = 2 ^ k"
  by (simp add: bit_floor_log)

lemma bit_floor_fixed: "0 < n \<Longrightarrow> bit_floor n = n \<Longrightarrow> \<exists>k. n = 2 ^ k"
  by (auto simp: bit_floor_log) (metis)

section \<open>The one-shot computation gives the reference root\<close>

lemma calculate_merkle_pow2_eq:
  "length xs = 2 ^ Suc k \<Longrightarrow> calculate_merkle_pow2 sha xs = Inr (tree_root sha (Suc k) xs)"
proof (induction k arbitrary: xs)
  case 0
  then obtain a b where "xs = [a, b]" by (auto simp: numeral_2_eq_2 length_Suc_conv)
  moreover have "bit_floor (Suc (Suc 0)) = Suc (Suc 0)"
    using bit_floor_pow2 [of 1] by (simp add: numeral_2_eq_2)
  ultimately show ?case by (subst calculate_merkle_pow2.simps) simp
next
  case (Suc k)
  let ?n = "(2::nat) ^ Suc (Suc k)"
  have half: "?n div 2 = 2 ^ Suc k" by simp
  have big: "\<not> ?n < 2" "?n \<noteq> 2"
    by (simp_all add: one_less_power)
  have "length (take (2 ^ Suc k) xs) = 2 ^ Suc k" and "length (drop (2 ^ Suc k) xs) = 2 ^ Suc k"
    using Suc.prems by simp_all
  from this [THEN Suc.IH]
  show ?case
    unfolding calculate_merkle_pow2.simps [of sha xs] Let_def Suc.prems half
    using big bit_floor_pow2 [of "Suc (Suc k)"] by simp
qed

lemma gather_map_Inr: "gather (map (\<lambda>x. Inr (f x)) xs) = Inr (map f xs)"
  by (induction xs) simp_all

text \<open>A complete tree cut into two or four slices: its root is the root of the slices' roots.\<close>

lemma upt_2_4: "[0 ..< 2] = [0, 1 :: nat]" "[0 ..< 4] = [0, 1, 2, 3 :: nat]"
  by (simp_all add: upt_conv_Cons)

lemma tree_root_two_slices:
  "length xs = 2 ^ Suc k \<Longrightarrow> tree_root sha (Suc k) xs =
   tree_root sha 1 (map (\<lambda>i. tree_root sha k (take (2 ^ k) (drop (2 ^ k * i) xs))) [0 ..< 2])"
  by (simp add: upt_2_4)

lemma tree_root_of_four:
  "tree_root sha 2 [a, b, c, d] = hash_combine sha (hash_combine sha a b) (hash_combine sha c d)"
proof -
  have "tree_root sha (Suc (Suc 0)) [a, b, c, d] = hash_combine sha (hash_combine sha a b) (hash_combine sha c d)"
    by simp
  then show ?thesis by (simp only: numeral_2_eq_2)
qed

lemma tree_root_four_slices:
  assumes "length xs = 2 ^ Suc (Suc k)"
  shows "tree_root sha (Suc (Suc k)) xs =
   tree_root sha 2 (map (\<lambda>i. tree_root sha k (take (2 ^ k) (drop (2 ^ k * i) xs))) [0 ..< 4])"
proof -
  have "drop (2 ^ k) (take (2 ^ Suc k) xs) = take (2 ^ k) (drop (2 ^ k) xs)"
    by (simp add: take_drop mult_2)
  moreover have "take (2 ^ k) (take (2 ^ Suc k) xs) = take (2 ^ k) xs" by (simp add: min_def)
  moreover have "take (2 ^ k) (drop (2 ^ k * 3) xs) = drop (2 ^ k) (drop (2 ^ Suc k) xs)"
    using assms by (simp add: mult.commute)
  ultimately show ?thesis
    by (simp add: upt_2_4 tree_root_of_four mult.commute)
qed

lemma slices_eq:
  assumes "length xs = n * 2 ^ Suc k"
  shows "map (\<lambda>i. calculate_merkle_pow2 sha (take (2 ^ Suc k) (drop (2 ^ Suc k * i) xs))) [0 ..< n] =
         map (\<lambda>i. Inr (tree_root sha (Suc k) (take (2 ^ Suc k) (drop (2 ^ Suc k * i) xs)))) [0 ..< n]"
proof (rule map_cong [OF refl], rule calculate_merkle_pow2_eq)
  fix i assume "i \<in> set [0 ..< n]"
  then have "(i + 1) * 2 ^ Suc k \<le> n * 2 ^ Suc k" by (intro mult_right_mono) auto
  then have "2 ^ Suc k + 2 ^ Suc k * i \<le> n * 2 ^ Suc k" by (simp add: algebra_simps)
  then show "length (take (2 ^ Suc k) (drop (2 ^ Suc k * i) xs)) = 2 ^ Suc k"
    using assms by simp
qed

lemma async_eq:
  assumes "length xs = 2 ^ Suc n * 2 ^ Suc k"
  shows "async_calculate_merkle_pow2 (2 ^ Suc n) sha xs = Inr (tree_root sha (Suc n)
     (map (\<lambda>i. tree_root sha (Suc k) (take (2 ^ Suc k) (drop (2 ^ Suc k * i) xs))) [0 ..< 2 ^ Suc n]))"
proof -
  have slice: "length xs div 2 ^ Suc n = 2 ^ Suc k" using assms by simp
  show ?thesis
    unfolding async_calculate_merkle_pow2_def Let_def slice slices_eq [OF assms] gather_map_Inr rbind_simps
    by (rule calculate_merkle_pow2_eq) simp
qed

lemma calculate_merkle_pow2_async_eq:
  assumes "length xs = 2 ^ Suc k"
  shows "calculate_merkle_pow2_async sha xs = Inr (tree_root sha (Suc k) xs)"
proof (cases "256 \<le> length xs")
  case False
  then have "calculate_merkle_pow2_async sha xs = calculate_merkle_pow2 sha xs"
    by (simp add: calculate_merkle_pow2_async_def calculate_merkle_pow2.simps [of sha xs] Let_def)
  with calculate_merkle_pow2_eq [OF assms] show ?thesis by simp
next
  case True
  then have "(2::nat) ^ 8 \<le> 2 ^ Suc k" using assms by simp
  then have "8 \<le> Suc k" by (rule power_le_imp_le_exp [rotated]) simp
  then obtain j where k: "k = Suc (Suc j)" by (cases k; cases "k - 1") auto
  have floor: "bit_floor (length xs) = length xs" using bit_floor_pow2 [of "Suc k"] assms by simp
  show ?thesis
  proof (cases "2048 \<le> length xs")
    case True
    have four: "(2::nat) ^ 2 = 4" by simp
    have "length xs = 2 ^ Suc 1 * 2 ^ Suc j" using assms k by simp
    from async_eq [OF this, of sha] tree_root_four_slices [of xs "Suc j" sha] assms k
    have "async_calculate_merkle_pow2 4 sha xs = Inr (tree_root sha (Suc k) xs)"
      by (simp only: four Suc_1)
    with True floor show ?thesis by (simp add: calculate_merkle_pow2_async_def Let_def)
  next
    case False
    have two: "(2::nat) ^ Suc 0 = 2" by simp
    have "length xs = 2 ^ Suc 0 * 2 ^ Suc (Suc j)" using assms k by simp
    from async_eq [OF this, of sha] tree_root_two_slices [of xs "Suc (Suc j)" sha] assms k
    have "async_calculate_merkle_pow2 2 sha xs = Inr (tree_root sha (Suc k) xs)"
      by (simp only: two One_nat_def)
    with False \<open>256 \<le> length xs\<close> floor show ?thesis
      by (simp add: calculate_merkle_pow2_async_def Let_def)
  qed
qed

lemma tree_roots_Nil [simp]: "tree_roots sha [] = []"
  by (simp add: tree_roots.simps)

lemma tree_roots_step:
  "xs \<noteq> [] \<Longrightarrow> tree_roots sha xs = tree_root sha (log_floor (length xs)) (take (2 ^ log_floor (length xs)) xs) #
     tree_roots sha (drop (2 ^ log_floor (length xs)) xs)"
  by (subst tree_roots.simps) (simp add: Let_def)

lemma tree_roots_pow2: "length xs = 2 ^ k \<Longrightarrow> tree_roots sha xs = [tree_root sha k xs]"
proof -
  assume "length xs = 2 ^ k"
  moreover from this have "xs \<noteq> []" by auto
  ultimately show ?thesis by (simp add: tree_roots_step)
qed

lemma tree_roots_eq_Nil [simp]: "tree_roots sha xs = [] \<longleftrightarrow> xs = []"
  by (cases "xs = []") (simp_all add: tree_roots_step)

lemma join_roots_Cons: "rs \<noteq> [] \<Longrightarrow> join_roots sha (r # rs) = hash_combine sha r (join_roots sha rs)"
  by (cases rs) simp_all

lemma calculate_merkle_eq: "calculate_merkle sha xs = Inr (merkle_root sha xs)"
proof (induction sha xs rule: calculate_merkle.induct)
  case (1 sha xs)
  define k where "k = log_floor (length xs)"
  show ?case
  proof (cases "length xs \<le> 1")
    case True
    then consider "xs = []" | x where "xs = [x]" by (cases xs) auto
    then show ?thesis
    proof cases
      case 1
      then show ?thesis by (subst calculate_merkle.simps) (simp add: merkle_root_def)
    next
      case 2
      then show ?thesis
        using tree_roots_pow2 [of xs 0 sha] by (subst calculate_merkle.simps) (simp add: merkle_root_def)
    qed
  next
    case False
    then have ne: "xs \<noteq> []" and pos: "0 < length xs" by auto
    then have floor: "bit_floor (length xs) = 2 ^ k" by (simp add: bit_floor_log k_def)
    have bounds: "2 ^ k \<le> length xs" "length xs < 2 ^ Suc k"
      using log_floor_bounds [OF pos] by (simp_all add: k_def)
    then obtain j where k: "k = Suc j" using False by (cases k) auto
    have "length (take (2 ^ k) xs) = 2 ^ Suc j" using bounds k by simp
    note first = calculate_merkle_pow2_async_eq [OF this, of sha, folded k]
    show ?thesis
    proof (cases "length xs = 2 ^ k")
      case True
      with first have "calculate_merkle_pow2_async sha xs = Inr (tree_root sha k xs)" by simp
      with False True floor tree_roots_pow2 [OF True, of sha] show ?thesis
        by (subst calculate_merkle.simps) (simp add: Let_def merkle_root_def)
    next
      case neq: False
      with bounds have "drop (2 ^ k) xs \<noteq> []" by simp
      then have "merkle_root sha xs = hash_combine sha (tree_root sha k (take (2 ^ k) xs)) (merkle_root sha (drop (2 ^ k) xs))"
        by (simp add: merkle_root_def tree_roots_step [OF ne, folded k_def] join_roots_Cons)
      moreover from "1.IH" [OF refl False] neq floor
      have "calculate_merkle sha (drop (2 ^ k) xs) = Inr (merkle_root sha (drop (2 ^ k) xs))" by simp
      ultimately show ?thesis
        using False neq floor first by (subst calculate_merkle.simps) (simp add: Let_def)
    qed
  qed
qed

section \<open>The incremental tree keeps the same root\<close>

lemma tree_roots_append:
  assumes "2 ^ Suc k dvd length xs" and "length ys = 2 ^ k"
  shows "tree_roots sha (xs @ ys) = tree_roots sha xs @ [tree_root sha k ys]"
  using assms
proof (induction sha xs rule: tree_roots.induct)
  case (1 sha xs)
  show ?case
  proof (cases "xs = []")
    case True
    with 1 show ?thesis by (simp add: tree_roots_pow2)
  next
    case False
    define m where "m = log_floor (length xs)"
    have m: "2 ^ m \<le> length xs" "length xs < 2 ^ Suc m"
      using log_floor_bounds [of "length xs"] False by (simp_all add: m_def)
    from "1.prems"(1) False have "2 ^ Suc k \<le> length xs" by (intro dvd_imp_le) auto
    with m(2) have "(2::nat) ^ Suc k < 2 ^ Suc m" by linarith
    then have km: "Suc k \<le> m" by (metis Suc_less_eq less_eq_Suc_le nat_power_less_imp_less zero_less_numeral)
    then have dm: "2 ^ Suc k dvd (2::nat) ^ Suc m" and dm': "2 ^ Suc k dvd (2::nat) ^ m"
      by (simp_all only: le_imp_power_dvd le_SucI)
    from dm "1.prems"(1) have "2 ^ Suc k dvd 2 ^ Suc m - length xs" by (rule dvd_diff_nat)
    with m(2) have "2 ^ Suc k \<le> 2 ^ Suc m - length xs" by (intro dvd_imp_le) auto
    with m(2) have "length xs + 2 ^ k < 2 ^ Suc m" by simp
    with m "1.prems"(2) have lg: "log_floor (length (xs @ ys)) = m" by (intro log_floor_eqI) auto
    have "2 ^ Suc k dvd length (drop (2 ^ m) xs)" using "1.prems"(1) dm' by (simp add: dvd_diff_nat)
    from "1.IH" [OF False m_def this "1.prems"(2)]
    have "tree_roots sha (drop (2 ^ m) xs @ ys) = tree_roots sha (drop (2 ^ m) xs) @ [tree_root sha k ys]" .
    with m(1) lg False show ?thesis
      by (simp add: tree_roots_step [of "xs @ ys"] tree_roots_step [of xs, folded m_def])
  qed
qed

lemma tree_root_join:
  "length xs = 2 ^ k \<Longrightarrow> length ys = 2 ^ k \<Longrightarrow>
   tree_root sha (Suc k) (xs @ ys) = hash_combine sha (tree_root sha k xs) (tree_root sha k ys)"
  by simp

lemma bit_of_nat_64: "bit (of_nat n :: 64 word) i \<longleftrightarrow> i < 64 \<and> bit n i"
  by (simp add: bit_of_nat_iff possible_bit_word)

lemma odd_quotient:
  assumes "2 ^ i dvd n" and "bit (n :: nat) i"
  shows "2 ^ i \<le> n" and "2 ^ Suc i dvd n - 2 ^ i"
proof -
  from assms(1) obtain q where q: "n = 2 ^ i * q" ..
  with assms(2) have "odd q" by (simp add: bit_iff_odd)
  then obtain r where "q = 2 * r + 1" by (rule oddE)
  with q show "2 ^ i \<le> n" and "2 ^ Suc i dvd n - 2 ^ i" by simp_all
qed

lemma even_quotient: "2 ^ i dvd n \<Longrightarrow> \<not> bit (n :: nat) i \<Longrightarrow> 2 ^ Suc i dvd n"
  by (auto simp: bit_iff_odd elim!: dvdE)

lemma not_bit_multiple: "2 ^ Suc i dvd n \<Longrightarrow> \<not> bit (n :: nat) i"
  by (auto simp: bit_iff_odd elim!: dvdE)

lemma bit_Suc_of_odd:
  assumes "2 ^ i dvd n" and "bit (n :: nat) i"
  shows "bit (n - 2 ^ i) (Suc i) \<longleftrightarrow> bit n (Suc i)"
proof -
  from assms(1) obtain q where q: "n = 2 ^ i * q" ..
  with assms(2) have "odd q" by (simp add: bit_iff_odd)
  then obtain r where "q = 2 * r + 1" by (rule oddE)
  with q show ?thesis by (simp add: bit_iff_odd div_mult2_eq [of _ "2 ^ i" 2, simplified mult.commute])
qed

section \<open>The mask counts the appended digests\<close>

lemma is_bit_set_iff:
  assumes "imt_mask m = of_nat n" and "i < 64"
  shows "is_bit_set m i \<longleftrightarrow> bit n i"
proof -
  have "imt_mask m AND push_bit i 1 \<noteq> 0 \<longleftrightarrow> bit (imt_mask m) i"
    by (metis and_exp_eq_0_iff_not_bit push_bit_of_1)
  with assms show ?thesis by (simp add: is_bit_set_def bit_of_nat_64)
qed

lemma mask_set_bit:
  assumes "\<not> bit n i"
  shows "(of_nat n :: 64 word) OR push_bit i 1 = of_nat (n + 2 ^ i)"
proof -
  have "(of_nat n :: 64 word) OR push_bit i 1 = of_nat n + push_bit i 1"
    by (rule disjunctive_add [symmetric]) (use assms in \<open>auto simp: bit_of_nat_64 bit_simps\<close>)
  then show ?thesis by (simp add: push_bit_of_1)
qed

lemma mask_clear_bit:
  assumes "2 ^ i dvd n" and "bit n i"
  shows "(of_nat n :: 64 word) AND NOT (push_bit i 1) = of_nat (n - 2 ^ i)"
proof -
  note q = odd_quotient [OF assms]
  from not_bit_multiple [OF q(2)] have nb: "\<not> bit (n - 2 ^ i) i" .
  from mask_set_bit [OF this] q(1) have "(of_nat n :: 64 word) = of_nat (n - 2 ^ i) OR push_bit i 1"
    by simp
  then show ?thesis
    by (simp only:) (rule bit_word_eqI, use nb in \<open>auto simp: bit_of_nat_64 bit_simps\<close>)
qed

definition imt_repr :: "hash_fun \<Rightarrow> incremental_merkle_tree \<Rightarrow> digest_type list \<Rightarrow> bool" where
  "imt_repr sha m xs \<longleftrightarrow> imt_mask m = of_nat (length xs) \<and> imt_trees m = tree_roots sha xs"

text \<open>A set bit splits off the last complete tree of that size.\<close>

lemma split_last_tree:
  assumes "2 ^ i dvd length xs" and "bit (length xs) i"
  obtains us zs where "xs = us @ zs" "length zs = 2 ^ i" "2 ^ Suc i dvd length us"
    "length us = length xs - 2 ^ i" "tree_roots sha xs = tree_roots sha us @ [tree_root sha i zs]"
proof -
  note q = odd_quotient [OF assms]
  let ?us = "take (length xs - 2 ^ i) xs" and ?zs = "drop (length xs - 2 ^ i) xs"
  have "length ?zs = 2 ^ i" and "2 ^ Suc i dvd length ?us" using q by simp_all
  from that [OF _ this] tree_roots_append [OF this(2,1), of sha] show ?thesis by simp
qed

lemma imt_append_at_free:
  assumes "imt_repr sha m xs" and "length ys = 2 ^ i" and "i < 64" and "2 ^ i dvd length xs"
    and "\<not> bit (length xs) i"
  shows "\<exists>m'. imt_append_at sha m (tree_root sha i ys) (length (imt_trees m)) i = Inr m' \<and>
              imt_repr sha m' (xs @ ys)"
proof -
  from assms(1) have m: "imt_mask m = of_nat (length xs)" "imt_trees m = tree_roots sha xs"
    by (simp_all add: imt_repr_def)
  have "tree_roots sha (xs @ ys) = tree_roots sha xs @ [tree_root sha i ys]"
    by (rule tree_roots_append [OF even_quotient [OF assms(4,5)] assms(2)])
  with is_bit_set_iff [OF m(1) assms(3)] mask_set_bit [OF assms(5)] m assms show ?thesis
    by (subst imt_append_at.simps) (simp add: imt_repr_def set_bit_at_def)
qed

lemma imt_append_at_one:
  assumes "imt_repr sha m xs" and "length ys = 2 ^ i" and "Suc i < 64" and "2 ^ i dvd length xs"
    and "bit (length xs) i" and "\<not> bit (length xs) (Suc i)"
  shows "\<exists>m'. imt_append_at sha m (tree_root sha i ys) (length (imt_trees m)) i = Inr m' \<and>
              imt_repr sha m' (xs @ ys)"
proof -
  from assms(1) have m: "imt_mask m = of_nat (length xs)" "imt_trees m = tree_roots sha xs"
    by (simp_all add: imt_repr_def)
  obtain us zs where s: "xs = us @ zs" "length zs = 2 ^ i" "2 ^ Suc i dvd length us"
    "length us = length xs - 2 ^ i" "tree_roots sha xs = tree_roots sha us @ [tree_root sha i zs]"
    by (rule split_last_tree [OF assms(4,5)])
  have nb: "\<not> bit (length us) (Suc i)" using bit_Suc_of_odd [OF assms(4,5)] assms(6) s(4) by simp
  from even_quotient [OF s(3) nb] have "2 ^ Suc (Suc i) dvd length us" .
  from tree_roots_append [OF this, of "zs @ ys" sha] s(1,2) assms(2)
  have roots: "tree_roots sha (xs @ ys) =
      tree_roots sha us @ [hash_combine sha (tree_root sha i zs) (tree_root sha i ys)]"
    by (simp add: tree_root_join)
  have len: "length us + 2 ^ Suc i = length (xs @ ys)" using s(1,2) assms(2) by simp
  have mask: "(of_nat (length xs) AND NOT (push_bit i 1)) OR push_bit (Suc i) 1 = (of_nat (length (xs @ ys)) :: 64 word)"
    unfolding mask_clear_bit [OF assms(4,5)] s(4) [symmetric] mask_set_bit [OF nb] len ..
  show ?thesis
    using is_bit_set_iff [OF m(1), of i] is_bit_set_iff [OF m(1), of "Suc i"] assms m roots s(5) mask
    by (subst imt_append_at.simps) (simp add: imt_repr_def set_bit_at_def clear_bit_at_def)
qed

lemma imt_append_at_carry:
  assumes "imt_repr sha m xs" and "length ys = 2 ^ i" and "Suc i < 64" and "2 ^ i dvd length xs"
    and "bit (length xs) i" and "bit (length xs) (Suc i)"
  obtains m' us zs where "imt_repr sha m' us" "length zs = 2 ^ (i + 2)" "2 ^ (i + 2) dvd length us"
    "xs @ ys = us @ zs"
    "imt_append_at sha m (tree_root sha i ys) (length (imt_trees m)) i =
     imt_append_at sha m' (tree_root sha (i + 2) zs) (length (imt_trees m')) (i + 2)"
proof -
  from assms(1) have m: "imt_mask m = of_nat (length xs)" "imt_trees m = tree_roots sha xs"
    by (simp_all add: imt_repr_def)
  obtain vs z1 where s: "xs = vs @ z1" "length z1 = 2 ^ i" "2 ^ Suc i dvd length vs"
    "length vs = length xs - 2 ^ i" "tree_roots sha xs = tree_roots sha vs @ [tree_root sha i z1]"
    by (rule split_last_tree [OF assms(4,5)])
  have b: "bit (length vs) (Suc i)" using bit_Suc_of_odd [OF assms(4,5)] assms(6) s(4) by simp
  obtain us z2 where t: "vs = us @ z2" "length z2 = 2 ^ Suc i" "2 ^ Suc (Suc i) dvd length us"
    "length us = length vs - 2 ^ Suc i" "tree_roots sha vs = tree_roots sha us @ [tree_root sha (Suc i) z2]"
    by (rule split_last_tree [OF s(3) b])
  let ?m' = "\<lparr>imt_mask = of_nat (length us), imt_trees = tree_roots sha us\<rparr>"
  have mask: "(of_nat (length xs) AND NOT (push_bit i 1)) AND NOT (push_bit (Suc i) 1) = (of_nat (length us) :: 64 word)"
    unfolding mask_clear_bit [OF assms(4,5)] s(4) [symmetric] mask_clear_bit [OF s(3) b] t(4) [symmetric] ..
  have m': "(clear_bit_at (i + 1) (clear_bit_at i m))\<lparr>imt_trees := tree_roots sha us\<rparr> = ?m'"
    using mask m(1) by (simp add: clear_bit_at_def)
  have root: "tree_root sha (i + 2) (z2 @ z1 @ ys) =
      hash_combine sha (tree_root sha (Suc i) z2) (hash_combine sha (tree_root sha i z1) (tree_root sha i ys))"
    using t(2) s(2) assms(2) tree_root_join [of z2 "Suc i" "z1 @ ys"] by (simp add: tree_root_join)
  have step: "imt_append_at sha m (tree_root sha i ys) (length (imt_trees m)) i =
     imt_append_at sha ?m' (tree_root sha (i + 2) (z2 @ z1 @ ys)) (length (imt_trees ?m')) (i + 2)"
    using is_bit_set_iff [OF m(1), of i] is_bit_set_iff [OF m(1), of "Suc i"] assms(3,5,6) m(2) s(5) t(5) m' root
    by (subst imt_append_at.simps) (simp add: Let_def nth_append)
  show ?thesis
  proof (rule that [OF _ _ _ _ step])
    show "imt_repr sha ?m' us" by (simp add: imt_repr_def)
    show "length (z2 @ z1 @ ys) = 2 ^ (i + 2)" using t(2) s(2) assms(2) by simp
    show "2 ^ (i + 2) dvd length us" using t(3) by simp
    show "xs @ ys = us @ z2 @ z1 @ ys" using s(1) t(1) by simp
  qed
qed

lemma imt_append_at_repr:
  assumes "imt_repr sha m xs" and "length ys = 2 ^ i" and "2 ^ i dvd length xs"
    and "length xs + 2 ^ i < 2 ^ 64"
  shows "\<exists>m'. imt_append_at sha m (tree_root sha i ys) (length (imt_trees m)) i = Inr m' \<and>
              imt_repr sha m' (xs @ ys)"
  using assms
proof (induction "64 - i" arbitrary: i m xs ys rule: less_induct)
  case less
  have "(2::nat) ^ i < 2 ^ 64" using less.prems(4) by linarith
  then have i: "i < 64" using power_less_imp_less_exp [of "2::nat" i 64] by simp
  show ?case
  proof (cases "bit (length xs) i")
    case False
    with less.prems i show ?thesis by (intro imt_append_at_free)
  next
    case bi: True
    have "(2::nat) ^ Suc i < 2 ^ 64" using odd_quotient(1) [OF less.prems(3) bi] less.prems(4) by simp
    then have Si: "Suc i < 64" using power_less_imp_less_exp [of "2::nat" "Suc i" 64] by simp
    show ?thesis
    proof (cases "bit (length xs) (Suc i)")
      case False
      with less.prems bi Si show ?thesis by (intro imt_append_at_one)
    next
      case True
      obtain m' us zs where c: "imt_repr sha m' us" "length zs = 2 ^ (i + 2)" "2 ^ (i + 2) dvd length us"
        and eq: "xs @ ys = us @ zs" and step:
        "imt_append_at sha m (tree_root sha i ys) (length (imt_trees m)) i =
         imt_append_at sha m' (tree_root sha (i + 2) zs) (length (imt_trees m')) (i + 2)"
        by (rule imt_append_at_carry [OF less.prems(1,2) Si less.prems(3) bi True])
      have "length us + 2 ^ (i + 2) < 2 ^ 64"
        using arg_cong [OF eq, of length] c(2) less.prems(2,4) by simp
      from less.hyps [OF _ c this] i step eq show ?thesis by simp
    qed
  qed
qed

lemma pop_count_card: "pop_count w = card {j. j < 64 \<and> bit w j}"
proof -
  have "set (filter (bit w) [0 ..< 64]) = {j. j < 64 \<and> bit w j}" by auto
  with distinct_card [of "filter (bit w) [0 ..< 64]"] show ?thesis by (simp add: pop_count_def)
qed

lemma pop_count_top_bit:
  assumes "r < 2 ^ k" and "k < 64"
  shows "pop_count (of_nat (r + 2 ^ k)) = Suc (pop_count (of_nat r))"
proof -
  have nb: "\<not> bit r k" using assms(1) by (simp add: bit_iff_odd)
  have w: "(of_nat (r + 2 ^ k) :: 64 word) = of_nat r OR push_bit k 1"
    by (rule mask_set_bit [OF nb, symmetric])
  have "{j. j < 64 \<and> bit (of_nat (r + 2 ^ k) :: 64 word) j} = insert k {j. j < 64 \<and> bit (of_nat r :: 64 word) j}"
    unfolding w using assms(2) by (auto simp: bit_simps)
  with nb show ?thesis by (simp add: pop_count_card bit_of_nat_64)
qed

lemma pop_count_tree_roots:
  assumes "length xs < 2 ^ 64"
  shows "pop_count (of_nat (length xs)) = length (tree_roots sha xs)"
  using assms
proof (induction sha xs rule: tree_roots.induct)
  case (1 sha xs)
  show ?case
  proof (cases "xs = []")
    case True
    then show ?thesis by (simp add: pop_count_def)
  next
    case False
    define k where "k = log_floor (length xs)"
    define r where "r = length xs - 2 ^ k"
    have k: "2 ^ k \<le> length xs" "length xs < 2 ^ Suc k"
      using log_floor_bounds [of "length xs"] False by (simp_all add: k_def)
    have "(2::nat) ^ k < 2 ^ 64" using k(1) "1.prems" by linarith
    then have "k < 64" using power_less_imp_less_exp [of "2::nat" k 64] by simp
    from pop_count_top_bit [OF _ this, of r] k
    have "pop_count (of_nat (length xs)) = Suc (pop_count (of_nat r))" by (simp add: r_def)
    moreover from "1.IH" [OF False k_def] "1.prems"
    have "pop_count (of_nat r) = length (tree_roots sha (drop (2 ^ k) xs))" by (simp add: r_def)
    ultimately show ?thesis using tree_roots_step [OF False, of sha, folded k_def] by simp
  qed
qed

lemma imt_append_repr:
  assumes "imt_repr sha m xs" and "length xs + 1 < 2 ^ 64"
  shows "\<exists>m'. imt_append sha m d = Inr m' \<and> imt_repr sha m' (xs @ [d])"
proof -
  from imt_append_at_repr [OF assms(1), of "[d]" 0] assms(2) obtain m' where
    m': "imt_append_at sha m d (length (imt_trees m)) 0 = Inr m'" "imt_repr sha m' (xs @ [d])" by auto
  have "length (imt_trees m) = pop_count (imt_mask m)" and "length (imt_trees m') = pop_count (imt_mask m')"
    using assms m'(2) pop_count_tree_roots [of xs sha] pop_count_tree_roots [of "xs @ [d]" sha]
    by (simp_all add: imt_repr_def)
  with m' show ?thesis by (simp add: imt_append_def)
qed

lemma imt_get_root_at_join:
  "idx < length (imt_trees m) \<Longrightarrow> imt_get_root_at sha m idx = Inr (join_roots sha (drop idx (imt_trees m)))"
proof (induction sha m idx rule: imt_get_root_at.induct)
  case (1 sha m idx)
  show ?case
  proof (cases "idx + 1 = length (imt_trees m)")
    case True
    then have "drop idx (imt_trees m) = [imt_trees m ! idx]"
      using Cons_nth_drop_Suc [of idx "imt_trees m"] by simp
    with True show ?thesis by (subst imt_get_root_at.simps) simp
  next
    case False
    with "1.prems" have "drop (Suc idx) (imt_trees m) \<noteq> []" by simp
    with 1 False Cons_nth_drop_Suc [OF "1.prems", symmetric] show ?thesis
      by (subst imt_get_root_at.simps) (simp add: join_roots_Cons)
  qed
qed

lemma imt_get_root_repr:
  assumes "imt_repr sha m xs" and "length xs < 2 ^ 64"
  shows "imt_get_root sha m = Inr (merkle_root sha xs)"
proof (cases "xs = []")
  case True
  with assms show ?thesis by (simp add: imt_repr_def imt_get_root_def merkle_root_def)
next
  case False
  have "(of_nat (length xs) :: 64 word) \<noteq> 0"
    using assms(2) False by (simp add: word_unat_eq_iff unat_of_nat)
  with assms(1) False imt_get_root_at_join [of 0 m sha] show ?thesis
    by (simp add: imt_repr_def imt_get_root_def merkle_root_def)
qed

fun imt_append_all :: "hash_fun \<Rightarrow> incremental_merkle_tree \<Rightarrow> digest_type list \<Rightarrow> incremental_merkle_tree res" where
  "imt_append_all sha m [] = Inr m"
| "imt_append_all sha m (d # ds) = rbind (imt_append sha m d) (\<lambda>m'. imt_append_all sha m' ds)"

lemma imt_append_all_repr:
  "imt_repr sha m xs \<Longrightarrow> length xs + length ds < 2 ^ 64 \<Longrightarrow>
   \<exists>m'. imt_append_all sha m ds = Inr m' \<and> imt_repr sha m' (xs @ ds)"
proof (induction ds arbitrary: m xs)
  case (Cons d ds)
  then obtain m1 where "imt_append sha m d = Inr m1" and "imt_repr sha m1 (xs @ [d])"
    using imt_append_repr [of sha m xs d] by auto
  with Cons.IH [of m1 "xs @ [d]"] Cons.prems show ?case by simp
qed simp

text \<open>
  C21: \<open>calculate_merkle\<close> fails none of its assertions on any sequence, and its result is the
  reference root, whether or not the work was sliced over the thread pool.
\<close>

theorem calculate_merkle_correct: "calculate_merkle sha xs = Inr (merkle_root sha xs)"
  by (rule calculate_merkle_eq)

text \<open>
  C22: Appending fewer than \<open>2 ^ 64\<close> digests to an empty \<open>incremental_merkle_tree\<close> fails no
  assertion, counts them, and leaves the root that \<open>calculate_merkle\<close> computes from all of them.
\<close>

theorem incremental_merkle_correct:
  assumes "length ds < 2 ^ 64"
  shows "\<exists>m. imt_append_all sha imt_default ds = Inr m \<and> imt_get_root sha m = calculate_merkle sha ds \<and>
             num_digests_appended m = of_nat (length ds)"
proof -
  have "imt_repr sha imt_default []" by (simp add: imt_repr_def imt_default_def)
  from imt_append_all_repr [OF this, of ds] assms obtain m where
    m: "imt_append_all sha imt_default ds = Inr m" "imt_repr sha m ds" by auto
  with imt_get_root_repr [OF m(2) assms] show ?thesis
    by (simp add: calculate_merkle_eq num_digests_appended_def imt_repr_def)
qed

theorem incremental_merkle_correct_witness:
  "\<exists>m. imt_append_all (\<lambda>b. Sha256 (ucast (b ! 0)) 0 0 1) imt_default [sha256_zero, Sha256 1 2 3 4, Sha256 5 6 7 8] = Inr m \<and>
       num_digests_appended m = 3"
  using incremental_merkle_correct [of "[sha256_zero, Sha256 1 2 3 4, Sha256 5 6 7 8]"
    "\<lambda>b. Sha256 (ucast (b ! 0)) 0 0 1"] by auto

section \<open>The root binds the sequence\<close>

text \<open>
  A hash function on longer inputs always has collisions somewhere; what binds is that none occurs
  among the byte strings that are actually hashed.  \<open>merkle_inputs\<close> lists these for a sequence,
  \<open>clash\<close> says that two lists hold different strings with the same hash.
\<close>

definition clash :: "hash_fun \<Rightarrow> byte list list \<Rightarrow> byte list list \<Rightarrow> bool" where
  "clash sha as bs \<longleftrightarrow> list_ex (\<lambda>a. list_ex (\<lambda>b. a \<noteq> b \<and> sha a = sha b) bs) as"

definition pair_input :: "digest_type \<Rightarrow> digest_type \<Rightarrow> byte list" where
  "pair_input a b = sha256_data a @ sha256_data b"

fun tree_inputs :: "hash_fun \<Rightarrow> nat \<Rightarrow> digest_type list \<Rightarrow> byte list list" where
  "tree_inputs sha 0 xs = []"
| "tree_inputs sha (Suc k) xs =
     pair_input (tree_root sha k (take (2 ^ k) xs)) (tree_root sha k (drop (2 ^ k) xs)) #
     tree_inputs sha k (take (2 ^ k) xs) @ tree_inputs sha k (drop (2 ^ k) xs)"

function roots_inputs :: "hash_fun \<Rightarrow> digest_type list \<Rightarrow> byte list list" where
  "roots_inputs sha xs =
     (if xs = [] then []
      else let k = log_floor (length xs) in
        tree_inputs sha k (take (2 ^ k) xs) @ roots_inputs sha (drop (2 ^ k) xs))"
  by pat_completeness auto
termination
  by (relation "measure (\<lambda>(sha, xs). length xs)") auto

declare roots_inputs.simps [simp del]

fun join_inputs :: "hash_fun \<Rightarrow> digest_type list \<Rightarrow> byte list list" where
  "join_inputs sha (r # r' # rs) = pair_input r (join_roots sha (r' # rs)) # join_inputs sha (r' # rs)"
| "join_inputs sha _ = []"

definition merkle_inputs :: "hash_fun \<Rightarrow> digest_type list \<Rightarrow> byte list list" where
  "merkle_inputs sha xs = roots_inputs sha xs @ join_inputs sha (tree_roots sha xs)"

lemma clash_append [simp]:
  "clash sha (as @ as') bs \<longleftrightarrow> clash sha as bs \<or> clash sha as' bs"
  "clash sha as (bs @ bs') \<longleftrightarrow> clash sha as bs \<or> clash sha as bs'"
  by (auto simp: clash_def list_ex_iff)

lemma clash_Cons: "clash sha (a # as) (b # bs) \<longleftrightarrow> a \<noteq> b \<and> sha a = sha b \<or> clash sha [a] bs \<or> clash sha as [b] \<or> clash sha as bs"
  by (auto simp: clash_def list_ex_iff)

lemma pair_input_eq [simp]: "pair_input a b = pair_input c d \<longleftrightarrow> a = c \<and> b = d"
  by (simp add: pair_input_def)

lemma hash_combine_input: "hash_combine sha a b = sha (pair_input a b)"
  by (simp add: hash_combine_def pair_input_def)

lemma roots_inputs_step:
  "xs \<noteq> [] \<Longrightarrow> roots_inputs sha xs = tree_inputs sha (log_floor (length xs)) (take (2 ^ log_floor (length xs)) xs) @
     roots_inputs sha (drop (2 ^ log_floor (length xs)) xs)"
  by (subst roots_inputs.simps) (simp add: Let_def)

lemma tree_root_binding:
  "\<not> clash sha (tree_inputs sha k xs) (tree_inputs sha k ys) \<Longrightarrow> length xs = 2 ^ k \<Longrightarrow> length ys = 2 ^ k \<Longrightarrow>
   tree_root sha k xs = tree_root sha k ys \<Longrightarrow> xs = ys"
proof (induction k arbitrary: xs ys)
  case 0
  then show ?case by (auto simp: length_Suc_conv)
next
  case (Suc k)
  from Suc.prems(1,4) have eqs: "tree_root sha k (take (2 ^ k) xs) = tree_root sha k (take (2 ^ k) ys)"
    "tree_root sha k (drop (2 ^ k) xs) = tree_root sha k (drop (2 ^ k) ys)"
    by (auto simp: hash_combine_input clash_Cons)
  from Suc.prems(1) have nc: "\<not> clash sha (tree_inputs sha k (take (2 ^ k) xs)) (tree_inputs sha k (take (2 ^ k) ys))"
    "\<not> clash sha (tree_inputs sha k (drop (2 ^ k) xs)) (tree_inputs sha k (drop (2 ^ k) ys))"
    by (auto simp: clash_Cons)
  have "take (2 ^ k) xs = take (2 ^ k) ys"
    by (rule Suc.IH [OF nc(1) _ _ eqs(1)]) (use Suc.prems(2,3) in simp_all)
  moreover have "drop (2 ^ k) xs = drop (2 ^ k) ys"
    by (rule Suc.IH [OF nc(2) _ _ eqs(2)]) (use Suc.prems(2,3) in simp_all)
  ultimately have "take (2 ^ k) xs @ drop (2 ^ k) xs = take (2 ^ k) ys @ drop (2 ^ k) ys" by (rule arg_cong2)
  then show ?case by simp
qed

lemma tree_roots_binding:
  "\<not> clash sha (roots_inputs sha xs) (roots_inputs sha ys) \<Longrightarrow> length xs = length ys \<Longrightarrow> tree_roots sha xs = tree_roots sha ys \<Longrightarrow> xs = ys"
proof (induction sha xs arbitrary: ys rule: tree_roots.induct)
  case (1 sha xs)
  show ?case
  proof (cases "xs = []")
    case False
    define k where "k = log_floor (length xs)"
    have k: "2 ^ k \<le> length xs"
      using log_floor_bounds [of "length xs"] False by (simp add: k_def)
    from False "1.prems"(2) have "ys \<noteq> []" by auto
    then have roots: "tree_root sha k (take (2 ^ k) xs) = tree_root sha k (take (2 ^ k) ys)"
      "tree_roots sha (drop (2 ^ k) xs) = tree_roots sha (drop (2 ^ k) ys)"
      using "1.prems"(2,3) False by (simp_all add: tree_roots_step k_def)
    have nc: "\<not> clash sha (tree_inputs sha k (take (2 ^ k) xs)) (tree_inputs sha k (take (2 ^ k) ys))"
      "\<not> clash sha (roots_inputs sha (drop (2 ^ k) xs)) (roots_inputs sha (drop (2 ^ k) ys))"
      using "1.prems"(1,2) False \<open>ys \<noteq> []\<close> by (simp_all add: roots_inputs_step k_def)
    have "take (2 ^ k) xs = take (2 ^ k) ys"
      by (rule tree_root_binding [OF nc(1) _ _ roots(1)]) (use k "1.prems"(2) in simp_all)
    moreover have "drop (2 ^ k) xs = drop (2 ^ k) ys"
      by (rule "1.IH" [OF False k_def nc(2) _ roots(2)]) (use "1.prems"(2) in simp)
    ultimately have "take (2 ^ k) xs @ drop (2 ^ k) xs = take (2 ^ k) ys @ drop (2 ^ k) ys" by (rule arg_cong2)
    then show ?thesis by simp
  qed (use "1.prems" in simp)
qed

lemma join_roots_binding:
  "\<not> clash sha (join_inputs sha rs) (join_inputs sha qs) \<Longrightarrow> length rs = length qs \<Longrightarrow> join_roots sha rs = join_roots sha qs \<Longrightarrow> rs = qs"
proof (induction sha rs arbitrary: qs rule: join_roots.induct)
  case (3 sha r r' rs)
  obtain q q' qs' where qs: "qs = q # q' # qs'"
    using "3.prems"(2) by (cases qs; cases "tl qs") auto
  with "3.prems"(1,3) have "r = q" and eq: "join_roots sha (r' # rs) = join_roots sha (q' # qs')"
    and "\<not> clash sha (join_inputs sha (r' # rs)) (join_inputs sha (q' # qs'))"
    by (auto simp: hash_combine_input clash_Cons)
  with "3.IH" [of "q' # qs'"] "3.prems"(2) qs show ?case by simp
next
  case (2 sha r)
  then show ?case by (cases qs) auto
qed simp

lemma length_tree_roots: "length xs = length ys \<Longrightarrow> length (tree_roots sha xs) = length (tree_roots sha ys)"
proof (induction sha xs arbitrary: ys rule: tree_roots.induct)
  case (1 sha xs)
  show ?case
  proof (cases "xs = []")
    case False
    with "1.prems" have "ys \<noteq> []" by auto
    with "1.IH" [OF False refl, of "drop (2 ^ log_floor (length xs)) ys"] "1.prems" False show ?thesis
      by (simp add: tree_roots_step)
  qed (use "1.prems" in simp)
qed

text \<open>
  C23: The root commits to the sequence: for two different sequences of the same length with the
  same root, two different 64-byte strings hashed on the way to the one and the other root have the same hash.
\<close>

theorem merkle_root_binding:
  assumes "length xs = length ys" and "xs \<noteq> ys" and "calculate_merkle sha xs = calculate_merkle sha ys"
  shows "\<exists>a \<in> set (merkle_inputs sha xs). \<exists>b \<in> set (merkle_inputs sha ys). a \<noteq> b \<and> sha a = sha b"
proof (rule ccontr)
  assume "\<not> ?thesis"
  then have "\<not> clash sha (merkle_inputs sha xs) (merkle_inputs sha ys)" by (auto simp: clash_def list_ex_iff)
  then have nc: "\<not> clash sha (roots_inputs sha xs) (roots_inputs sha ys)"
    "\<not> clash sha (join_inputs sha (tree_roots sha xs)) (join_inputs sha (tree_roots sha ys))"
    by (simp_all add: merkle_inputs_def)
  from assms(3) have "join_roots sha (tree_roots sha xs) = join_roots sha (tree_roots sha ys)"
    by (simp add: calculate_merkle_eq merkle_root_def)
  with join_roots_binding [OF nc(2) length_tree_roots [OF assms(1)]]
  have "tree_roots sha xs = tree_roots sha ys" by blast
  with tree_roots_binding [OF nc(1) assms(1)] assms(2) show False by blast
qed

theorem merkle_root_binding_witness:
  "\<exists>a \<in> set (merkle_inputs (\<lambda>_. sha256_zero) [sha256_zero, sha256_zero]).
   \<exists>b \<in> set (merkle_inputs (\<lambda>_. sha256_zero) [sha256_zero, Sha256 1 0 0 0]). a \<noteq> b \<and> sha256_zero = sha256_zero"
proof (rule merkle_root_binding)
  let ?x = "[sha256_zero, sha256_zero]" and ?y = "[sha256_zero, Sha256 1 0 0 0]"
  show "length ?x = length ?y" and "?x \<noteq> ?y" by (simp_all add: sha256_zero_def)
  show "calculate_merkle (\<lambda>_. sha256_zero) ?x = calculate_merkle (\<lambda>_. sha256_zero) ?y"
    by (simp add: calculate_merkle_eq merkle_root_def tree_roots_pow2 [of _ 1] hash_combine_def)
qed

end
