(* ===== verification/Block_Header_State.thy ===== *)
theory Block_Header_State
  imports Block_Header Qc Merkle
begin

text \<open>
  The header state of a block (\<open>block_header_state.hpp\<close>, \<open>block_header_state.cpp\<close>): the finality
  core, the active, pending and proposed policies, the digests finalizers sign, and the two ways to
  the next state, assembling a block and receiving a header.

  \<open>sha\<close> is SHA-256, \<open>g1_ok\<close> the point check of the BLS library, \<open>validator\<close> the callback that
  checks activated protocol features.  A \<open>shared_ptr\<close> to an immutable policy is the policy, or an
  option where it may be null.  The comparisons of proposer policy pointers in
  \<open>evaluate_proposer_policies_for_promotion\<close> ask which of the three members was selected; the model
  returns that member, a \<open>proposer_slot\<close>.
\<close>

section \<open>State\<close>

record block_header_state =
  bhs_block_id :: block_id_type
  bhs_header :: block_header
  bhs_activated_protocol_features :: "digest_type list"
  bhs_core :: finality_core
  bhs_active_finalizer_policy :: finalizer_policy
  bhs_active_proposer_policy :: proposer_policy
  bhs_latest_proposed_proposer_policy :: "proposer_policy option"
  bhs_latest_pending_proposer_policy :: "proposer_policy option"
  bhs_proposed_finalizer_policies :: "(block_num_type \<times> finalizer_policy) list"
  bhs_pending_finalizer_policy :: "(block_num_type \<times> finalizer_policy) option"
  bhs_latest_qc_claim_block_active_finalizer_policy :: "finalizer_policy option"
  bhs_finalizer_policy_generation :: "32 word"
  bhs_last_pending_finalizer_policy_digest :: digest_type
  bhs_last_pending_finalizer_policy_start_timestamp :: block_timestamp_type
  bhs_header_exts :: header_extension_multimap

abbreviation bhs_timestamp :: "block_header_state \<Rightarrow> block_timestamp_type" where
  "bhs_timestamp b \<equiv> bh_timestamp (bhs_header b)"

definition bhs_finality_mroot :: "block_header_state \<Rightarrow> digest_type" where
  "bhs_finality_mroot b = (if header_is_proper_svnn_block (bhs_header b) then bh_action_mroot (bhs_header b) else sha256_zero)"

definition bhs_block_num :: "block_header_state \<Rightarrow> block_num_type" where
  "bhs_block_num b = num_from_id (bh_previous (bhs_header b)) + 1"

definition last_qc_block_timestamp :: "block_header_state \<Rightarrow> block_timestamp_type res" where
  "last_qc_block_timestamp b = rbind (latest_qc_claim (bhs_core b)) (\<lambda>c.
     rbind (get_block_reference (bhs_core b) (claim_block_num c)) (\<lambda>r. Inr (ref_timestamp r)))"

definition is_savanna_genesis_block :: "block_header_state \<Rightarrow> bool res" where
  "is_savanna_genesis_block b = is_genesis_block_num (bhs_core b) (bhs_block_num b)"

definition is_needed :: "block_header_state \<Rightarrow> qc_claim_t \<Rightarrow> bool res" where
  "is_needed b c = rbind (latest_qc_claim (bhs_core b)) (\<lambda>l. Inr (l < c))"

definition get_new_protocol_feature_activations :: "header_extension_multimap \<Rightarrow> digest_type list" where
  "get_new_protocol_feature_activations exts =
     (case ext_find protocol_feature_activation_id exts of Some (Protocol_feature_activation ds) \<Rightarrow> ds | _ \<Rightarrow> [])"

section \<open>Digests\<close>

definition pack_qc_link :: "qc_link \<Rightarrow> byte list res" where
  "pack_qc_link = pack_map (\<lambda>l. (source_block_num l, target_block_num l, is_link_strong l)) (pack_pair pack_u32 (pack_pair pack_u32 pack_bool))"

text \<open>The fields of a reference without the policy generations, as version 1.0.0 had them.\<close>

definition pack_ref_v0 :: "block_ref \<Rightarrow> byte list res" where
  "pack_ref_v0 = pack_map (\<lambda>r. (ref_block_id r, ref_timestamp r, ref_finality_digest r)) (pack_pair pack_sha256 (pack_pair pack_u32 pack_sha256))"

definition pack_for_digest :: "finality_core \<Rightarrow> byte list res" where
  "pack_for_digest c =
     rbind (pack_vector pack_qc_link (links c)) (\<lambda>a.
     rbind (pack_varint (of_nat (length (refs c)))) (\<lambda>n.
     rbind (pack_all pack_ref_v0 (refs c)) (\<lambda>r.
     rbind (pack_u32 (genesis_timestamp c)) (\<lambda>t. Inr (a @ n @ r @ t)))))"

definition pack_finalizer_policy :: "finalizer_policy \<Rightarrow> byte list res" where
  "pack_finalizer_policy = pack_map (\<lambda>p. (fp_generation p, fp_threshold p, fp_finalizers p))
     (pack_pair pack_u32 (pack_pair pack_u64 (pack_vector pack_finalizer_authority)))"

definition pack_proposer_policy :: "proposer_policy \<Rightarrow> byte list res" where
  "pack_proposer_policy = pack_map (\<lambda>p. (proposal_time p, proposer_schedule p)) (pack_pair pack_u32 pack_schedule)"

text \<open>A \<open>shared_ptr\<close> is packed like an optional.\<close>

definition pack_ptr :: "('a \<Rightarrow> byte list res) \<Rightarrow> 'a option \<Rightarrow> byte list res" where
  "pack_ptr p v = pack_optional p v"

definition hash_packed :: "(byte list \<Rightarrow> sha256) \<Rightarrow> ('a \<Rightarrow> byte list res) \<Rightarrow> 'a \<Rightarrow> digest_type res" where
  "hash_packed sha p x = rbind (p x) (\<lambda>b. Inr (sha b))"

definition compute_base_digest :: "(byte list \<Rightarrow> sha256) \<Rightarrow> block_header_state \<Rightarrow> digest_type res" where
  "compute_base_digest sha b =
     rbind (pack_header (bhs_header b)) (\<lambda>h.
     rbind (pack_for_digest (bhs_core b)) (\<lambda>c.
     rbind (pack_vector (pack_pair pack_u32 (\<lambda>p. pack_ptr pack_finalizer_policy (Some p))) (bhs_proposed_finalizer_policies b)) (\<lambda>pr.
     rbind (pack_optional (pack_pair pack_u32 (\<lambda>p. pack_ptr pack_finalizer_policy (Some p))) (bhs_pending_finalizer_policy b)) (\<lambda>pe.
     rbind (pack_proposer_policy (bhs_active_proposer_policy b)) (\<lambda>a.
     rbind (pack_ptr pack_proposer_policy (bhs_latest_proposed_proposer_policy b)) (\<lambda>lpr.
     rbind (pack_ptr pack_proposer_policy (bhs_latest_pending_proposer_policy b)) (\<lambda>lpe.
     rbind (pack_vector pack_sha256 (bhs_activated_protocol_features b)) (\<lambda>f.
     Inr (sha (h @ c @ pr @ pe @ a @ lpr @ lpe @ f))))))))))"

definition block_ref_digest :: "(byte list \<Rightarrow> sha256) \<Rightarrow> block_ref \<Rightarrow> block_ref \<Rightarrow> digest_type res" where
  "block_ref_digest sha parent r =
     hash_packed sha (pack_pair pack_u32 (pack_pair pack_u32 (pack_pair pack_sha256 pack_u32)))
       (ref_block_num r, ref_timestamp r, ref_finality_digest r, ref_timestamp parent)"

fun ref_digests :: "(byte list \<Rightarrow> sha256) \<Rightarrow> block_ref list \<Rightarrow> digest_type list res" where
  "ref_digests sha (p # r # rs) = rbind (block_ref_digest sha p r) (\<lambda>d. rbind (ref_digests sha (r # rs)) (\<lambda>ds. Inr (d # ds)))"
| "ref_digests sha _ = Inr []"

definition get_reversible_blocks_mroot :: "(byte list \<Rightarrow> sha256) \<Rightarrow> finality_core \<Rightarrow> digest_type res" where
  "get_reversible_blocks_mroot sha c =
     (if length (refs c) \<le> 1 then Inr sha256_zero
      else rbind (ref_digests sha (refs c)) (calculate_merkle sha))"

definition light_header_protocol_version_major :: "32 word" where
  "light_header_protocol_version_major = 1"

definition light_header_protocol_version_minor :: "32 word" where
  "light_header_protocol_version_minor = 0"

definition get_last_pending_finalizer_policy :: "block_header_state \<Rightarrow> finalizer_policy" where
  "get_last_pending_finalizer_policy b =
     (case bhs_pending_finalizer_policy b of Some (_, p) \<Rightarrow> p | None \<Rightarrow> bhs_active_finalizer_policy b)"

text \<open>The three structures of commitments, each hashed into the next.\<close>

definition pack_level_3 :: "digest_type \<times> block_num_type \<times> digest_type \<times> block_timestamp_type \<times> block_timestamp_type \<times> digest_type \<Rightarrow> byte list res" where
  "pack_level_3 = pack_pair pack_sha256 (pack_pair pack_u32 (pack_pair pack_sha256 (pack_pair pack_u32 (pack_pair pack_u32 pack_sha256))))"

definition level_3_commitments :: "(byte list \<Rightarrow> sha256) \<Rightarrow> block_header_state \<Rightarrow>
    (digest_type \<times> block_num_type \<times> digest_type \<times> block_timestamp_type \<times> block_timestamp_type \<times> digest_type) res" where
  "level_3_commitments sha b =
     rbind (latest_qc_claim (bhs_core b)) (\<lambda>claim.
     rbind (if is_genesis_core (bhs_core b) then Inr block_ref_default
            else get_block_reference (bhs_core b) (claim_block_num claim)) (\<lambda>blk_ref.
     rbind (get_reversible_blocks_mroot sha (bhs_core b)) (\<lambda>mroot.
     rbind (compute_base_digest sha b) (\<lambda>base.
     Inr (mroot, claim_block_num claim, ref_finality_digest blk_ref, ref_timestamp blk_ref, bhs_timestamp b, base)))))"

definition pack_level_2 :: "digest_type \<times> block_timestamp_type \<times> digest_type \<Rightarrow> byte list res" where
  "pack_level_2 = pack_pair pack_sha256 (pack_pair pack_u32 pack_sha256)"

definition level_2_commitments :: "(byte list \<Rightarrow> sha256) \<Rightarrow> block_header_state \<Rightarrow> (digest_type \<times> block_timestamp_type \<times> digest_type) res" where
  "level_2_commitments sha b =
     rbind (level_3_commitments sha b) (\<lambda>l3.
     rbind (hash_packed sha pack_level_3 l3) (\<lambda>d3.
     Inr (bhs_last_pending_finalizer_policy_digest b, bhs_last_pending_finalizer_policy_start_timestamp b, d3)))"

definition pack_finality_digest_data ::
  "32 word \<times> 32 word \<times> 32 word \<times> 32 word \<times> digest_type \<times> digest_type \<Rightarrow> byte list res" where
  "pack_finality_digest_data =
     pack_pair pack_u32 (pack_pair pack_u32 (pack_pair pack_u32 (pack_pair pack_u32 (pack_pair pack_sha256 pack_sha256))))"

definition finality_digest_data :: "(byte list \<Rightarrow> sha256) \<Rightarrow> block_header_state \<Rightarrow>
    (32 word \<times> 32 word \<times> 32 word \<times> 32 word \<times> digest_type \<times> digest_type) res" where
  "finality_digest_data sha b =
     rbind (level_2_commitments sha b) (\<lambda>l2.
     rbind (hash_packed sha pack_level_2 l2) (\<lambda>d2.
     Inr (light_header_protocol_version_major, light_header_protocol_version_minor,
       fp_generation (bhs_active_finalizer_policy b), fp_generation (get_last_pending_finalizer_policy b), bhs_finality_mroot b, d2)))"

definition compute_finality_digest :: "(byte list \<Rightarrow> sha256) \<Rightarrow> block_header_state \<Rightarrow> digest_type res" where
  "compute_finality_digest sha b = rbind (finality_digest_data sha b) (hash_packed sha pack_finality_digest_data)"

definition make_block_ref :: "(byte list \<Rightarrow> sha256) \<Rightarrow> block_header_state \<Rightarrow> block_ref res" where
  "make_block_ref sha b =
     rbind (compute_finality_digest sha b) (\<lambda>d.
     Inr \<lparr>ref_block_id = bhs_block_id b, ref_timestamp = bhs_timestamp b, ref_finality_digest = d,
          ref_active_policy_generation = fp_generation (bhs_active_finalizer_policy b),
          ref_pending_policy_generation = (case bhs_pending_finalizer_policy b of Some (_, p) \<Rightarrow> fp_generation p | None \<Rightarrow> 0)\<rparr>)"

section \<open>Policies in force\<close>

datatype proposer_slot = Active_slot | Proposed_slot | Pending_slot

definition get_active_proposer_policy_for_block_at :: "block_header_state \<Rightarrow> block_timestamp_type \<Rightarrow> proposer_slot res" where
  "get_active_proposer_policy_for_block_at b next_block_timestamp =
     ensure (bhs_timestamp b < next_block_timestamp) Block_too_old_exception (
     if in_same_round next_block_timestamp (bhs_timestamp b) then Inr Active_slot
     else if bhs_latest_proposed_proposer_policy b = None \<and> bhs_latest_pending_proposer_policy b = None then Inr Active_slot
     else
       rbind (case (bhs_latest_proposed_proposer_policy b, get_prior_round_start_slot (bhs_timestamp b)) of
           (Some p, Some s) \<Rightarrow>
             if proposal_time p < s then rbind (last_final_block_timestamp (bhs_core b)) (\<lambda>t. Inr (proposal_time p \<le> t)) else Inr False
         | _ \<Rightarrow> Inr False) (\<lambda>use_proposed.
       if use_proposed then Inr Proposed_slot
       else
         rbind (case bhs_latest_pending_proposer_policy b of
             Some p \<Rightarrow> rbind (last_final_block_timestamp (bhs_core b)) (\<lambda>t. Inr (proposal_time p \<le> t))
           | None \<Rightarrow> Inr False) (\<lambda>use_pending.
         Inr (if use_pending then Pending_slot else Active_slot))))"

definition policy_in_slot :: "block_header_state \<Rightarrow> proposer_slot \<Rightarrow> proposer_policy" where
  "policy_in_slot b s = (case s of
      Active_slot \<Rightarrow> bhs_active_proposer_policy b
    | Proposed_slot \<Rightarrow> the (bhs_latest_proposed_proposer_policy b)
    | Pending_slot \<Rightarrow> the (bhs_latest_pending_proposer_policy b))"

definition bhs_get_scheduled_producer :: "block_header_state \<Rightarrow> block_timestamp_type \<Rightarrow> producer_authority res" where
  "bhs_get_scheduled_producer b t = get_scheduled_producer (sched_producers (proposer_schedule (bhs_active_proposer_policy b))) t"

definition get_producer_for_block_at :: "block_header_state \<Rightarrow> block_timestamp_type \<Rightarrow> producer_authority res" where
  "get_producer_for_block_at b next_block_timestamp =
     rbind (get_active_proposer_policy_for_block_at b next_block_timestamp) (\<lambda>s.
     get_scheduled_producer (sched_producers (proposer_schedule (policy_in_slot b s))) next_block_timestamp)"

definition pending_producers :: "block_header_state \<Rightarrow> producer_authority_schedule option" where
  "pending_producers b = map_option proposer_schedule (bhs_latest_pending_proposer_policy b)"

definition get_last_proposed_finalizer_policy :: "block_header_state \<Rightarrow> finalizer_policy" where
  "get_last_proposed_finalizer_policy b =
     (if bhs_proposed_finalizer_policies b \<noteq> [] then snd (last (bhs_proposed_finalizer_policies b))
      else case bhs_pending_finalizer_policy b of Some (_, p) \<Rightarrow> p | None \<Rightarrow> bhs_active_finalizer_policy b)"

definition get_last_proposed_proposer_policy :: "block_header_state \<Rightarrow> proposer_policy" where
  "get_last_proposed_proposer_policy b =
     (case bhs_latest_proposed_proposer_policy b of
        Some p \<Rightarrow> p
      | None \<Rightarrow> (case bhs_latest_pending_proposer_policy b of Some p \<Rightarrow> p | None \<Rightarrow> bhs_active_proposer_policy b))"

text \<open>
  The lookup of the policies that applied to a referenced block.  The assertions are those of a
  debug build; each is followed by a check that also runs in release builds, and the model keeps the
  first that fails.
\<close>

definition get_finalizer_policies :: "block_header_state \<Rightarrow> block_ref \<Rightarrow> finalizer_policies_t res" where
  "get_finalizer_policies b r =
     rbind (if links (bhs_core b) = [] then Inr True
            else rbind (latest_qc_claim (bhs_core b)) (\<lambda>c. rbind (current_block_num (bhs_core b)) (\<lambda>n.
              Inr (claim_block_num c \<le> ref_block_num r \<and> ref_block_num r \<le> n)))) (\<lambda>in_range.
     ensure in_range Assert_failed (
     let active_gen = ref_active_policy_generation r; pending_gen = ref_pending_policy_generation r in
     ensure (active_gen \<noteq> 0) Assert_failed (
     rbind (if fp_generation (bhs_active_finalizer_policy b) = active_gen then Inr (bhs_active_finalizer_policy b)
            else ensure (pred_option (\<lambda>(_, p). active_gen < fp_generation p) (bhs_pending_finalizer_policy b)) Assert_failed (
              case bhs_latest_qc_claim_block_active_finalizer_policy b of
                None \<Rightarrow> Inl Assert_failed
              | Some p \<Rightarrow> ensure (fp_generation p = active_gen) Assert_failed (Inr p))) (\<lambda>active.
     rbind (if pending_gen = 0 then Inr None
            else if pending_gen = fp_generation (bhs_active_finalizer_policy b) then Inr (Some (bhs_active_finalizer_policy b))
            else case bhs_pending_finalizer_policy b of
              None \<Rightarrow> Inl Assert_failed
            | Some (_, p) \<Rightarrow> ensure (fp_generation p = pending_gen) Assert_failed (Inr (Some p))) (\<lambda>pending.
     Inr \<lparr>pol_finality_digest = ref_finality_digest r, active_finalizer_policy = active, pending_finalizer_policy = pending\<rparr>)))))"

definition get_active_finalizer_policy_generation :: "block_header_state \<Rightarrow> block_num_type \<Rightarrow> (32 word) res" where
  "get_active_finalizer_policy_generation b num =
     rbind (if links (bhs_core b) = [] then Inr True
            else rbind (last_final_block_num (bhs_core b)) (\<lambda>f. rbind (current_block_num (bhs_core b)) (\<lambda>n. Inr (f \<le> num \<and> num \<le> n)))) (\<lambda>in_range.
     ensure in_range Assert_failed (
     if num = bhs_block_num b then Inr (fp_generation (bhs_active_finalizer_policy b))
     else rbind (get_block_reference (bhs_core b) num) (\<lambda>r. Inr (ref_active_policy_generation r))))"

section \<open>Promotion of policies\<close>

definition evaluate_finalizer_policies_for_promotion :: "block_header_state \<Rightarrow> block_header_state \<Rightarrow> block_header_state res" where
  "evaluate_finalizer_policies_for_promotion prev nxt =
     (let prev_proposed = bhs_proposed_finalizer_policies prev in
      if bhs_pending_finalizer_policy prev = None \<and> prev_proposed = [] then Inr nxt
      else rbind (last_final_block_num (bhs_core nxt)) (\<lambda>lib.
        let (pending_slot_open, n1) =
          (case bhs_pending_finalizer_policy prev of
             Some (num, p) \<Rightarrow>
               if num \<le> lib then (True, nxt\<lparr>bhs_active_finalizer_policy := p\<rparr>)
               else (False, nxt\<lparr>bhs_pending_finalizer_policy := Some (num, p)\<rparr>)
           | None \<Rightarrow> (True, nxt)) in
        if prev_proposed = [] then Inr n1
        else
          let first_reversible = length (takeWhile (\<lambda>p. \<not> lib < fst p) prev_proposed) in
          if 0 < first_reversible then
            let target = prev_proposed ! (first_reversible - 1);
                n2 = (if pending_slot_open
                      then n1\<lparr>bhs_pending_finalizer_policy := Some (bhs_block_num nxt, snd target),
                              bhs_last_pending_finalizer_policy_start_timestamp := bhs_timestamp nxt\<rparr>
                      else n1\<lparr>bhs_proposed_finalizer_policies := bhs_proposed_finalizer_policies n1 @ [target]\<rparr>) in
            Inr (n2\<lparr>bhs_proposed_finalizer_policies := bhs_proposed_finalizer_policies n2 @ drop first_reversible prev_proposed\<rparr>)
          else Inr (n1\<lparr>bhs_proposed_finalizer_policies := prev_proposed\<rparr>)))"

definition evaluate_proposer_policies_for_promotion :: "block_header_state \<Rightarrow> block_header_state \<Rightarrow> block_header_state res" where
  "evaluate_proposer_policies_for_promotion prev nxt =
     ensure (bhs_timestamp prev < bhs_timestamp nxt) Assert_failed (
     rbind (get_active_proposer_policy_for_block_at prev (bhs_timestamp nxt)) (\<lambda>slot.
     let n1 = (case slot of
          Active_slot \<Rightarrow> nxt
        | Proposed_slot \<Rightarrow> nxt\<lparr>bhs_active_proposer_policy := policy_in_slot prev slot,
            bhs_latest_proposed_proposer_policy := None, bhs_latest_pending_proposer_policy := None\<rparr>
        | Pending_slot \<Rightarrow> nxt\<lparr>bhs_active_proposer_policy := policy_in_slot prev slot, bhs_latest_pending_proposer_policy := None\<rparr>) in
     rbind (first_block_of_round (bhs_timestamp nxt) (bhs_timestamp prev)) (\<lambda>first.
     Inr (if first \<and> bhs_latest_proposed_proposer_policy n1 \<noteq> None \<and> bhs_latest_pending_proposer_policy n1 = None
          then n1\<lparr>bhs_latest_pending_proposer_policy := bhs_latest_proposed_proposer_policy n1, bhs_latest_proposed_proposer_policy := None\<rparr>
          else n1))))"

section \<open>The next state\<close>

text \<open>The constructor of \<open>protocol_feature_activation_set\<close>; a \<open>flat_set\<close> is its sorted list of elements.\<close>

definition add_protocol_features :: "digest_type list \<Rightarrow> digest_type list \<Rightarrow> digest_type list res" where
  "add_protocol_features orig additional =
     (let union = sort (remdups (orig @ additional)) in
      ensure (length union = length orig + length additional) Invalid_block_header_extension (Inr union))"

text \<open>The parts of \<open>finish_next\<close>, in its order.\<close>

definition finish_features :: "block_header_state \<Rightarrow> digest_type list \<Rightarrow> block_header_state \<Rightarrow> block_header_state res" where
  "finish_features prev new_features nxt =
     rbind (if new_features \<noteq> [] then add_protocol_features (bhs_activated_protocol_features prev) new_features
            else Inr (bhs_activated_protocol_features prev)) (\<lambda>features.
     Inr (nxt\<lparr>bhs_activated_protocol_features := features\<rparr>))"

definition finish_proposers :: "block_header_state \<Rightarrow> finality_extension \<Rightarrow> block_header_state \<Rightarrow> block_header_state res" where
  "finish_proposers prev f_ext nxt =
     rbind (evaluate_proposer_policies_for_promotion prev
         (nxt\<lparr>bhs_active_proposer_policy := bhs_active_proposer_policy prev,
              bhs_latest_proposed_proposer_policy := bhs_latest_proposed_proposer_policy prev,
              bhs_latest_pending_proposer_policy := bhs_latest_pending_proposer_policy prev\<rparr>)) (\<lambda>n1.
     case fe_new_proposer_policy_diff f_ext of
       None \<Rightarrow> Inr n1
     | Some d \<Rightarrow> rbind (pp_apply_diff (get_last_proposed_proposer_policy prev) d) (\<lambda>p.
         Inr (n1\<lparr>bhs_latest_proposed_proposer_policy := Some p\<rparr>)))"

definition finish_core :: "(byte list \<Rightarrow> sha256) \<Rightarrow> block_header_state \<Rightarrow> finality_extension \<Rightarrow> block_header_state \<Rightarrow> block_header_state res" where
  "finish_core sha prev f_ext nxt =
     rbind (make_block_ref sha prev) (\<lambda>parent_block.
     rbind (core_next (bhs_core prev) parent_block (fe_qc_claim f_ext)) (\<lambda>c.
     Inr (nxt\<lparr>bhs_core := c\<rparr>)))"

definition finish_proposal :: "block_header_state \<Rightarrow> finality_extension \<Rightarrow> block_header_state \<Rightarrow> block_header_state res" where
  "finish_proposal prev f_ext nxt = (case fe_new_finalizer_policy_diff f_ext of
       None \<Rightarrow> Inr (nxt\<lparr>bhs_finalizer_policy_generation := bhs_finalizer_policy_generation prev\<rparr>)
     | Some d \<Rightarrow> rbind (fp_apply_diff (get_last_proposed_finalizer_policy prev) d) (\<lambda>p.
         ensure (bhs_finalizer_policy_generation prev < fp_generation p) Invalid_block_header_extension (
         Inr (nxt\<lparr>bhs_finalizer_policy_generation := fp_generation p,
                bhs_proposed_finalizer_policies := bhs_proposed_finalizer_policies nxt @ [(bhs_block_num nxt, p)]\<rparr>))))"

definition finish_finalizers :: "(byte list \<Rightarrow> sha256) \<Rightarrow> block_header_state \<Rightarrow> finality_extension \<Rightarrow> block_header_state \<Rightarrow> block_header_state res" where
  "finish_finalizers sha prev f_ext nxt =
     rbind (evaluate_finalizer_policies_for_promotion prev
         (nxt\<lparr>bhs_active_finalizer_policy := bhs_active_finalizer_policy prev,
              bhs_last_pending_finalizer_policy_start_timestamp := bhs_last_pending_finalizer_policy_start_timestamp prev\<rparr>)) (\<lambda>n1.
     rbind (hash_packed sha pack_finalizer_policy (get_last_pending_finalizer_policy n1)) (\<lambda>digest.
     finish_proposal prev f_ext (n1\<lparr>bhs_last_pending_finalizer_policy_digest := digest\<rparr>)))"

definition finish_claim_policy :: "block_header_state \<Rightarrow> block_header_state \<Rightarrow> block_header_state res" where
  "finish_claim_policy prev nxt =
     rbind (latest_qc_claim (bhs_core nxt)) (\<lambda>claim.
     rbind (get_active_finalizer_policy_generation prev (claim_block_num claim)) (\<lambda>claim_generation.
     if claim_generation \<noteq> fp_generation (bhs_active_finalizer_policy nxt) then
       rbind (get_block_reference (bhs_core nxt) (claim_block_num claim)) (\<lambda>r.
       rbind (get_finalizer_policies prev r) (\<lambda>ps.
       Inr (nxt\<lparr>bhs_latest_qc_claim_block_active_finalizer_policy := Some (active_finalizer_policy ps)\<rparr>)))
     else Inr (nxt\<lparr>bhs_latest_qc_claim_block_active_finalizer_policy := None\<rparr>)))"

definition finish_next :: "(byte list \<Rightarrow> sha256) \<Rightarrow> block_header_state \<Rightarrow> block_header_state \<Rightarrow> digest_type list \<Rightarrow>
    finality_extension \<Rightarrow> block_header_state res" where
  "finish_next sha prev nxt new_features f_ext =
     rbind (finish_features prev new_features nxt) (\<lambda>n1.
     rbind (finish_proposers prev f_ext n1) (\<lambda>n2.
     rbind (finish_core sha prev f_ext n2) (\<lambda>n3.
     rbind (finish_finalizers sha prev f_ext n3) (\<lambda>n4.
     rbind (finish_claim_policy prev n4) (\<lambda>n5.
     rbind (calculate_id sha (bhs_header n5)) (\<lambda>i.
     Inr (n5\<lparr>bhs_block_id := i\<rparr>)))))))"

record block_header_state_input =
  bi_parent_id :: block_id_type
  bi_parent_timestamp :: block_timestamp_type
  bi_timestamp :: block_timestamp_type
  bi_producer :: account_name
  bi_new_protocol_feature_activations :: "digest_type list"
  bi_transaction_mroot :: digest_type
  bi_new_proposer_policy :: "proposer_policy option"
  bi_new_finalizer_policy :: "finalizer_policy option"
  bi_most_recent_ancestor_with_qc :: qc_claim_t
  bi_finality_mroot_claim :: digest_type

text \<open>
  A fresh \<open>block_header_state\<close> as its default constructor leaves it.  The policy pointers that
  \<open>finish_next\<close> assigns before they are read start as those of the parent here.
\<close>

definition fresh_state :: "block_header_state \<Rightarrow> block_header \<Rightarrow> header_extension_multimap \<Rightarrow> block_header_state" where
  "fresh_state prev h exts = \<lparr>bhs_block_id = sha256_zero, bhs_header = h, bhs_activated_protocol_features = [],
     bhs_core = \<lparr>links = [], refs = [], genesis_timestamp = 0\<rparr>,
     bhs_active_finalizer_policy = bhs_active_finalizer_policy prev, bhs_active_proposer_policy = bhs_active_proposer_policy prev,
     bhs_latest_proposed_proposer_policy = None, bhs_latest_pending_proposer_policy = None,
     bhs_proposed_finalizer_policies = [], bhs_pending_finalizer_policy = None,
     bhs_latest_qc_claim_block_active_finalizer_policy = None, bhs_finalizer_policy_generation = 1,
     bhs_last_pending_finalizer_policy_digest = sha256_zero, bhs_last_pending_finalizer_policy_start_timestamp = 0,
     bhs_header_exts = exts\<rparr>"

definition new_finality_extension :: "block_header_state \<Rightarrow> block_header_state_input \<Rightarrow> finality_extension res" where
  "new_finality_extension b input =
     rbind (case bi_new_finalizer_policy input of
         None \<Rightarrow> Inr None
       | Some p \<Rightarrow> rbind (fp_create_diff (get_last_proposed_finalizer_policy b) p) (\<lambda>d. Inr (Some d))) (\<lambda>fd.
     rbind (case bi_new_proposer_policy input of
         None \<Rightarrow> Inr None
       | Some p \<Rightarrow> rbind (pp_create_diff (get_last_proposed_proposer_policy b) p) (\<lambda>d. Inr (Some d))) (\<lambda>pd.
     Inr \<lparr>fe_qc_claim = bi_most_recent_ancestor_with_qc input, fe_new_finalizer_policy_diff = fd, fe_new_proposer_policy_diff = pd\<rparr>))"

definition assembled_extensions :: "block_header_state_input \<Rightarrow> finality_extension \<Rightarrow> extensions_type res" where
  "assembled_extensions input f_ext =
     rbind (pack_finality_extension f_ext) (\<lambda>fbytes.
     let exts = emplace_extension [] finality_extension_id fbytes in
     if bi_new_protocol_feature_activations input \<noteq> [] then
       rbind (pack_vector pack_sha256 (bi_new_protocol_feature_activations input)) (\<lambda>pbytes.
       Inr (emplace_extension exts protocol_feature_activation_id pbytes))
     else Inr exts)"

definition assembled_exts_map :: "block_header_state_input \<Rightarrow> finality_extension \<Rightarrow> header_extension_multimap" where
  "assembled_exts_map input f_ext =
     (if bi_new_protocol_feature_activations input \<noteq> []
      then [(protocol_feature_activation_id, Protocol_feature_activation (bi_new_protocol_feature_activations input))] else []) @
     [(finality_extension_id, Finality f_ext)]"

definition assembled_header :: "block_header_state_input \<Rightarrow> extensions_type \<Rightarrow> block_header" where
  "assembled_header input exts =
     \<lparr>bh_timestamp = bi_timestamp input, bh_producer = bi_producer input, bh_confirmed = 0, bh_previous = bi_parent_id input,
      bh_transaction_mroot = bi_transaction_mroot input, bh_action_mroot = bi_finality_mroot_claim input,
      bh_schedule_version = proper_svnn_schedule_version, bh_new_producers = None, bh_header_extensions = exts\<rparr>"

definition next_from_input :: "(byte list \<Rightarrow> sha256) \<Rightarrow> block_header_state \<Rightarrow> block_header_state_input \<Rightarrow> block_header_state res" where
  "next_from_input sha b input =
     rbind (new_finality_extension b input) (\<lambda>f_ext.
     rbind (assembled_extensions input f_ext) (\<lambda>exts.
     finish_next sha b (fresh_state b (assembled_header input exts) (assembled_exts_map input f_ext))
       (bi_new_protocol_feature_activations input) f_ext))"

definition received_features :: "(block_timestamp_type \<Rightarrow> digest_type list \<Rightarrow> digest_type list \<Rightarrow> unit res) \<Rightarrow>
    block_header_state \<Rightarrow> header_extension_multimap \<Rightarrow> digest_type list res" where
  "received_features validator b exts = (case ext_find protocol_feature_activation_id exts of
      Some (Protocol_feature_activation ds) \<Rightarrow> rbind (validator (bhs_timestamp b) (bhs_activated_protocol_features b) ds) (\<lambda>_. Inr ds)
    | _ \<Rightarrow> Inr [])"

definition received_finality_extension :: "header_extension_multimap \<Rightarrow> finality_extension res" where
  "received_finality_extension exts = (case ext_find finality_extension_id exts of
      Some (Finality f_ext) \<Rightarrow> Inr f_ext
    | _ \<Rightarrow> Inl Invalid_block_header_extension)"

definition check_finality_root :: "block_header_state \<Rightarrow> block_header \<Rightarrow> finality_extension \<Rightarrow> unit res" where
  "check_finality_root b h f_ext =
     (if header_is_proper_svnn_block h then
        rbind (next_metadata (bhs_core b) (fe_qc_claim f_ext)) (\<lambda>md.
        rbind (is_genesis_block_num (bhs_core b) (md_latest_qc_claim_block_num md)) (\<lambda>no_finality_tree.
        ensure (no_finality_tree = sha256_empty (bh_action_mroot h)) Block_validate_exception (Inr ())))
      else Inr ())"

definition next_from_header :: "(byte list \<Rightarrow> sha256) \<Rightarrow> (byte list \<Rightarrow> bool) \<Rightarrow>
    (block_timestamp_type \<Rightarrow> digest_type list \<Rightarrow> digest_type list \<Rightarrow> unit res) \<Rightarrow> block_header_state \<Rightarrow> block_header \<Rightarrow> block_header_state res" where
  "next_from_header sha g1_ok validator b h =
     rbind (get_producer_for_block_at b (bh_timestamp h)) (\<lambda>producer.
     ensure (bh_previous h = bhs_block_id b) Unlinkable_block_exception (
     ensure (bh_producer h = pa_producer_name producer) Wrong_producer (
     ensure (bh_new_producers h = None) Producer_schedule_exception (
     rbind (validate_and_extract_header_extensions g1_ok h) (\<lambda>exts.
     rbind (received_features validator b exts) (\<lambda>features.
     rbind (received_finality_extension exts) (\<lambda>f_ext.
     rbind (check_finality_root b h f_ext) (\<lambda>_.
     finish_next sha b (fresh_state b h exts) features f_ext))))))))"

section \<open>What a step does to the finalizer policies\<close>

definition slot_open :: "block_header_state \<Rightarrow> block_num_type \<Rightarrow> bool" where
  "slot_open b lib \<longleftrightarrow> pred_option (\<lambda>(n, _). n \<le> lib) (bhs_pending_finalizer_policy b)"

definition final_proposals :: "block_header_state \<Rightarrow> block_num_type \<Rightarrow> (block_num_type \<times> finalizer_policy) list" where
  "final_proposals b lib = takeWhile (\<lambda>p. fst p \<le> lib) (bhs_proposed_finalizer_policies b)"

definition next_active :: "block_header_state \<Rightarrow> block_num_type \<Rightarrow> finalizer_policy" where
  "next_active b lib = (case bhs_pending_finalizer_policy b of
      Some (n, p) \<Rightarrow> if n \<le> lib then p else bhs_active_finalizer_policy b
    | None \<Rightarrow> bhs_active_finalizer_policy b)"

definition next_pending :: "block_header_state \<Rightarrow> block_num_type \<Rightarrow> block_num_type \<Rightarrow> (block_num_type \<times> finalizer_policy) option" where
  "next_pending b lib num =
     (if \<not> slot_open b lib then bhs_pending_finalizer_policy b
      else if final_proposals b lib = [] then None
      else Some (num, snd (last (final_proposals b lib))))"

definition kept_proposals :: "block_header_state \<Rightarrow> block_num_type \<Rightarrow> (block_num_type \<times> finalizer_policy) list" where
  "kept_proposals b lib =
     (if slot_open b lib \<or> final_proposals b lib = [] then [] else [last (final_proposals b lib)]) @
     dropWhile (\<lambda>p. fst p \<le> lib) (bhs_proposed_finalizer_policies b)"

definition next_start :: "block_header_state \<Rightarrow> block_num_type \<Rightarrow> block_timestamp_type \<Rightarrow> block_timestamp_type \<Rightarrow> block_timestamp_type" where
  "next_start b lib ts old = (if slot_open b lib \<and> final_proposals b lib \<noteq> [] then ts else old)"

lemma evaluate_finalizer_eq:
  assumes "links (bhs_core nxt) \<noteq> []" and "bhs_pending_finalizer_policy nxt = None" and "bhs_proposed_finalizer_policies nxt = []"
    and "bhs_active_finalizer_policy nxt = bhs_active_finalizer_policy prev"
    and lib_def: "lib = target_block_num (hd (links (bhs_core nxt)))"
  shows "evaluate_finalizer_policies_for_promotion prev nxt =
     Inr (nxt\<lparr>bhs_active_finalizer_policy := next_active prev lib,
       bhs_pending_finalizer_policy := next_pending prev lib (bhs_block_num nxt),
       bhs_proposed_finalizer_policies := kept_proposals prev lib,
       bhs_last_pending_finalizer_policy_start_timestamp :=
         next_start prev lib (bhs_timestamp nxt) (bhs_last_pending_finalizer_policy_start_timestamp nxt)\<rparr>)"
proof -
  let ?ps = "bhs_proposed_finalizer_policies prev"
  let ?fin = "takeWhile (\<lambda>p. fst p \<le> lib) ?ps"
  have nth: "?ps ! (length ?fin - 1) = last ?fin" if "?fin \<noteq> []"
    using that by (simp add: last_conv_nth takeWhile_nth)
  have drop: "drop (length ?fin) ?ps = dropWhile (\<lambda>p. fst p \<le> lib) ?ps"
    by (rule dropWhile_eq_drop [symmetric])
  have keep: "dropWhile (\<lambda>p. fst p \<le> lib) ?ps = ?ps" if "?fin = []"
    using that by (cases ?ps) (auto split: if_splits)
  note defs = evaluate_finalizer_policies_for_promotion_def slot_open_def final_proposals_def
    next_active_def next_pending_def kept_proposals_def next_start_def core_accessors(2) [OF assms(1)] lib_def [symmetric] not_less Let_def
  have pending: "bhs_pending_finalizer_policy prev = None \<or>
      (\<exists>n p. bhs_pending_finalizer_policy prev = Some (n, p) \<and> n \<le> lib) \<or>
      (\<exists>n p. bhs_pending_finalizer_policy prev = Some (n, p) \<and> \<not> n \<le> lib)"
    by (cases "bhs_pending_finalizer_policy prev") auto
  show ?thesis
  proof (cases "?fin = []")
    case True
    from pending show ?thesis
      by (elim disjE exE conjE; cases "?ps = []") (use True assms(2-4) keep in \<open>simp_all add: defs\<close>)
  next
    case False
    then have "?ps \<noteq> []" by auto
    from pending show ?thesis
      by (elim disjE exE conjE) (use False \<open>?ps \<noteq> []\<close> assms(2-4) nth [OF False] drop in \<open>simp_all add: defs\<close>)
  qed
qed

lemma core_next_ok:
  assumes "core_win c" and "core_next c r q = Inr c'" and "src_num (last (links c)) + 1 < 2 ^ 32"
  shows "next_pre c r q" and "c' = next_core c r q"
proof -
  have "current_block_num c = Inr (source_block_num (last (links c)))"
    and "latest_qc_claim c = Inr (Qc_claim (target_block_num (last (links c))) (is_link_strong (last (links c))))"
    using core_accessors [OF core_winD(1) [OF assms(1)]] by simp_all
  with assms(2) show pre: "next_pre c r q"
    using assms(3) by (auto simp: core_next_def next_pre_def claim_ok_def res_simps)
  from core_next_eq [OF assms(1) pre] assms(2) show "c' = next_core c r q" by simp
qed

text \<open>The proposer policies after a step: active, latest proposed, latest pending.\<close>

definition next_proposers :: "block_header_state \<Rightarrow> proposer_slot \<Rightarrow> bool \<Rightarrow>
    proposer_policy \<times> proposer_policy option \<times> proposer_policy option" where
  "next_proposers b slot first =
     (let pr = (if slot = Proposed_slot then None else bhs_latest_proposed_proposer_policy b);
          pe = (if slot = Active_slot then bhs_latest_pending_proposer_policy b else None) in
      if first \<and> pr \<noteq> None \<and> pe = None then (policy_in_slot b slot, None, pr) else (policy_in_slot b slot, pr, pe))"

lemma evaluate_proposer_eq:
  assumes act: "bhs_active_proposer_policy nxt = bhs_active_proposer_policy prev"
    and pr: "bhs_latest_proposed_proposer_policy nxt = bhs_latest_proposed_proposer_policy prev"
    and pe: "bhs_latest_pending_proposer_policy nxt = bhs_latest_pending_proposer_policy prev"
  shows "evaluate_proposer_policies_for_promotion prev nxt =
     ensure (bhs_timestamp prev < bhs_timestamp nxt) Assert_failed (
     rbind (get_active_proposer_policy_for_block_at prev (bhs_timestamp nxt)) (\<lambda>slot.
     Inr (case next_proposers prev slot (bhs_timestamp prev < get_current_round_start_slot (bhs_timestamp nxt)) of
       (a, p, q) \<Rightarrow> nxt\<lparr>bhs_active_proposer_policy := a, bhs_latest_proposed_proposer_policy := p, bhs_latest_pending_proposer_policy := q\<rparr>)))"
proof (cases "bhs_timestamp prev < bhs_timestamp nxt")
  case False
  then show ?thesis by (simp add: evaluate_proposer_policies_for_promotion_def)
next
  case True
  show ?thesis
  proof (cases "get_active_proposer_policy_for_block_at prev (bhs_timestamp nxt)")
    case (Inl e)
    with True show ?thesis by (simp add: evaluate_proposer_policies_for_promotion_def)
  next
    case (Inr slot)
    have first: "first_block_of_round (bhs_timestamp nxt) (bhs_timestamp prev) =
        Inr (bhs_timestamp prev < get_current_round_start_slot (bhs_timestamp nxt))"
      using True by (simp add: first_block_of_round_def)
    show ?thesis
      using act pr pe unfolding evaluate_proposer_policies_for_promotion_def Inr next_proposers_def
      by (cases slot) (simp_all add: True first policy_in_slot_def Let_def)
  qed
qed

section \<open>Inversion of a step\<close>

text \<open>What is known of the state \<open>b'\<close> that \<open>finish_next\<close> builds on \<open>b\<close> from the header \<open>h\<close>.\<close>

definition lib_of :: "block_header_state \<Rightarrow> block_num_type" where
  "lib_of b = target_block_num (hd (links (bhs_core b)))"

definition claim_num :: "block_header_state \<Rightarrow> block_num_type" where
  "claim_num b = target_block_num (last (links (bhs_core b)))"

definition proposal_step :: "block_header_state \<Rightarrow> finality_extension \<Rightarrow> block_header_state \<Rightarrow> bool" where
  "proposal_step b fe b' \<longleftrightarrow> (case fe_new_finalizer_policy_diff fe of
      None \<Rightarrow> bhs_finalizer_policy_generation b' = bhs_finalizer_policy_generation b \<and>
        bhs_proposed_finalizer_policies b' = kept_proposals b (lib_of b')
    | Some d \<Rightarrow> \<exists>p. fp_apply_diff (get_last_proposed_finalizer_policy b) d = Inr p \<and>
        bhs_finalizer_policy_generation b < fp_generation p \<and> bhs_finalizer_policy_generation b' = fp_generation p \<and>
        bhs_proposed_finalizer_policies b' = kept_proposals b (lib_of b') @ [(bhs_block_num b', p)])"

definition claim_policy_step :: "block_header_state \<Rightarrow> block_header_state \<Rightarrow> bool" where
  "claim_policy_step b b' \<longleftrightarrow> (\<exists>g. get_active_finalizer_policy_generation b (claim_num b') = Inr g \<and>
     (if g = fp_generation (bhs_active_finalizer_policy b') then bhs_latest_qc_claim_block_active_finalizer_policy b' = None
      else \<exists>r ps. get_block_reference (bhs_core b') (claim_num b') = Inr r \<and> get_finalizer_policies b r = Inr ps \<and>
        bhs_latest_qc_claim_block_active_finalizer_policy b' = Some (active_finalizer_policy ps)))"

lemma step_updates [simp]:
  "lib_of (n\<lparr>bhs_latest_qc_claim_block_active_finalizer_policy := cp\<rparr>) = lib_of n"
  "lib_of (n\<lparr>bhs_block_id := i\<rparr>) = lib_of n"
  "bhs_block_num (n\<lparr>bhs_latest_qc_claim_block_active_finalizer_policy := cp\<rparr>) = bhs_block_num n"
  "bhs_block_num (n\<lparr>bhs_block_id := i\<rparr>) = bhs_block_num n"
  "proposal_step b fe (n\<lparr>bhs_latest_qc_claim_block_active_finalizer_policy := cp\<rparr>) = proposal_step b fe n"
  "proposal_step b fe (n\<lparr>bhs_block_id := i\<rparr>) = proposal_step b fe n"
  "claim_policy_step b (n\<lparr>bhs_block_id := i\<rparr>) = claim_policy_step b n"
  by (simp_all add: lib_of_def bhs_block_num_def proposal_step_def claim_policy_step_def claim_num_def split: option.split)

lemma core_next_links: "core_next c r q = Inr c' \<Longrightarrow> links c' \<noteq> []"
  by (auto simp: core_next_def res_simps Let_def)

lemma finish_featuresD:
  "finish_features b fs n = Inr n' \<Longrightarrow> \<exists>x. n' = n\<lparr>bhs_activated_protocol_features := x\<rparr>"
  by (auto simp: finish_features_def res_simps)

lemma finish_proposersD:
  assumes "finish_proposers b fe n = Inr n'"
  shows "bhs_timestamp b < bhs_timestamp n"
    and "\<exists>slot p q. get_active_proposer_policy_for_block_at b (bhs_timestamp n) = Inr slot \<and>
      n' = n\<lparr>bhs_active_proposer_policy := policy_in_slot b slot, bhs_latest_proposed_proposer_policy := p,
        bhs_latest_pending_proposer_policy := q\<rparr>"
proof -
  from assms obtain n1 where ev: "evaluate_proposer_policies_for_promotion b
         (n\<lparr>bhs_active_proposer_policy := bhs_active_proposer_policy b,
            bhs_latest_proposed_proposer_policy := bhs_latest_proposed_proposer_policy b,
            bhs_latest_pending_proposer_policy := bhs_latest_pending_proposer_policy b\<rparr>) = Inr n1"
    and n': "(case fe_new_proposer_policy_diff fe of
       None \<Rightarrow> Inr n1
     | Some d \<Rightarrow> rbind (pp_apply_diff (get_last_proposed_proposer_policy b) d) (\<lambda>p.
         Inr (n1\<lparr>bhs_latest_proposed_proposer_policy := Some p\<rparr>))) = Inr n'"
    by (auto simp: finish_proposers_def res_simps)
  from ev show "bhs_timestamp b < bhs_timestamp n" by (simp add: evaluate_proposer_eq res_simps)
  from ev obtain slot where slot: "get_active_proposer_policy_for_block_at b (bhs_timestamp n) = Inr slot"
    and "n1 = (case next_proposers b slot (bhs_timestamp b < get_current_round_start_slot (bhs_timestamp n)) of (a, p, q) \<Rightarrow>
        n\<lparr>bhs_active_proposer_policy := a, bhs_latest_proposed_proposer_policy := p, bhs_latest_pending_proposer_policy := q\<rparr>)"
    by (auto simp: evaluate_proposer_eq res_simps)
  moreover obtain a p q where
    np: "next_proposers b slot (bhs_timestamp b < get_current_round_start_slot (bhs_timestamp n)) = (a, p, q)"
    by (rule prod_cases3)
  ultimately have
    n1: "n1 = n\<lparr>bhs_active_proposer_policy := a, bhs_latest_proposed_proposer_policy := p, bhs_latest_pending_proposer_policy := q\<rparr>"
    by simp
  from np have "a = policy_in_slot b slot" by (auto simp: next_proposers_def Let_def split: if_splits)
  with n1 have n1: "n1 = n\<lparr>bhs_active_proposer_policy := policy_in_slot b slot, bhs_latest_proposed_proposer_policy := p,
      bhs_latest_pending_proposer_policy := q\<rparr>" by simp
  have "\<exists>p'. n' = n\<lparr>bhs_active_proposer_policy := policy_in_slot b slot, bhs_latest_proposed_proposer_policy := p',
      bhs_latest_pending_proposer_policy := q\<rparr>"
  proof (cases "fe_new_proposer_policy_diff fe")
    case None
    with n' n1 show ?thesis by auto
  next
    case (Some d)
    with n' obtain pp where "n' = n1\<lparr>bhs_latest_proposed_proposer_policy := Some pp\<rparr>" by (auto simp: rbind_Inr_iff)
    then have "n' = n\<lparr>bhs_active_proposer_policy := policy_in_slot b slot, bhs_latest_proposed_proposer_policy := Some pp,
      bhs_latest_pending_proposer_policy := q\<rparr>" by (simp add: n1)
    then show ?thesis by blast
  qed
  with slot show "\<exists>slot p q. get_active_proposer_policy_for_block_at b (bhs_timestamp n) = Inr slot \<and>
      n' = n\<lparr>bhs_active_proposer_policy := policy_in_slot b slot, bhs_latest_proposed_proposer_policy := p,
        bhs_latest_pending_proposer_policy := q\<rparr>"
    by blast
qed

lemma finish_proposalD:
  assumes "finish_proposal b fe n = Inr n'"
  shows "bhs_core n' = bhs_core n" and "bhs_header n' = bhs_header n" and "bhs_header_exts n' = bhs_header_exts n"
    and "bhs_active_proposer_policy n' = bhs_active_proposer_policy n"
    and "bhs_active_finalizer_policy n' = bhs_active_finalizer_policy n"
    and "bhs_pending_finalizer_policy n' = bhs_pending_finalizer_policy n"
    and "bhs_proposed_finalizer_policies n = kept_proposals b (lib_of n) \<Longrightarrow> proposal_step b fe n'"
proof -
  have "bhs_core n' = bhs_core n \<and> bhs_header n' = bhs_header n \<and> bhs_header_exts n' = bhs_header_exts n \<and>
      bhs_active_proposer_policy n' = bhs_active_proposer_policy n \<and>
      bhs_active_finalizer_policy n' = bhs_active_finalizer_policy n \<and>
      bhs_pending_finalizer_policy n' = bhs_pending_finalizer_policy n \<and>
      (bhs_proposed_finalizer_policies n = kept_proposals b (lib_of n) \<longrightarrow> proposal_step b fe n')"
  proof (cases "fe_new_finalizer_policy_diff fe")
    case None
    with assms have n': "n' = n\<lparr>bhs_finalizer_policy_generation := bhs_finalizer_policy_generation b\<rparr>"
      by (simp add: finish_proposal_def)
    show ?thesis unfolding n' by (simp add: proposal_step_def None lib_of_def)
  next
    case (Some d)
    with assms obtain p where p: "fp_apply_diff (get_last_proposed_finalizer_policy b) d = Inr p"
        "bhs_finalizer_policy_generation b < fp_generation p"
      and n': "n' = n\<lparr>bhs_finalizer_policy_generation := fp_generation p,
          bhs_proposed_finalizer_policies := bhs_proposed_finalizer_policies n @ [(bhs_block_num n, p)]\<rparr>"
      by (auto simp: finish_proposal_def res_simps)
    show ?thesis unfolding n' using p by (simp add: proposal_step_def Some lib_of_def bhs_block_num_def)
  qed
  then show "bhs_core n' = bhs_core n" and "bhs_header n' = bhs_header n" and "bhs_header_exts n' = bhs_header_exts n"
    and "bhs_active_proposer_policy n' = bhs_active_proposer_policy n"
    and "bhs_active_finalizer_policy n' = bhs_active_finalizer_policy n"
    and "bhs_pending_finalizer_policy n' = bhs_pending_finalizer_policy n"
    and "bhs_proposed_finalizer_policies n = kept_proposals b (lib_of n) \<Longrightarrow> proposal_step b fe n'"
    by blast+
qed

lemma finish_finalizersD:
  assumes "finish_finalizers sha b fe n = Inr n'" and "links (bhs_core n) \<noteq> []"
    and "bhs_pending_finalizer_policy n = None" and "bhs_proposed_finalizer_policies n = []"
  shows "bhs_active_finalizer_policy n' = next_active b (lib_of n)"
    and "bhs_pending_finalizer_policy n' = next_pending b (lib_of n) (bhs_block_num n)"
    and "proposal_step b fe n'"
    and "bhs_core n' = bhs_core n" and "bhs_header n' = bhs_header n" and "bhs_header_exts n' = bhs_header_exts n"
    and "bhs_active_proposer_policy n' = bhs_active_proposer_policy n"
proof -
  define n1 where "n1 = n\<lparr>bhs_active_finalizer_policy := next_active b (lib_of n),
       bhs_pending_finalizer_policy := next_pending b (lib_of n) (bhs_block_num n),
       bhs_proposed_finalizer_policies := kept_proposals b (lib_of n),
       bhs_last_pending_finalizer_policy_start_timestamp :=
         next_start b (lib_of n) (bhs_timestamp n) (bhs_last_pending_finalizer_policy_start_timestamp b)\<rparr>"
  have ev: "evaluate_finalizer_policies_for_promotion b
         (n\<lparr>bhs_active_finalizer_policy := bhs_active_finalizer_policy b,
            bhs_last_pending_finalizer_policy_start_timestamp := bhs_last_pending_finalizer_policy_start_timestamp b\<rparr>) = Inr n1"
    using assms(2-4) unfolding n1_def
    by (subst evaluate_finalizer_eq [where lib = "lib_of n"]) (simp_all add: lib_of_def bhs_block_num_def)
  have n1: "bhs_active_finalizer_policy n1 = next_active b (lib_of n)"
    "bhs_pending_finalizer_policy n1 = next_pending b (lib_of n) (bhs_block_num n)"
    "bhs_proposed_finalizer_policies n1 = kept_proposals b (lib_of n)"
    "bhs_core n1 = bhs_core n" "bhs_header n1 = bhs_header n" "bhs_header_exts n1 = bhs_header_exts n"
    "bhs_active_proposer_policy n1 = bhs_active_proposer_policy n"
    by (simp_all add: n1_def)
  from assms(1) obtain dg where
    pro: "finish_proposal b fe (n1\<lparr>bhs_last_pending_finalizer_policy_digest := dg\<rparr>) = Inr n'"
    unfolding finish_finalizers_def ev rbind_simps rbind_Inr_iff by blast
  note P = finish_proposalD [OF pro]
  show "bhs_active_finalizer_policy n' = next_active b (lib_of n)"
    and "bhs_pending_finalizer_policy n' = next_pending b (lib_of n) (bhs_block_num n)"
    and "bhs_core n' = bhs_core n" and "bhs_header n' = bhs_header n" and "bhs_header_exts n' = bhs_header_exts n"
    and "bhs_active_proposer_policy n' = bhs_active_proposer_policy n"
    using P(1-6) by (simp_all add: n1)
  show "proposal_step b fe n'"
    using P(7) by (simp add: n1 lib_of_def)
qed

lemma finish_claim_policyD:
  assumes "finish_claim_policy b n = Inr n'" and "links (bhs_core n) \<noteq> []"
  shows "\<exists>cp. n' = n\<lparr>bhs_latest_qc_claim_block_active_finalizer_policy := cp\<rparr>" and "claim_policy_step b n'"
proof -
  from assms obtain g where g: "get_active_finalizer_policy_generation b (claim_num n) = Inr g"
    and n': "(if g \<noteq> fp_generation (bhs_active_finalizer_policy n) then
       rbind (get_block_reference (bhs_core n) (claim_num n)) (\<lambda>r.
       rbind (get_finalizer_policies b r) (\<lambda>ps.
       Inr (n\<lparr>bhs_latest_qc_claim_block_active_finalizer_policy := Some (active_finalizer_policy ps)\<rparr>)))
     else Inr (n\<lparr>bhs_latest_qc_claim_block_active_finalizer_policy := None\<rparr>)) = Inr n'"
    unfolding finish_claim_policy_def claim_num_def core_accessors [OF assms(2)] rbind_simps rbind_Inr_iff qc_claim_t.sel
    by blast
  have "(\<exists>cp. n' = n\<lparr>bhs_latest_qc_claim_block_active_finalizer_policy := cp\<rparr>) \<and> claim_policy_step b n'"
  proof (cases "g = fp_generation (bhs_active_finalizer_policy n)")
    case True
    with n' have n': "n' = n\<lparr>bhs_latest_qc_claim_block_active_finalizer_policy := None\<rparr>" by simp
    show ?thesis unfolding n' using g True by (auto simp: claim_policy_step_def claim_num_def)
  next
    case False
    with n' obtain r ps where r: "get_block_reference (bhs_core n) (claim_num n) = Inr r" "get_finalizer_policies b r = Inr ps"
      and n': "n' = n\<lparr>bhs_latest_qc_claim_block_active_finalizer_policy := Some (active_finalizer_policy ps)\<rparr>"
      by (auto simp: rbind_Inr_iff)
    show ?thesis unfolding n' using g r False by (auto simp: claim_policy_step_def claim_num_def)
  qed
  then show "\<exists>cp. n' = n\<lparr>bhs_latest_qc_claim_block_active_finalizer_policy := cp\<rparr>" and "claim_policy_step b n'"
    by blast+
qed

lemma finish_nextD:
  assumes "finish_next sha b (fresh_state b h exts) fs fe = Inr b'"
  obtains parent slot where
    "make_block_ref sha b = Inr parent"
    "core_next (bhs_core b) parent (fe_qc_claim fe) = Inr (bhs_core b')"
    "bhs_header b' = h" "bhs_header_exts b' = exts" "calculate_id sha h = Inr (bhs_block_id b')"
    "bhs_timestamp b < bh_timestamp h"
    "get_active_proposer_policy_for_block_at b (bh_timestamp h) = Inr slot"
    "bhs_active_proposer_policy b' = policy_in_slot b slot"
    "bhs_active_finalizer_policy b' = next_active b (lib_of b')"
    "bhs_pending_finalizer_policy b' = next_pending b (lib_of b') (bhs_block_num b')"
    "proposal_step b fe b'" "claim_policy_step b b'"
proof -
  from assms obtain n1 n2 n3 n4 n5 i where
    n1: "finish_features b fs (fresh_state b h exts) = Inr n1" and n2: "finish_proposers b fe n1 = Inr n2"
    and n3: "finish_core sha b fe n2 = Inr n3" and n4: "finish_finalizers sha b fe n3 = Inr n4"
    and n5: "finish_claim_policy b n4 = Inr n5" and i: "calculate_id sha (bhs_header n5) = Inr i"
    and b': "b' = n5\<lparr>bhs_block_id := i\<rparr>"
    unfolding finish_next_def rbind_Inr_iff by blast
  from finish_featuresD [OF n1] obtain x where n1: "n1 = (fresh_state b h exts)\<lparr>bhs_activated_protocol_features := x\<rparr>" ..
  from finish_proposersD [OF n2] obtain slot p q where ts: "bhs_timestamp b < bhs_timestamp n1"
    and slot: "get_active_proposer_policy_for_block_at b (bhs_timestamp n1) = Inr slot"
    and n2: "n2 = n1\<lparr>bhs_active_proposer_policy := policy_in_slot b slot, bhs_latest_proposed_proposer_policy := p,
        bhs_latest_pending_proposer_policy := q\<rparr>" by blast
  from n3 obtain parent c where parent: "make_block_ref sha b = Inr parent"
    and c: "core_next (bhs_core b) parent (fe_qc_claim fe) = Inr c" and n3: "n3 = n2\<lparr>bhs_core := c\<rparr>"
    by (auto simp: finish_core_def rbind_Inr_iff)
  have "links (bhs_core n3) \<noteq> []" "bhs_pending_finalizer_policy n3 = None" "bhs_proposed_finalizer_policies n3 = []"
    using core_next_links [OF c] by (simp_all add: n3 n2 n1 fresh_state_def)
  note F = finish_finalizersD [OF n4 this]
  from F(4) \<open>links (bhs_core n3) \<noteq> []\<close> have "links (bhs_core n4) \<noteq> []" by simp
  from finish_claim_policyD [OF n5 this] obtain cp where
    n5: "n5 = n4\<lparr>bhs_latest_qc_claim_block_active_finalizer_policy := cp\<rparr>" and cs: "claim_policy_step b n5" by blast
  have hdr: "bhs_header n3 = h" "bhs_header_exts n3 = exts" "bhs_core n3 = c" "bhs_timestamp n1 = bh_timestamp h"
    "bhs_active_proposer_policy n3 = policy_in_slot b slot"
    by (simp_all add: n3 n2 n1 fresh_state_def)
  have fields: "bhs_header b' = h" "bhs_header_exts b' = exts" "bhs_core b' = c" "lib_of b' = lib_of n3"
    "bhs_block_num b' = bhs_block_num n3" "bhs_block_id b' = i"
    by (simp_all add: b' n5 F(4-6) hdr lib_of_def bhs_block_num_def)
  have steps: "proposal_step b fe b'" "claim_policy_step b b'"
    using F(3) cs by (simp_all add: b' n5)
  show thesis
    using that [of parent slot] parent c fields i ts slot F(1,2,7) steps
    by (simp add: hdr) (simp add: b' n5 F(5) hdr)
qed

end
