(* ===== verification/Header_Chain.thy ===== *)
theory Header_Chain
  imports Block_Header_State
begin

text \<open>
  Chains of header states, from the Savanna genesis block on.  \<open>header_chain hs b\<close> says that \<open>b\<close> is
  reached through the states \<open>hs\<close>, oldest first, each built on the one before by either of the two
  \<open>next\<close> operations.  The invariants \<open>chain_num\<close> (numbers and references) and \<open>chain_pol\<close> (policies)
  give the properties of the policy life cycle.
\<close>

section \<open>Chains\<close>

definition genesis_state :: "block_header_state \<Rightarrow> bool" where
  "genesis_state b \<longleftrightarrow>
     bhs_core b = create_core_for_genesis_block (bhs_block_id b) (bhs_timestamp b) \<and>
     num_from_id (bhs_block_id b) = bhs_block_num b \<and>
     bhs_pending_finalizer_policy b = None \<and> bhs_proposed_finalizer_policies b = [] \<and>
     bhs_latest_qc_claim_block_active_finalizer_policy b = None \<and>
     0 < fp_generation (bhs_active_finalizer_policy b) \<and>
     fp_generation (bhs_active_finalizer_policy b) \<le> bhs_finalizer_policy_generation b"

inductive header_chain :: "(byte list \<Rightarrow> sha256) \<Rightarrow> (byte list \<Rightarrow> bool) \<Rightarrow>
    (block_timestamp_type \<Rightarrow> digest_type list \<Rightarrow> digest_type list \<Rightarrow> unit res) \<Rightarrow>
    block_header_state list \<Rightarrow> block_header_state \<Rightarrow> bool"
  for sha g1_ok validator where
  genesis: "genesis_state b \<Longrightarrow> header_chain sha g1_ok validator [] b"
| assembled: "header_chain sha g1_ok validator hs b \<Longrightarrow> bi_parent_id input = bhs_block_id b \<Longrightarrow>
    next_from_input sha b input = Inr b' \<Longrightarrow> unat (bhs_block_num b) + 1 < 2 ^ 32 \<Longrightarrow>
    header_chain sha g1_ok validator (hs @ [b]) b'"
| received: "header_chain sha g1_ok validator hs b \<Longrightarrow>
    next_from_header sha g1_ok validator b h = Inr b' \<Longrightarrow> unat (bhs_block_num b) + 1 < 2 ^ 32 \<Longrightarrow>
    header_chain sha g1_ok validator (hs @ [b]) b'"

definition chain_step :: "(byte list \<Rightarrow> sha256) \<Rightarrow> block_header_state \<Rightarrow> finality_extension \<Rightarrow> block_header_state \<Rightarrow> bool" where
  "chain_step sha b fe b' \<longleftrightarrow> unat (bhs_block_num b) + 1 < 2 ^ 32 \<and>
     (\<exists>h exts fs. bh_previous h = bhs_block_id b \<and> finish_next sha b (fresh_state b h exts) fs fe = Inr b')"

lemma next_from_inputD:
  assumes "next_from_input sha b input = Inr b'"
  obtains fe exts where "new_finality_extension b input = Inr fe" and "assembled_extensions input fe = Inr exts"
    and "finish_next sha b (fresh_state b (assembled_header input exts) (assembled_exts_map input fe))
      (bi_new_protocol_feature_activations input) fe = Inr b'"
  using assms unfolding next_from_input_def rbind_Inr_iff by blast

lemma next_from_headerD:
  assumes "next_from_header sha g1_ok validator b h = Inr b'"
  obtains producer exts fs fe where "get_producer_for_block_at b (bh_timestamp h) = Inr producer"
    and "bh_previous h = bhs_block_id b" and "bh_producer h = pa_producer_name producer"
    and "validate_and_extract_header_extensions g1_ok h = Inr exts"
    and "finish_next sha b (fresh_state b h exts) fs fe = Inr b'"
  using assms unfolding next_from_header_def rbind_Inr_iff ensure_Inr_iff by blast

lemma assembled_step:
  "next_from_input sha b input = Inr b' \<Longrightarrow> bi_parent_id input = bhs_block_id b \<Longrightarrow>
   unat (bhs_block_num b) + 1 < 2 ^ 32 \<Longrightarrow> \<exists>fe. chain_step sha b fe b'"
  by (erule next_from_inputD) (unfold chain_step_def, intro exI conjI, auto simp: assembled_header_def)

lemma received_step:
  "next_from_header sha g1_ok validator b h = Inr b' \<Longrightarrow> unat (bhs_block_num b) + 1 < 2 ^ 32 \<Longrightarrow> \<exists>fe. chain_step sha b fe b'"
  by (erule next_from_headerD) (auto simp: chain_step_def)

lemma header_chain_induct [consumes 1, case_names genesis step]:
  assumes "header_chain sha g1_ok validator hs b"
    and "\<And>b. genesis_state b \<Longrightarrow> P [] b"
    and "\<And>hs b fe b'. header_chain sha g1_ok validator hs b \<Longrightarrow> P hs b \<Longrightarrow> chain_step sha b fe b' \<Longrightarrow> P (hs @ [b]) b'"
  shows "P hs b"
  using assms(1)
proof induction
  case (assembled hs b input b')
  with assembled_step obtain fe where "chain_step sha b fe b'" by blast
  with assembled assms(3) show ?case by blast
next
  case (received hs b h b')
  with received_step obtain fe where "chain_step sha b fe b'" by blast
  with received assms(3) show ?case by blast
qed (rule assms(2))

section \<open>Numbers and references\<close>

definition chain_num :: "(byte list \<Rightarrow> sha256) \<Rightarrow> nat \<Rightarrow> block_header_state list \<Rightarrow> block_header_state \<Rightarrow> bool" where
  "chain_num sha n0 hs b \<longleftrightarrow>
     core_win (bhs_core b) \<and> n0 \<le> unat (lib_of b) \<and>
     map (\<lambda>a. unat (bhs_block_num a)) (hs @ [b]) = [n0 ..< n0 + length (hs @ [b])] \<and>
     (\<forall>a \<in> set (hs @ [b]). num_from_id (bhs_block_id a) = bhs_block_num a) \<and>
     source_block_num (last (links (bhs_core b))) = bhs_block_num b \<and>
     map (make_block_ref sha) (drop (unat (lib_of b) - n0) hs) = map Inr (refs (bhs_core b))"

lemma make_block_ref_num: "make_block_ref sha a = Inr r \<Longrightarrow> ref_block_num r = num_from_id (bhs_block_id a)"
  by (auto simp: make_block_ref_def rbind_Inr_iff ref_block_num_def)

lemma chain_step_core:
  assumes num: "chain_num sha n0 hs b" and step: "chain_step sha b fe b'"
  obtains parent where "make_block_ref sha b = Inr parent" and "next_pre (bhs_core b) parent (fe_qc_claim fe)"
    and "bhs_core b' = next_core (bhs_core b) parent (fe_qc_claim fe)"
    and "core_win (bhs_core b')" and "unat (bhs_block_num b') = unat (bhs_block_num b) + 1"
    and "num_from_id (bhs_block_id b') = bhs_block_num b'"
    and "source_block_num (last (links (bhs_core b'))) = bhs_block_num b'"
    and "claim_num b' = claim_block_num (fe_qc_claim fe)"
    and "claim_num b \<le> claim_num b'" and "claim_num b' \<le> bhs_block_num b"
    and "lib_of b \<le> lib_of b'" and "lib_of b' \<le> claim_num b'"
    and "refs (bhs_core b') = drop (unat (lib_of b') - unat (lib_of b)) (refs (bhs_core b)) @ [parent]"
proof -
  let ?c = "bhs_core b" and ?q = "fe_qc_claim fe"
  from num have win: "core_win ?c" and cur: "source_block_num (last (links ?c)) = bhs_block_num b"
    and bid: "num_from_id (bhs_block_id b) = bhs_block_num b"
    by (simp_all add: chain_num_def)
  from step obtain h exts fs where room: "unat (bhs_block_num b) + 1 < 2 ^ 32"
    and prev: "bh_previous h = bhs_block_id b" and fin: "finish_next sha b (fresh_state b h exts) fs fe = Inr b'"
    by (auto simp: chain_step_def)
  from fin obtain parent where p: "make_block_ref sha b = Inr parent"
    and cn: "core_next ?c parent ?q = Inr (bhs_core b')" and h: "bhs_header b' = h"
    and i: "calculate_id sha h = Inr (bhs_block_id b')"
    by (rule finish_nextD)
  from core_next_ok [OF win cn] room cur have pre: "next_pre ?c parent ?q" and c': "bhs_core b' = next_core ?c parent ?q"
    by simp_all
  then have q: "claim_ok ?c ?q" by (simp add: next_pre_def)
  note hl = next_core_hd_last [OF win q, of parent] and B = claimed_link_bounds [OF win q] and Q = claim_okD [OF win q]
  from prev h bid have n': "bhs_block_num b' = bhs_block_num b + 1" by (simp add: bhs_block_num_def)
  with calculate_id_num [OF i] h have id': "num_from_id (bhs_block_id b') = bhs_block_num b'"
    by (simp add: header_block_num_def bhs_block_num_def)
  have lib: "lib_of b' = target_block_num (claimed_link ?c ?q)" and cl: "claim_num b' = claim_block_num ?q"
    by (simp_all add: lib_of_def claim_num_def c' hl)
  show thesis
  proof (rule that [OF p pre c'])
    show "core_win (bhs_core b')" unfolding c' by (rule next_core_win [OF win pre])
    show "unat (bhs_block_num b') = unat (bhs_block_num b) + 1" using unat_Suc_no_wrap [OF room] n' by simp
    show "source_block_num (last (links (bhs_core b'))) = bhs_block_num b'" by (simp add: c' hl cur n')
    show "claim_num b \<le> claim_num b'" "claim_num b' \<le> bhs_block_num b"
      using Q(1,2) cur cl by (simp_all add: claim_num_def word_le_nat_alt)
    show "lib_of b \<le> lib_of b'" "lib_of b' \<le> claim_num b'"
      using B(1-3) unfolding lib cl by (simp_all add: lib_of_def word_le_nat_alt)
    show "refs (bhs_core b') = drop (unat (lib_of b') - unat (lib_of b)) (refs ?c) @ [parent]"
      unfolding lib by (simp add: c' next_core_def lib_of_def)
  qed (fact id' cl)+
qed

lemma chain_num_genesis:
  "genesis_state b \<Longrightarrow> chain_num sha (unat (bhs_block_num b)) [] b"
  using genesis_core_win [of "bhs_block_id b" "bhs_timestamp b"]
  by (auto simp: genesis_state_def chain_num_def lib_of_def create_core_for_genesis_block_def Let_def)

lemma chain_num_step:
  assumes num: "chain_num sha n0 hs b" and step: "chain_step sha b fe b'"
  shows "chain_num sha n0 (hs @ [b]) b'"
proof -
  obtain parent where p: "make_block_ref sha b = Inr parent" and win: "core_win (bhs_core b')"
    and n': "unat (bhs_block_num b') = unat (bhs_block_num b) + 1" and id': "num_from_id (bhs_block_id b') = bhs_block_num b'"
    and cur: "source_block_num (last (links (bhs_core b'))) = bhs_block_num b'"
    and le: "claim_num b' \<le> bhs_block_num b" "lib_of b \<le> lib_of b'" "lib_of b' \<le> claim_num b'"
    and refs: "refs (bhs_core b') = drop (unat (lib_of b') - unat (lib_of b)) (refs (bhs_core b)) @ [parent]"
    using chain_step_core [OF num step] .
  from num have n0: "n0 \<le> unat (lib_of b)" and nums: "map (\<lambda>a. unat (bhs_block_num a)) (hs @ [b]) = [n0 ..< n0 + length (hs @ [b])]"
    and rf: "map (make_block_ref sha) (drop (unat (lib_of b) - n0) hs) = map Inr (refs (bhs_core b))"
    by (simp_all add: chain_num_def)
  from consecutive_nth [OF nums, of "length hs"] have nb: "unat (bhs_block_num b) = n0 + length hs" by simp
  let ?k = "unat (lib_of b') - unat (lib_of b)"
  have sum: "unat (lib_of b') - n0 = ?k + (unat (lib_of b) - n0)" using n0 le(2) by (simp add: word_le_nat_alt)
  have "unat (lib_of b') - n0 \<le> length hs" using le nb by (simp add: word_le_nat_alt)
  then have "map (make_block_ref sha) (drop (unat (lib_of b') - n0) (hs @ [b])) =
      drop ?k (map (make_block_ref sha) (drop (unat (lib_of b) - n0) hs)) @ [Inr parent]"
    unfolding sum by (simp add: p drop_map)
  then have "map (make_block_ref sha) (drop (unat (lib_of b') - n0) (hs @ [b])) = map Inr (refs (bhs_core b'))"
    by (simp add: rf refs drop_map)
  moreover have "map (\<lambda>a. unat (bhs_block_num a)) ((hs @ [b]) @ [b']) = [n0 ..< n0 + length ((hs @ [b]) @ [b'])]"
    using nb n' by (intro consecutive_snoc [OF nums]) simp
  ultimately show ?thesis
    using num n0 le win id' cur by (auto simp: chain_num_def word_le_nat_alt)
qed

text \<open>The reference a state finds for a number in its window is that of the state with this number.\<close>

lemma chain_lookup:
  assumes num: "chain_num sha n0 hs b" and a: "a \<in> set hs" and ge: "lib_of b \<le> bhs_block_num a"
  shows "\<exists>r. make_block_ref sha a = Inr r \<and> get_block_reference (bhs_core b) (bhs_block_num a) = Inr r"
proof -
  from num have win: "core_win (bhs_core b)" and n0: "n0 \<le> unat (lib_of b)"
    and nums: "map (\<lambda>a. unat (bhs_block_num a)) (hs @ [b]) = [n0 ..< n0 + length (hs @ [b])]"
    and cur: "source_block_num (last (links (bhs_core b))) = bhs_block_num b"
    and rf: "map (make_block_ref sha) (drop (unat (lib_of b) - n0) hs) = map Inr (refs (bhs_core b))"
    by (simp_all add: chain_num_def)
  from a obtain i where i: "i < length hs" "a = hs ! i" by (auto simp: in_set_conv_nth)
  with consecutive_nth [OF nums, of i] have na: "unat (bhs_block_num a) = n0 + i" by (simp add: nth_append)
  from consecutive_nth [OF nums, of "length hs"] have nb: "unat (bhs_block_num b) = n0 + length hs" by simp
  let ?j = "unat (bhs_block_num a) - unat (lib_of b)"
  have ge': "unat (lib_of b) \<le> unat (bhs_block_num a)" using ge by (simp add: word_le_nat_alt)
  with get_block_reference_eq [OF win, of "bhs_block_num a"] na nb cur i(1)
  have r: "get_block_reference (bhs_core b) (bhs_block_num a) = Inr (refs (bhs_core b) ! ?j)"
    and j: "?j < length (refs (bhs_core b))"
    by (simp_all add: lib_of_def)
  have idx: "unat (lib_of b) - n0 + ?j = i" using n0 ge' na by simp
  have "map (make_block_ref sha) (drop (unat (lib_of b) - n0) hs) ! ?j = make_block_ref sha a"
    using i n0 idx by (simp add: nth_map)
  with rf j r show ?thesis by (metis nth_map)
qed

lemma chain_member:
  assumes num: "chain_num sha n0 hs b" and "n0 \<le> unat n" and "n \<le> bhs_block_num b"
  obtains a where "a \<in> set (hs @ [b])" and "bhs_block_num a = n"
proof -
  from num have nums: "map (\<lambda>a. unat (bhs_block_num a)) (hs @ [b]) = [n0 ..< n0 + length (hs @ [b])]"
    by (simp add: chain_num_def)
  from consecutive_nth [OF nums, of "length hs"] have "unat (bhs_block_num b) = n0 + length hs" by simp
  with assms(2,3) have i: "unat n - n0 < length (hs @ [b])" by (simp add: word_le_nat_alt)
  from consecutive_nth [OF nums i] assms(2) have "bhs_block_num ((hs @ [b]) ! (unat n - n0)) = n"
    by (simp add: word_unat_eq_iff)
  with i that show thesis by (meson nth_mem)
qed

lemma chain_num_le:
  assumes num: "chain_num sha n0 hs b" and "a \<in> set hs"
  shows "bhs_block_num a < bhs_block_num b"
proof -
  from num have nums: "map (\<lambda>a. unat (bhs_block_num a)) (hs @ [b]) = [n0 ..< n0 + length (hs @ [b])]"
    by (simp add: chain_num_def)
  from assms(2) obtain i where "i < length hs" "a = hs ! i" by (auto simp: in_set_conv_nth)
  with consecutive_nth [OF nums, of i] consecutive_nth [OF nums, of "length hs"] show ?thesis
    by (simp add: nth_append word_less_nat_alt)
qed

section \<open>Policies\<close>

abbreviation active_gen :: "block_header_state \<Rightarrow> 32 word" where
  "active_gen b \<equiv> fp_generation (bhs_active_finalizer_policy b)"

definition pending_policy :: "block_header_state \<Rightarrow> finalizer_policy option" where
  "pending_policy b = map_option snd (bhs_pending_finalizer_policy b)"

definition in_flight :: "block_header_state \<Rightarrow> (block_num_type \<times> finalizer_policy) list" where
  "in_flight b = (case bhs_pending_finalizer_policy b of None \<Rightarrow> [] | Some p \<Rightarrow> [p]) @ bhs_proposed_finalizer_policies b"

text \<open>Generations grow from the active policy to the pending one to the proposals.\<close>

definition gens_ok :: "block_header_state \<Rightarrow> bool" where
  "gens_ok b \<longleftrightarrow> 0 < active_gen b \<and>
     sorted_wrt (<) (active_gen b # map (\<lambda>p. fp_generation (snd p)) (in_flight b)) \<and>
     (\<forall>p \<in> set (in_flight b). fp_generation (snd p) \<le> bhs_finalizer_policy_generation b) \<and>
     active_gen b \<le> bhs_finalizer_policy_generation b \<and>
     pred_option (\<lambda>(n, _). n \<le> bhs_block_num b) (bhs_pending_finalizer_policy b)"

text \<open>What \<open>b\<close> still knows of the policies that an ancestor \<open>a\<close> had.\<close>

definition remembers :: "block_header_state \<Rightarrow> block_header_state \<Rightarrow> bool" where
  "remembers b a \<longleftrightarrow>
     (bhs_active_finalizer_policy a = bhs_active_finalizer_policy b \<or>
      bhs_latest_qc_claim_block_active_finalizer_policy b = Some (bhs_active_finalizer_policy a)) \<and>
     (case bhs_pending_finalizer_policy b of
        Some (n, p) \<Rightarrow>
          if n \<le> bhs_block_num a
          then bhs_active_finalizer_policy a = bhs_active_finalizer_policy b \<and> pending_policy a = Some p
          else pending_policy a \<in> {None, Some (bhs_active_finalizer_policy b)}
      | None \<Rightarrow> pending_policy a \<in> {None, Some (bhs_active_finalizer_policy b)})"

definition chain_pol :: "block_header_state list \<Rightarrow> block_header_state \<Rightarrow> bool" where
  "chain_pol hs b \<longleftrightarrow> gens_ok b \<and>
     pred_option (\<lambda>p. 0 < fp_generation p \<and> fp_generation p < active_gen b) (bhs_latest_qc_claim_block_active_finalizer_policy b) \<and>
     (\<forall>a \<in> set hs. claim_num b \<le> bhs_block_num a \<longrightarrow> remembers b a) \<and>
     (\<forall>a \<in> set hs. \<forall>a' \<in> set hs. claim_num b \<le> bhs_block_num a \<longrightarrow> bhs_block_num a \<le> bhs_block_num a' \<longrightarrow>
        bhs_active_finalizer_policy a = bhs_active_finalizer_policy b \<longrightarrow>
        bhs_active_finalizer_policy a' = bhs_active_finalizer_policy b)"

lemma chain_pol_genesis: "genesis_state b \<Longrightarrow> chain_pol [] b"
  by (auto simp: genesis_state_def chain_pol_def gens_ok_def in_flight_def)

lemma gens_pending:
  "gens_ok b \<Longrightarrow> bhs_pending_finalizer_policy b = Some (n, p) \<Longrightarrow> 0 < fp_generation p \<and> active_gen b < fp_generation p \<and> n \<le> bhs_block_num b"
  by (auto simp: gens_ok_def in_flight_def)

lemma remembers_self: "gens_ok b \<Longrightarrow> remembers b b"
  by (auto simp: remembers_def pending_policy_def gens_ok_def split: option.splits)

lemma chain_pol_remembers:
  "chain_pol hs b \<Longrightarrow> a \<in> set (hs @ [b]) \<Longrightarrow> claim_num b \<le> bhs_block_num a \<Longrightarrow> remembers b a"
  by (auto simp: chain_pol_def remembers_self)

lemma remembered_active:
  assumes "chain_pol hs b" and "remembers b a"
  shows "active_gen a \<noteq> 0" and "active_gen a = active_gen b \<longleftrightarrow> bhs_active_finalizer_policy a = bhs_active_finalizer_policy b"
    and "bhs_active_finalizer_policy a \<noteq> bhs_active_finalizer_policy b \<Longrightarrow>
      bhs_latest_qc_claim_block_active_finalizer_policy b = Some (bhs_active_finalizer_policy a) \<and> active_gen a < active_gen b"
proof -
  from assms(1) have pos: "0 < active_gen b"
    and cl: "pred_option (\<lambda>p. 0 < fp_generation p \<and> fp_generation p < active_gen b) (bhs_latest_qc_claim_block_active_finalizer_policy b)"
    by (simp_all add: chain_pol_def gens_ok_def)
  from assms(2) have "bhs_active_finalizer_policy a = bhs_active_finalizer_policy b \<or>
      bhs_latest_qc_claim_block_active_finalizer_policy b = Some (bhs_active_finalizer_policy a)"
    by (simp add: remembers_def)
  with pos cl show "active_gen a \<noteq> 0" and "active_gen a = active_gen b \<longleftrightarrow> bhs_active_finalizer_policy a = bhs_active_finalizer_policy b"
    and "bhs_active_finalizer_policy a \<noteq> bhs_active_finalizer_policy b \<Longrightarrow>
      bhs_latest_qc_claim_block_active_finalizer_policy b = Some (bhs_active_finalizer_policy a) \<and> active_gen a < active_gen b"
    by auto
qed

lemma remembered_pending:
  "remembers b a \<Longrightarrow> pending_policy a \<noteq> None \<Longrightarrow> pending_policy a \<noteq> Some (bhs_active_finalizer_policy b) \<Longrightarrow>
   \<exists>n p. bhs_pending_finalizer_policy b = Some (n, p) \<and> pending_policy a = Some p"
  by (auto simp: remembers_def split: option.splits if_splits)

lemma retrieve_policies:
  assumes num: "chain_num sha n0 hs b" and pol: "chain_pol hs b" and a: "a \<in> set (hs @ [b])"
    and ge: "claim_num b \<le> bhs_block_num a" and r: "make_block_ref sha a = Inr r"
  shows "get_finalizer_policies b r = Inr \<lparr>pol_finality_digest = ref_finality_digest r,
    active_finalizer_policy = bhs_active_finalizer_policy a, pending_finalizer_policy = pending_policy a\<rparr>"
proof -
  from num have ne: "links (bhs_core b) \<noteq> []" and cur: "source_block_num (last (links (bhs_core b))) = bhs_block_num b"
    and bid: "num_from_id (bhs_block_id a) = bhs_block_num a"
    using a core_winD(1) by (auto simp: chain_num_def)
  from a chain_num_le [OF num] have le: "bhs_block_num a \<le> bhs_block_num b" by (auto intro: less_imp_le)
  from make_block_ref_num [OF r] bid have rn: "ref_block_num r = bhs_block_num a" by simp
  from r have ag: "ref_active_policy_generation r = active_gen a"
    and pg: "ref_pending_policy_generation r = (case pending_policy a of Some p \<Rightarrow> fp_generation p | None \<Rightarrow> 0)"
    by (auto simp: make_block_ref_def rbind_Inr_iff pending_policy_def split: option.splits)
  from pol have gens: "gens_ok b" by (simp add: chain_pol_def)
  note rem = chain_pol_remembers [OF pol a ge]
  note act = remembered_active [OF pol rem]
  have range: "claim_num b \<le> ref_block_num r" "ref_block_num r \<le> bhs_block_num b" using ge le rn by simp_all
  have active: "(if active_gen b = active_gen a then Inr (bhs_active_finalizer_policy b)
      else ensure (pred_option (\<lambda>(_, p). active_gen a < fp_generation p) (bhs_pending_finalizer_policy b)) Assert_failed (
        case bhs_latest_qc_claim_block_active_finalizer_policy b of
          None \<Rightarrow> Inl Assert_failed
        | Some p \<Rightarrow> ensure (fp_generation p = active_gen a) Assert_failed (Inr p))) = Inr (bhs_active_finalizer_policy a)"
  proof (cases "bhs_active_finalizer_policy a = bhs_active_finalizer_policy b")
    case False
    with act(3) have lt: "active_gen a < active_gen b" by simp
    then have "pred_option (\<lambda>(_, p). active_gen a < fp_generation p) (bhs_pending_finalizer_policy b)"
      using gens_pending [OF gens] by (cases "bhs_pending_finalizer_policy b") (auto intro: less_trans)
    moreover from lt have "active_gen b \<noteq> active_gen a" by auto
    ultimately show ?thesis using act(3) [OF False] by simp
  qed simp
  have pending: "(if ref_pending_policy_generation r = 0 then Inr None
      else if ref_pending_policy_generation r = active_gen b then Inr (Some (bhs_active_finalizer_policy b))
      else case bhs_pending_finalizer_policy b of
        None \<Rightarrow> Inl Assert_failed
      | Some (_, p) \<Rightarrow> ensure (fp_generation p = ref_pending_policy_generation r) Assert_failed (Inr (Some p))) = Inr (pending_policy a)"
  proof (cases "pending_policy a = None \<or> pending_policy a = Some (bhs_active_finalizer_policy b)")
    case True
    with gens show ?thesis by (auto simp: pg gens_ok_def)
  next
    case False
    with remembered_pending [OF rem] obtain n p where p: "bhs_pending_finalizer_policy b = Some (n, p)" "pending_policy a = Some p"
      by auto
    from gens_pending [OF gens p(1)] have "fp_generation p \<noteq> 0" "fp_generation p \<noteq> active_gen b" by auto
    with p show ?thesis by (simp add: pg)
  qed
  show ?thesis
    unfolding get_finalizer_policies_def Let_def ag active pending core_accessors [OF ne] cur
    using ne range act(1) by (simp add: claim_num_def)
qed

section \<open>A step keeps the policies\<close>

lemma chain_step_policies:
  assumes "chain_step sha b fe b'"
  shows "bhs_active_finalizer_policy b' = next_active b (lib_of b')"
    and "bhs_pending_finalizer_policy b' = next_pending b (lib_of b') (bhs_block_num b')"
    and "proposal_step b fe b'" and "claim_policy_step b b'"
proof -
  from assms obtain h exts fs where "finish_next sha b (fresh_state b h exts) fs fe = Inr b'" by (auto simp: chain_step_def)
  then show "bhs_active_finalizer_policy b' = next_active b (lib_of b')"
    and "bhs_pending_finalizer_policy b' = next_pending b (lib_of b') (bhs_block_num b')"
    and "proposal_step b fe b'" and "claim_policy_step b b'"
    by (auto elim: finish_nextD)
qed

lemma proposals_split:
  "bhs_proposed_finalizer_policies b = final_proposals b lib @ dropWhile (\<lambda>p. fst p \<le> lib) (bhs_proposed_finalizer_policies b)"
  by (simp add: final_proposals_def)

lemma pending_cases:
  obtains (none) "bhs_pending_finalizer_policy b = None" "slot_open b lib" "next_active b lib = bhs_active_finalizer_policy b"
  | (promoted) n p where "bhs_pending_finalizer_policy b = Some (n, p)" "n \<le> lib" "slot_open b lib" "next_active b lib = p"
  | (kept) n p where "bhs_pending_finalizer_policy b = Some (n, p)" "lib < n" "\<not> slot_open b lib"
      "next_active b lib = bhs_active_finalizer_policy b"
proof (cases "bhs_pending_finalizer_policy b")
  case None
  then show thesis by (auto simp: slot_open_def next_active_def intro: none)
next
  case (Some np)
  obtain n p where "np = (n, p)" by fastforce
  with Some show thesis
    by (cases "n \<le> lib") (auto simp: slot_open_def next_active_def not_le intro: promoted kept)
qed

definition gens_of :: "(block_num_type \<times> finalizer_policy) list \<Rightarrow> (32 word) list" where
  "gens_of ps = map (\<lambda>p. fp_generation (snd p)) ps"

definition carried :: "block_header_state \<Rightarrow> block_num_type \<Rightarrow> block_num_type \<Rightarrow> (block_num_type \<times> finalizer_policy) list" where
  "carried b lib num = (case next_pending b lib num of None \<Rightarrow> [] | Some p \<Rightarrow> [p]) @ kept_proposals b lib"

lemma kept_gens:
  assumes "gens_ok b"
  shows "sorted_wrt (<) (fp_generation (next_active b lib) # gens_of (carried b lib num))"
    and "active_gen b \<le> fp_generation (next_active b lib)"
    and "fp_generation (next_active b lib) \<le> bhs_finalizer_policy_generation b"
    and "\<forall>g \<in> set (gens_of (carried b lib num)). g \<le> bhs_finalizer_policy_generation b"
proof -
  define F where "F = final_proposals b lib"
  define R where "R = dropWhile (\<lambda>p. fst p \<le> lib) (bhs_proposed_finalizer_policies b)"
  have fl: "in_flight b = (case bhs_pending_finalizer_policy b of None \<Rightarrow> [] | Some p \<Rightarrow> [p]) @ F @ R"
    using proposals_split [of b lib] by (simp add: in_flight_def F_def R_def)
  from assms have srt: "sorted_wrt (<) (active_gen b # gens_of (in_flight b))"
    and le: "\<forall>g \<in> set (gens_of (in_flight b)). g \<le> bhs_finalizer_policy_generation b"
    and ale: "active_gen b \<le> bhs_finalizer_policy_generation b"
    by (auto simp: gens_ok_def gens_of_def)
  have c: "carried b lib num = (if slot_open b lib then (if F = [] then [] else [(num, snd (last F))])
      else (case bhs_pending_finalizer_policy b of None \<Rightarrow> [] | Some p \<Rightarrow> [p]) @ (if F = [] then [] else [last F])) @ R"
    by (auto simp: carried_def next_pending_def kept_proposals_def F_def R_def)
  have "sorted_wrt (<) (fp_generation (next_active b lib) # gens_of (carried b lib num)) \<and>
      active_gen b \<le> fp_generation (next_active b lib) \<and>
      fp_generation (next_active b lib) \<le> bhs_finalizer_policy_generation b \<and>
      (\<forall>g \<in> set (gens_of (carried b lib num)). g \<le> bhs_finalizer_policy_generation b)"
  proof (cases F rule: rev_cases)
    case Nil
    show ?thesis
      by (rule pending_cases [of b lib]) (use srt le ale Nil in \<open>auto simp: c fl gens_of_def less_imp_le\<close>)
  next
    case (snoc ys t)
    show ?thesis
      by (rule pending_cases [of b lib])
        (use srt le ale snoc in \<open>auto simp: c fl gens_of_def sorted_wrt_append less_imp_le\<close>)
  qed
  then show "sorted_wrt (<) (fp_generation (next_active b lib) # gens_of (carried b lib num))"
    and "active_gen b \<le> fp_generation (next_active b lib)"
    and "fp_generation (next_active b lib) \<le> bhs_finalizer_policy_generation b"
    and "\<forall>g \<in> set (gens_of (carried b lib num)). g \<le> bhs_finalizer_policy_generation b"
    by auto
qed

lemma gens_ok_step:
  assumes gens: "gens_ok b" and step: "chain_step sha b fe b'" and n: "bhs_block_num b \<le> bhs_block_num b'"
  shows "gens_ok b'"
proof -
  note S = chain_step_policies [OF step]
  let ?lib = "lib_of b'" and ?num = "bhs_block_num b'"
  note K = kept_gens(2,3) [OF gens, of ?lib] and C = kept_gens(1,4) [OF gens, of ?lib ?num]
  obtain new where fl: "in_flight b' = carried b ?lib ?num @ new"
    and new: "new = [] \<and> bhs_finalizer_policy_generation b' = bhs_finalizer_policy_generation b \<or>
      (\<exists>p. new = [(?num, p)] \<and> bhs_finalizer_policy_generation b < fp_generation p \<and> bhs_finalizer_policy_generation b' = fp_generation p)"
    using S(2,3) by (auto simp: proposal_step_def in_flight_def carried_def split: option.splits)
  have "pred_option (\<lambda>(m, _). m \<le> ?num) (bhs_pending_finalizer_policy b')"
    using gens n S(2) by (cases "bhs_pending_finalizer_policy b") (auto simp: next_pending_def slot_open_def gens_ok_def split: if_splits)
  moreover have "0 < active_gen b'" using K(1) S(1) gens by (auto simp: gens_ok_def intro: less_le_trans)
  ultimately show ?thesis
    unfolding gens_ok_def fl using K C new S(1)
    by (auto simp: gens_of_def sorted_wrt_append intro: less_imp_le le_less_trans order_trans)
qed

lemma lib_le_claim: "core_win (bhs_core b) \<Longrightarrow> lib_of b \<le> claim_num b"
  using core_winD(6,7) [of "bhs_core b"] by (simp add: lib_of_def claim_num_def word_le_nat_alt)

lemma generation_lookup:
  assumes num: "chain_num sha n0 hs b" and a: "a \<in> set (hs @ [b])" and ge: "lib_of b \<le> bhs_block_num a"
  shows "get_active_finalizer_policy_generation b (bhs_block_num a) = Inr (active_gen a)"
proof -
  from num have ne: "links (bhs_core b) \<noteq> []" and cur: "source_block_num (last (links (bhs_core b))) = bhs_block_num b"
    using core_winD(1) by (auto simp: chain_num_def)
  have le: "bhs_block_num a \<le> bhs_block_num b" using a chain_num_le [OF num] by (auto intro: less_imp_le)
  have in_range: "(if links (bhs_core b) = [] then Inr True
      else rbind (last_final_block_num (bhs_core b)) (\<lambda>f. rbind (current_block_num (bhs_core b)) (\<lambda>n.
        Inr (f \<le> bhs_block_num a \<and> bhs_block_num a \<le> n)))) = Inr True"
    using ne le ge by (simp add: core_accessors cur lib_of_def)
  show ?thesis
  proof (cases "a \<in> set hs")
    case True
    with chain_lookup [OF num True ge] obtain r where "make_block_ref sha a = Inr r"
      "get_block_reference (bhs_core b) (bhs_block_num a) = Inr r" by blast
    moreover from this(1) have "ref_active_policy_generation r = active_gen a" by (auto simp: make_block_ref_def rbind_Inr_iff)
    ultimately show ?thesis
      using chain_num_le [OF num True] by (auto simp: get_active_finalizer_policy_generation_def in_range)
  next
    case False
    with a have "a = b" by simp
    show ?thesis unfolding get_active_finalizer_policy_generation_def in_range using \<open>a = b\<close> by simp
  qed
qed

lemma claim_policy_of:
  assumes num: "chain_num sha n0 hs b" and pol: "chain_pol hs b" and step: "chain_step sha b fe b'"
  obtains a where "a \<in> set (hs @ [b])" and "bhs_block_num a = claim_num b'" and "claim_num b \<le> bhs_block_num a"
    and "bhs_latest_qc_claim_block_active_finalizer_policy b' =
      (if active_gen a = active_gen b' then None else Some (bhs_active_finalizer_policy a))"
proof -
  obtain parent where le: "claim_num b \<le> claim_num b'" "claim_num b' \<le> bhs_block_num b" "lib_of b' \<le> claim_num b'"
    using chain_step_core [OF num step] .
  from num have win: "core_win (bhs_core b)" and n0: "n0 \<le> unat (lib_of b)" by (simp_all add: chain_num_def)
  have lib: "lib_of b \<le> claim_num b'" using lib_le_claim [OF win] le(1) by (rule order_trans)
  with n0 have "n0 \<le> unat (claim_num b')" by (simp add: word_le_nat_alt)
  with chain_member [OF num] le(2) obtain a where a: "a \<in> set (hs @ [b])" "bhs_block_num a = claim_num b'" by metis
  from chain_lookup [OF chain_num_step [OF num step] a(1)] a(2) le(3) obtain r where
    r: "make_block_ref sha a = Inr r" "get_block_reference (bhs_core b') (claim_num b') = Inr r" by auto
  from generation_lookup [OF num a(1)] a(2) lib have g: "get_active_finalizer_policy_generation b (claim_num b') = Inr (active_gen a)"
    by simp
  from retrieve_policies [OF num pol a(1) _ r(1)] le(1) a(2) have
    ps: "get_finalizer_policies b r = Inr \<lparr>pol_finality_digest = ref_finality_digest r,
      active_finalizer_policy = bhs_active_finalizer_policy a, pending_finalizer_policy = pending_policy a\<rparr>" by simp
  from chain_step_policies(4) [OF step] g r(2) ps have "bhs_latest_qc_claim_block_active_finalizer_policy b' =
      (if active_gen a = active_gen b' then None else Some (bhs_active_finalizer_policy a))"
    by (simp add: claim_policy_step_def split: if_splits)
  with that a le(1) show thesis by simp
qed

lemma remembers_promoted:
  assumes pol: "chain_pol hs b" and pend: "bhs_pending_finalizer_policy b = Some (n, p)"
    and a: "a \<in> set (hs @ [b])" and ge: "claim_num b \<le> bhs_block_num a" "n \<le> bhs_block_num a"
  shows "bhs_active_finalizer_policy a = bhs_active_finalizer_policy b" and "pending_policy a = Some p"
  using chain_pol_remembers [OF pol a ge(1)] pend ge(2) by (auto simp: remembers_def)

lemma fresh_pending:
  assumes "slot_open b lib" and "bhs_pending_finalizer_policy b' = next_pending b lib num" and "bhs_block_num a < num"
    and "pending_policy a \<in> {None, Some (bhs_active_finalizer_policy b')}"
    and "bhs_active_finalizer_policy a = bhs_active_finalizer_policy b' \<or>
      bhs_latest_qc_claim_block_active_finalizer_policy b' = Some (bhs_active_finalizer_policy a)"
  shows "remembers b' a"
  using assms by (auto simp: remembers_def next_pending_def)

lemma chain_pol_mono:
  assumes num: "chain_num sha n0 hs b" and pol: "chain_pol hs b" and a: "a \<in> set (hs @ [b])" "a' \<in> set (hs @ [b])"
    and ge: "claim_num b \<le> bhs_block_num a" "bhs_block_num a \<le> bhs_block_num a'"
    and act: "bhs_active_finalizer_policy a = bhs_active_finalizer_policy b"
  shows "bhs_active_finalizer_policy a' = bhs_active_finalizer_policy b"
proof (cases "a' \<in> set hs")
  case True
  then have "bhs_block_num a < bhs_block_num b" using chain_num_le [OF num True] ge(2) by simp
  with a(1) have "a \<in> set hs" by auto
  with pol True ge act show ?thesis unfolding chain_pol_def by blast
qed (use a in auto)

text \<open>Without a promotion, the claimed block's active policy is the present one or the one already tracked.\<close>

lemma unpromoted_active:
  assumes num: "chain_num sha n0 hs b" and pol: "chain_pol hs b" and same: "bhs_active_finalizer_policy b' = bhs_active_finalizer_policy b"
    and a0: "a0 \<in> set (hs @ [b])" "claim_num b \<le> bhs_block_num a0"
    and L: "bhs_latest_qc_claim_block_active_finalizer_policy b' =
      (if active_gen a0 = active_gen b' then None else Some (bhs_active_finalizer_policy a0))"
  shows "pred_option (\<lambda>p. 0 < fp_generation p \<and> fp_generation p < active_gen b') (bhs_latest_qc_claim_block_active_finalizer_policy b')"
    and "a \<in> set (hs @ [b]) \<Longrightarrow> bhs_block_num a0 \<le> bhs_block_num a \<Longrightarrow>
      bhs_active_finalizer_policy a = bhs_active_finalizer_policy b' \<or>
      bhs_latest_qc_claim_block_active_finalizer_policy b' = Some (bhs_active_finalizer_policy a)"
proof -
  note act0 = remembered_active [OF pol chain_pol_remembers [OF pol a0]]
  show "pred_option (\<lambda>p. 0 < fp_generation p \<and> fp_generation p < active_gen b') (bhs_latest_qc_claim_block_active_finalizer_policy b')"
    using act0 L same by (auto simp: word_gt_0)
  assume a: "a \<in> set (hs @ [b])" and le: "bhs_block_num a0 \<le> bhs_block_num a"
  show "bhs_active_finalizer_policy a = bhs_active_finalizer_policy b' \<or>
      bhs_latest_qc_claim_block_active_finalizer_policy b' = Some (bhs_active_finalizer_policy a)"
  proof (cases "bhs_active_finalizer_policy a0 = bhs_active_finalizer_policy b")
    case True
    with chain_pol_mono [OF num pol a0(1) a a0(2) le] same show ?thesis by simp
  next
    case False
    with act0 L same have "bhs_latest_qc_claim_block_active_finalizer_policy b' = bhs_latest_qc_claim_block_active_finalizer_policy b"
      by simp
    moreover from chain_pol_remembers [OF pol a order_trans [OF a0(2) le]]
    have "bhs_active_finalizer_policy a = bhs_active_finalizer_policy b \<or>
        bhs_latest_qc_claim_block_active_finalizer_policy b = Some (bhs_active_finalizer_policy a)"
      by (simp add: remembers_def)
    ultimately show ?thesis using same by simp
  qed
qed

lemma unpromoted_remembers:
  assumes rem: "remembers b a" and same: "bhs_active_finalizer_policy b' = bhs_active_finalizer_policy b"
    and pend: "bhs_pending_finalizer_policy b' = next_pending b lib num" and lt: "bhs_block_num a < num"
    and none: "\<nexists>n p. bhs_pending_finalizer_policy b = Some (n, p) \<and> n \<le> lib"
    and act: "bhs_active_finalizer_policy a = bhs_active_finalizer_policy b' \<or>
      bhs_latest_qc_claim_block_active_finalizer_policy b' = Some (bhs_active_finalizer_policy a)"
  shows "remembers b' a"
proof (cases "bhs_pending_finalizer_policy b")
  case None
  with rem same have "pending_policy a \<in> {None, Some (bhs_active_finalizer_policy b')}" by (simp add: remembers_def)
  with None show ?thesis
    by (intro fresh_pending [OF _ pend lt _ act]) (simp_all add: slot_open_def)
next
  case (Some np)
  with none pend have "bhs_pending_finalizer_policy b' = bhs_pending_finalizer_policy b"
    by (cases np) (simp add: next_pending_def slot_open_def)
  with rem same act Some show ?thesis by (cases np) (simp add: remembers_def split: if_splits)
qed

lemma chain_pol_step:
  assumes num: "chain_num sha n0 hs b" and pol: "chain_pol hs b" and step: "chain_step sha b fe b'"
  shows "chain_pol (hs @ [b]) b'"
proof -
  obtain parent where n': "unat (bhs_block_num b') = unat (bhs_block_num b) + 1"
    and le: "claim_num b \<le> claim_num b'" "lib_of b' \<le> claim_num b'"
    using chain_step_core [OF num step] .
  obtain a0 where a0: "a0 \<in> set (hs @ [b])" "bhs_block_num a0 = claim_num b'" "claim_num b \<le> bhs_block_num a0"
    and L: "bhs_latest_qc_claim_block_active_finalizer_policy b' =
      (if active_gen a0 = active_gen b' then None else Some (bhs_active_finalizer_policy a0))"
    using claim_policy_of [OF num pol step] .
  note S = chain_step_policies [OF step] and num' = chain_num_step [OF num step]
  from pol have gens: "gens_ok b" by (simp add: chain_pol_def)
  have gens': "gens_ok b'" by (rule gens_ok_step [OF gens step]) (simp add: word_le_nat_alt n')
  have ge: "claim_num b \<le> bhs_block_num a" if "claim_num b' \<le> bhs_block_num a" for a using le(1) that by (rule order_trans)
  have lt: "bhs_block_num a < bhs_block_num b'" if "a \<in> set (hs @ [b])" for a by (rule chain_num_le [OF num' that])
  show ?thesis
  proof (cases "\<exists>n p. bhs_pending_finalizer_policy b = Some (n, p) \<and> n \<le> lib_of b'")
    case True
    then obtain n p where np: "bhs_pending_finalizer_policy b = Some (n, p)" "n \<le> lib_of b'" by blast
    then have act: "bhs_active_finalizer_policy b' = p" and opn: "slot_open b (lib_of b')"
      using S(1) by (simp_all add: next_active_def slot_open_def)
    have past: "bhs_active_finalizer_policy a = bhs_active_finalizer_policy b" "pending_policy a = Some p"
      if "a \<in> set (hs @ [b])" "claim_num b' \<le> bhs_block_num a" for a
      using remembers_promoted [OF pol np(1) that(1) ge [OF that(2)]] np(2) le(2) that(2) by auto
    have gt: "0 < active_gen b" "active_gen b < active_gen b'"
      using gens gens_pending [OF gens np(1)] act by (auto simp: gens_ok_def)
    with L past [OF a0(1)] a0(2) have L: "bhs_latest_qc_claim_block_active_finalizer_policy b' = Some (bhs_active_finalizer_policy b)"
      by auto
    have "remembers b' a" if "a \<in> set (hs @ [b])" "claim_num b' \<le> bhs_block_num a" for a
      using past [OF that] L act by (intro fresh_pending [OF opn S(2) lt [OF that(1)]]) auto
    moreover have "bhs_active_finalizer_policy b \<noteq> bhs_active_finalizer_policy b'" using gt by auto
    ultimately show ?thesis
      unfolding chain_pol_def using gens' L gt past(1) by auto
  next
    case False
    then have act: "bhs_active_finalizer_policy b' = bhs_active_finalizer_policy b"
      using S(1) by (auto simp: next_active_def split: option.splits)
    note U = unpromoted_active [OF num pol act a0(1,3) L]
    have "remembers b' a" if "a \<in> set (hs @ [b])" "claim_num b' \<le> bhs_block_num a" for a
      using U(2) [OF that(1)] that a0(2)
      by (intro unpromoted_remembers [OF chain_pol_remembers [OF pol that(1) ge [OF that(2)]] act S(2) lt [OF that(1)] False]) simp
    moreover have "bhs_active_finalizer_policy a' = bhs_active_finalizer_policy b'"
      if "a \<in> set (hs @ [b])" "a' \<in> set (hs @ [b])" "claim_num b' \<le> bhs_block_num a" "bhs_block_num a \<le> bhs_block_num a'"
        "bhs_active_finalizer_policy a = bhs_active_finalizer_policy b'" for a a'
      using chain_pol_mono [OF num pol that(1,2) ge [OF that(3)] that(4)] that(5) act by simp
    ultimately show ?thesis
      unfolding chain_pol_def using gens' U(1) by blast
  qed
qed

lemma header_chain_inv:
  "header_chain sha g1_ok validator hs b \<Longrightarrow> \<exists>n0. chain_num sha n0 hs b \<and> chain_pol hs b"
proof (induction rule: header_chain_induct)
  case (genesis b)
  then show ?case using chain_num_genesis chain_pol_genesis by blast
next
  case (step hs b fe b')
  then show ?case using chain_num_step chain_pol_step by blast
qed

section \<open>Where policies come from\<close>

definition proposed_at :: "block_header_state \<Rightarrow> finalizer_policy \<Rightarrow> bool" where
  "proposed_at s p \<longleftrightarrow> (bhs_block_num s, p) \<in> set (bhs_proposed_finalizer_policies s)"

definition pending_since :: "block_header_state list \<Rightarrow> block_num_type \<Rightarrow> finalizer_policy \<Rightarrow> bool" where
  "pending_since ss n p \<longleftrightarrow> (\<exists>s \<in> set ss. bhs_block_num s = n \<and> bhs_pending_finalizer_policy s = Some (n, p) \<and>
     (\<exists>s' \<in> set ss. proposed_at s' p \<and> bhs_block_num s' \<le> lib_of s))"

definition chain_origin :: "block_header_state list \<Rightarrow> bool" where
  "chain_origin ss \<longleftrightarrow> (\<forall>b \<in> set ss.
     (\<forall>(m, p) \<in> set (bhs_proposed_finalizer_policies b). \<exists>s \<in> set ss. bhs_block_num s = m \<and> proposed_at s p) \<and>
     (\<forall>n p. bhs_pending_finalizer_policy b = Some (n, p) \<longrightarrow> pending_since ss n p))"

lemma pending_since_mono: "pending_since ss n p \<Longrightarrow> set ss \<subseteq> set ss' \<Longrightarrow> pending_since ss' n p"
  unfolding pending_since_def by blast

lemma chain_originI:
  assumes "\<And>b m p. b \<in> set ss \<Longrightarrow> (m, p) \<in> set (bhs_proposed_finalizer_policies b) \<Longrightarrow> \<exists>s \<in> set ss. bhs_block_num s = m \<and> proposed_at s p"
    and "\<And>b n p. b \<in> set ss \<Longrightarrow> bhs_pending_finalizer_policy b = Some (n, p) \<Longrightarrow> pending_since ss n p"
  shows "chain_origin ss"
  unfolding chain_origin_def using assms by blast

lemma chain_originD:
  assumes "chain_origin ss" and "b \<in> set ss"
  shows "(m, p) \<in> set (bhs_proposed_finalizer_policies b) \<Longrightarrow> \<exists>s \<in> set ss. bhs_block_num s = m \<and> proposed_at s p"
    and "bhs_pending_finalizer_policy b = Some (n, p) \<Longrightarrow> pending_since ss n p"
  using assms unfolding chain_origin_def by (blast, blast)

lemma chain_origin_step:
  assumes org: "chain_origin (hs @ [b])" and step: "chain_step sha b fe b'"
  shows "chain_origin ((hs @ [b]) @ [b'])"
proof -
  note S = chain_step_policies [OF step]
  let ?ss = "(hs @ [b]) @ [b']" and ?lib = "lib_of b'"
  have kept: "set (kept_proposals b ?lib) \<subseteq> set (bhs_proposed_finalizer_policies b)"
    and final: "\<forall>p \<in> set (final_proposals b ?lib). p \<in> set (bhs_proposed_finalizer_policies b) \<and> fst p \<le> ?lib"
    by (auto simp: kept_proposals_def final_proposals_def dest: set_takeWhileD set_dropWhileD last_in_set)
  from S(3) have new: "mp \<in> set (bhs_proposed_finalizer_policies b) \<or> fst mp = bhs_block_num b'"
    if "mp \<in> set (bhs_proposed_finalizer_policies b')" for mp
    using that kept by (auto simp: proposal_step_def split: option.splits)
  have 1: "\<exists>s \<in> set ?ss. bhs_block_num s = m \<and> proposed_at s p" if "(m, p) \<in> set (bhs_proposed_finalizer_policies b')" for m p
  proof (cases "(m, p) \<in> set (bhs_proposed_finalizer_policies b)")
    case True
    with chain_originD(1) [OF org] show ?thesis by auto
  next
    case False
    with new [OF that] that show ?thesis by (auto simp: proposed_at_def)
  qed
  have 2: "pending_since ?ss n p" if pn: "bhs_pending_finalizer_policy b' = Some (n, p)" for n p
  proof (cases "slot_open b ?lib")
    case False
    with S(2) pn have "bhs_pending_finalizer_policy b = Some (n, p)" by (simp add: next_pending_def)
    with chain_originD(2) [OF org, of b] have "pending_since (hs @ [b]) n p" by simp
    then show ?thesis by (rule pending_since_mono) auto
  next
    case True
    with S(2) pn have n: "n = bhs_block_num b'" and ne: "final_proposals b ?lib \<noteq> []"
      and p: "p = snd (last (final_proposals b ?lib))"
      by (auto simp: next_pending_def split: if_splits)
    define m where "m = fst (last (final_proposals b ?lib))"
    from ne final have "(m, p) \<in> set (bhs_proposed_finalizer_policies b)" "m \<le> ?lib" by (simp_all add: m_def p)
    with chain_originD(1) [OF org, of b] obtain s where "s \<in> set (hs @ [b])" "bhs_block_num s = m" "proposed_at s p" by auto
    with pn n \<open>m \<le> ?lib\<close> show ?thesis unfolding pending_since_def by auto
  qed
  have old: "\<exists>s \<in> set ?ss. bhs_block_num s = m \<and> proposed_at s p"
    if "a \<in> set (hs @ [b])" "(m, p) \<in> set (bhs_proposed_finalizer_policies a)" for a m p
    using chain_originD(1) [OF org that] by auto
  have oldp: "pending_since ?ss n p" if "a \<in> set (hs @ [b])" "bhs_pending_finalizer_policy a = Some (n, p)" for a n p
    using chain_originD(2) [OF org that] by (rule pending_since_mono) auto
  show ?thesis
  proof (rule chain_originI)
    fix a m p assume "a \<in> set ?ss" "(m, p) \<in> set (bhs_proposed_finalizer_policies a)"
    then show "\<exists>s \<in> set ?ss. bhs_block_num s = m \<and> proposed_at s p"
      using 1 [of m p] old [of a m p] by (cases "a = b'") simp_all
  next
    fix a n p assume "a \<in> set ?ss" "bhs_pending_finalizer_policy a = Some (n, p)"
    then show "pending_since ?ss n p" using 2 [of n p] oldp [of a n p] by (cases "a = b'") simp_all
  qed
qed

lemma header_chain_origin: "header_chain sha g1_ok validator hs b \<Longrightarrow> chain_origin (hs @ [b])"
proof (induction rule: header_chain_induct)
  case (genesis b)
  then show ?case by (simp add: genesis_state_def chain_origin_def)
next
  case (step hs b fe b')
  then show ?case using chain_origin_step by blast
qed

section \<open>A sample chain\<close>

text \<open>
  From a genesis block 2, block 3 proposes a policy and every block claims a strong certificate
  for its parent; the policy is pending from block 5 on and active in block 7.
\<close>

definition sample_sha :: "byte list \<Rightarrow> sha256" where
  "sample_sha bs = Sha256 (of_nat (length bs)) 0 0 1"

definition sample_fin_policy :: "32 word \<Rightarrow> finalizer_policy" where
  "sample_fin_policy g = \<lparr>fp_generation = g, fp_threshold = 1, fp_finalizers = []\<rparr>"

definition sample_proposers :: proposer_policy where
  "sample_proposers = \<lparr>proposal_time = 0, proposer_schedule = \<lparr>sched_version = 1,
     sched_producers = [\<lparr>pa_producer_name = 7, pa_authority = Block_signing_authority_v0 1 []\<rparr>]\<rparr>\<rparr>"

definition sample_genesis :: block_header_state where
  "sample_genesis = \<lparr>bhs_block_id = embed_block_num sha256_zero 2,
     bhs_header = \<lparr>bh_timestamp = 20, bh_producer = 7, bh_confirmed = 0, bh_previous = embed_block_num sha256_zero 1,
       bh_transaction_mroot = sha256_zero, bh_action_mroot = sha256_zero, bh_schedule_version = 0, bh_new_producers = None,
       bh_header_extensions = []\<rparr>,
     bhs_activated_protocol_features = [],
     bhs_core = create_core_for_genesis_block (embed_block_num sha256_zero 2) 20,
     bhs_active_finalizer_policy = sample_fin_policy 1, bhs_active_proposer_policy = sample_proposers,
     bhs_latest_proposed_proposer_policy = None, bhs_latest_pending_proposer_policy = None,
     bhs_proposed_finalizer_policies = [], bhs_pending_finalizer_policy = None,
     bhs_latest_qc_claim_block_active_finalizer_policy = None, bhs_finalizer_policy_generation = 1,
     bhs_last_pending_finalizer_policy_digest = sha256_zero, bhs_last_pending_finalizer_policy_start_timestamp = 20,
     bhs_header_exts = []\<rparr>"

definition sample_input :: "block_header_state \<Rightarrow> finalizer_policy option \<Rightarrow> qc_claim_t \<Rightarrow> block_header_state_input" where
  "sample_input b p q = \<lparr>bi_parent_id = bhs_block_id b, bi_parent_timestamp = bhs_timestamp b, bi_timestamp = bhs_timestamp b + 1,
     bi_producer = 7, bi_new_protocol_feature_activations = [], bi_transaction_mroot = sha256_zero,
     bi_new_proposer_policy = None, bi_new_finalizer_policy = p, bi_most_recent_ancestor_with_qc = q,
     bi_finality_mroot_claim = sha256_zero\<rparr>"

fun assemble_chain :: "(byte list \<Rightarrow> sha256) \<Rightarrow> block_header_state list \<Rightarrow> block_header_state \<Rightarrow>
    (finalizer_policy option \<times> qc_claim_t) list \<Rightarrow> (block_header_state list \<times> block_header_state) res" where
  "assemble_chain sha hs b [] = Inr (hs, b)"
| "assemble_chain sha hs b ((p, q) # is) = rbind (next_from_input sha b (sample_input b p q)) (\<lambda>b'. assemble_chain sha (hs @ [b]) b' is)"

definition sample_steps :: "(finalizer_policy option \<times> qc_claim_t) list" where
  "sample_steps = [(Some (sample_fin_policy 2), Qc_claim 2 True), (None, Qc_claim 3 True), (None, Qc_claim 4 True), (None, Qc_claim 5 True),
    (None, Qc_claim 6 True)]"

lemma assemble_header_chain:
  assumes "header_chain sha g1_ok validator hs b" and "assemble_chain sha hs b xs = Inr (hs', b')"
    and "unat (bhs_block_num b) + length xs < 2 ^ 32"
  shows "header_chain sha g1_ok validator hs' b'"
  using assms
proof (induction xs arbitrary: hs b)
  case (Cons x xs)
  obtain p q where x: "x = (p, q)" by fastforce
  from Cons.prems(2) x obtain n where n: "next_from_input sha b (sample_input b p q) = Inr n"
    and rest: "assemble_chain sha (hs @ [b]) n xs = Inr (hs', b')" by (auto simp: rbind_Inr_iff)
  have room: "unat (bhs_block_num b) + 1 < 2 ^ 32" using Cons.prems(3) by simp
  have "header_chain sha g1_ok validator (hs @ [b]) n"
    by (rule assembled [OF Cons.prems(1) _ n room]) (simp add: sample_input_def)
  moreover from assembled_step [OF n _ room] obtain fe where step: "chain_step sha b fe n" by (auto simp: sample_input_def)
  from header_chain_inv [OF Cons.prems(1)] obtain n0 where "chain_num sha n0 hs b" by blast
  from chain_step_core [OF this step] have "unat (bhs_block_num n) = unat (bhs_block_num b) + 1" by blast
  then have "unat (bhs_block_num n) + length xs < 2 ^ 32" using Cons.prems(3) by simp
  ultimately show ?case using Cons.IH rest by blast
qed simp

lemma sample_genesis_state: "genesis_state sample_genesis"
  by (simp add: genesis_state_def sample_genesis_def sample_fin_policy_def bhs_block_num_def num_from_embed_block_num)

lemma sample_chain_run:
  "case assemble_chain sample_sha [] sample_genesis sample_steps of Inl _ \<Rightarrow> False | Inr (hs, b) \<Rightarrow>
     hs \<noteq> [] \<and> active_gen (last hs) = 1 \<and> active_gen b = 2 \<and> last_final_block_num (bhs_core b) = Inr 5 \<and>
     latest_qc_claim (bhs_core b) = Inr (Qc_claim 6 True) \<and> bhs_block_num (last hs) = 6 \<and>
     (case make_block_ref sample_sha (last hs) of Inl _ \<Rightarrow> False | Inr _ \<Rightarrow> True)"
  by code_simp

lemma sample_chain:
  obtains hs a b r where "header_chain sample_sha (\<lambda>_. True) (\<lambda>_ _ _. Inr ()) (hs @ [a]) b" and "active_gen a = 1" and "active_gen b = 2"
    and "last_final_block_num (bhs_core b) = Inr 5" and "latest_qc_claim (bhs_core b) = Inr (Qc_claim 6 True)"
    and "bhs_block_num a = 6" and "make_block_ref sample_sha a = Inr r"
proof -
  obtain hs b where run: "assemble_chain sample_sha [] sample_genesis sample_steps = Inr (hs, b)"
    and facts: "hs \<noteq> []" "active_gen (last hs) = 1" "active_gen b = 2" "last_final_block_num (bhs_core b) = Inr 5"
      "latest_qc_claim (bhs_core b) = Inr (Qc_claim 6 True)" "bhs_block_num (last hs) = 6"
    and r: "case make_block_ref sample_sha (last hs) of Inl _ \<Rightarrow> False | Inr _ \<Rightarrow> True"
    using sample_chain_run by (auto simp: case_evaluated)
  have room: "unat (bhs_block_num sample_genesis) + length sample_steps < 2 ^ 32"
    by (simp add: sample_genesis_def bhs_block_num_def num_from_embed_block_num sample_steps_def)
  have "header_chain sample_sha (\<lambda>_. True) (\<lambda>_ _ _. Inr ()) hs b"
    by (rule assemble_header_chain [OF header_chain.genesis [OF sample_genesis_state] run room])
  moreover have "hs = butlast hs @ [last hs]" using facts(1) by simp
  moreover obtain ref where "make_block_ref sample_sha (last hs) = Inr ref" using r by (auto simp: case_evaluated)
  ultimately show thesis using that [of "butlast hs" "last hs" b ref] facts by simp
qed

section \<open>The policy life cycle\<close>

text \<open>
  C9: Policy retrieval never fails and is right.  For any state of a chain and any block of it from the
  latest certificate claim on, the state's own block included, \<open>get_finalizer_policies\<close> fails none
  of its checks and returns exactly the active and the pending policy that block had.
\<close>

theorem finalizer_policies_retrieved:
  assumes "header_chain sha g1_ok validator hs b" and "a \<in> set (hs @ [b])"
    and "latest_qc_claim (bhs_core b) = Inr q" and "claim_block_num q \<le> bhs_block_num a" and "make_block_ref sha a = Inr r"
  shows "get_finalizer_policies b r = Inr \<lparr>pol_finality_digest = ref_finality_digest r,
    active_finalizer_policy = bhs_active_finalizer_policy a,
    pending_finalizer_policy = map_option snd (bhs_pending_finalizer_policy a)\<rparr>"
proof -
  obtain n0 where inv: "chain_num sha n0 hs b" "chain_pol hs b" using header_chain_inv [OF assms(1)] by blast
  then have "links (bhs_core b) \<noteq> []" using core_winD(1) by (auto simp: chain_num_def)
  with assms(3) have "claim_num b = claim_block_num q" by (auto simp: core_accessors claim_num_def)
  with retrieve_policies [OF inv assms(2) _ assms(5)] assms(4) show ?thesis by (simp add: pending_policy_def)
qed

theorem finalizer_policies_retrieved_witness:
  "\<exists>b a r. active_gen a = 1 \<and> active_gen b = 2 \<and>
     get_finalizer_policies b r = Inr \<lparr>pol_finality_digest = ref_finality_digest r, active_finalizer_policy = bhs_active_finalizer_policy a,
       pending_finalizer_policy = map_option snd (bhs_pending_finalizer_policy a)\<rparr>"
proof -
  obtain hs a b r where s: "header_chain sample_sha (\<lambda>_. True) (\<lambda>_ _ _. Inr ()) (hs @ [a]) b" "active_gen a = 1" "active_gen b = 2"
    "latest_qc_claim (bhs_core b) = Inr (Qc_claim 6 True)" "bhs_block_num a = 6" "make_block_ref sample_sha a = Inr r"
    using sample_chain by metis
  from finalizer_policies_retrieved [OF s(1) _ s(4) _ s(6)] s(2,3,5) show ?thesis by auto
qed

inductive_cases header_chain_snocE: "header_chain sha g1_ok validator (hs @ [b]) b'"

lemma header_chain_snocD:
  "header_chain sha g1_ok validator (hs @ [b]) b' \<Longrightarrow> header_chain sha g1_ok validator hs b \<and> (\<exists>fe. chain_step sha b fe b')"
  by (erule header_chain_snocE) (auto dest: assembled_step received_step)

lemma header_chain_member:
  "header_chain sha g1_ok validator hs b \<Longrightarrow> s \<in> set (hs @ [b]) \<Longrightarrow> \<exists>hs'. header_chain sha g1_ok validator hs' s"
proof (induction hs arbitrary: b rule: rev_induct)
  case (snoc a hs)
  then show ?case using header_chain_snocD [OF snoc.prems(1)] by auto
qed auto

lemma header_chain_lib: "header_chain sha g1_ok validator hs b \<Longrightarrow> last_final_block_num (bhs_core b) = Inr (lib_of b)"
  using core_winD(1) by (auto dest!: header_chain_inv simp: chain_num_def core_accessors lib_of_def)

text \<open>
  C10: A finalizer policy takes effect through two rounds of finality, and as soon as the second is
  complete.  A pending policy whose block is final in the core of the next state is active there.
  Conversely, when the active policy changes in a step of a chain, the new one was proposed in an
  earlier block, became pending in a block whose core had the proposing block final, and that block
  is final in the core of the new state.  The generation of the active policy never decreases.
\<close>

theorem policy_change_gated:
  assumes "header_chain sha g1_ok validator (hs @ [b]) b'" and "last_final_block_num (bhs_core b') = Inr lib"
  shows "fp_generation (bhs_active_finalizer_policy b) \<le> fp_generation (bhs_active_finalizer_policy b') \<and>
    (\<forall>n p. bhs_pending_finalizer_policy b = Some (n, p) \<and> n \<le> lib \<longrightarrow> bhs_active_finalizer_policy b' = p) \<and>
    (bhs_active_finalizer_policy b' = bhs_active_finalizer_policy b \<or>
     (\<exists>s \<in> set (hs @ [b]). \<exists>s' \<in> set (hs @ [b]). \<exists>lf.
        (bhs_block_num s', bhs_active_finalizer_policy b') \<in> set (bhs_proposed_finalizer_policies s') \<and>
        last_final_block_num (bhs_core s) = Inr lf \<and> bhs_block_num s' \<le> lf \<and>
        bhs_pending_finalizer_policy s = Some (bhs_block_num s, bhs_active_finalizer_policy b') \<and> bhs_block_num s \<le> lib))"
proof -
  from header_chain_snocD [OF assms(1)] obtain fe where ch: "header_chain sha g1_ok validator hs b" and step: "chain_step sha b fe b'"
    by blast
  have lib: "lib = lib_of b'" using header_chain_lib [OF assms(1)] assms(2) by simp
  have gens: "gens_ok b" using header_chain_inv [OF ch] by (auto simp: chain_pol_def)
  have act: "bhs_active_finalizer_policy b' = next_active b lib" using chain_step_policies(1) [OF step] lib by simp
  have "bhs_active_finalizer_policy b' = bhs_active_finalizer_policy b \<or>
    (\<exists>n p. bhs_pending_finalizer_policy b = Some (n, p) \<and> n \<le> lib \<and> bhs_active_finalizer_policy b' = p)"
    unfolding act by (rule pending_cases [of b lib]) auto
  moreover have "\<exists>s \<in> set (hs @ [b]). \<exists>s' \<in> set (hs @ [b]). \<exists>lf.
        (bhs_block_num s', p) \<in> set (bhs_proposed_finalizer_policies s') \<and>
        last_final_block_num (bhs_core s) = Inr lf \<and> bhs_block_num s' \<le> lf \<and>
        bhs_pending_finalizer_policy s = Some (bhs_block_num s, p) \<and> bhs_block_num s \<le> lib"
    if "bhs_pending_finalizer_policy b = Some (n, p)" "n \<le> lib" for n p
  proof -
    from chain_originD(2) [OF header_chain_origin [OF ch] _ that(1)] obtain s s' where
      s: "s \<in> set (hs @ [b])" "s' \<in> set (hs @ [b])" "bhs_block_num s = n" "bhs_pending_finalizer_policy s = Some (n, p)"
        "proposed_at s' p" "bhs_block_num s' \<le> lib_of s"
      by (auto simp: pending_since_def)
    from header_chain_member [OF ch s(1)] header_chain_lib have "last_final_block_num (bhs_core s) = Inr (lib_of s)" by blast
    with s that(2) show ?thesis unfolding proposed_at_def by blast
  qed
  ultimately have "bhs_active_finalizer_policy b' = bhs_active_finalizer_policy b \<or>
     (\<exists>s \<in> set (hs @ [b]). \<exists>s' \<in> set (hs @ [b]). \<exists>lf.
        (bhs_block_num s', bhs_active_finalizer_policy b') \<in> set (bhs_proposed_finalizer_policies s') \<and>
        last_final_block_num (bhs_core s) = Inr lf \<and> bhs_block_num s' \<le> lf \<and>
        bhs_pending_finalizer_policy s = Some (bhs_block_num s, bhs_active_finalizer_policy b') \<and> bhs_block_num s \<le> lib)"
    by blast
  moreover have "\<forall>n p. bhs_pending_finalizer_policy b = Some (n, p) \<and> n \<le> lib \<longrightarrow> bhs_active_finalizer_policy b' = p"
    by (auto simp: act next_active_def)
  moreover have "fp_generation (bhs_active_finalizer_policy b) \<le> fp_generation (bhs_active_finalizer_policy b')"
    using kept_gens(2) [OF gens, of lib] act by simp
  ultimately show ?thesis by blast
qed

theorem policy_change_gated_witness:
  "\<exists>b b'. active_gen b = 1 \<and> active_gen b' = 2 \<and>
     (\<exists>s s' lf. bhs_pending_finalizer_policy s = Some (bhs_block_num s, bhs_active_finalizer_policy b') \<and> bhs_block_num s \<le> 5 \<and>
        (bhs_block_num s', bhs_active_finalizer_policy b') \<in> set (bhs_proposed_finalizer_policies s') \<and>
        last_final_block_num (bhs_core s) = Inr lf \<and> bhs_block_num s' \<le> lf)"
proof -
  obtain hs a b r where s: "header_chain sample_sha (\<lambda>_. True) (\<lambda>_ _ _. Inr ()) (hs @ [a]) b" "active_gen a = 1" "active_gen b = 2"
    "last_final_block_num (bhs_core b) = Inr 5"
    using sample_chain by metis
  from s(2,3) have "bhs_active_finalizer_policy b \<noteq> bhs_active_finalizer_policy a" by auto
  with policy_change_gated [OF s(1,4)] s(2,3) show ?thesis by blast
qed

end
