(* ===== verification/Header_Agreement.thy ===== *)
theory Header_Agreement
  imports Header_Chain
begin

text \<open>
  The producer of a block and every node that receives its header reach the same header state; the
  producer named in a header is the one scheduled by the state it leads to; and the finality digest
  commits to what finalizers sign.
\<close>

section \<open>Assembling and receiving\<close>

text \<open>Keys and authorities of proposed policies that the receiving side can decode.\<close>

definition input_ok :: "(byte list \<Rightarrow> bool) \<Rightarrow> block_header_state_input \<Rightarrow> bool" where
  "input_ok g1_ok input \<longleftrightarrow>
     pred_option (\<lambda>p. list_all (finalizer_ok g1_ok) (fp_finalizers p)) (bi_new_finalizer_policy input) \<and>
     pred_option (\<lambda>p. list_all (\<lambda>x. authority_ok (pa_authority x)) (sched_producers (proposer_schedule p))) (bi_new_proposer_policy input)"

lemma new_extension_ok:
  assumes "new_finality_extension b input = Inr fe" and ok: "input_ok g1_ok input"
  shows "fe_ok g1_ok fe" and "fe_qc_claim fe = bi_most_recent_ancestor_with_qc input"
proof -
  from assms(1) obtain fd pd where
    fd: "(case bi_new_finalizer_policy input of None \<Rightarrow> Inr None
       | Some p \<Rightarrow> rbind (fp_create_diff (get_last_proposed_finalizer_policy b) p) (\<lambda>d. Inr (Some d))) = Inr fd"
    and pd: "(case bi_new_proposer_policy input of None \<Rightarrow> Inr None
       | Some p \<Rightarrow> rbind (pp_create_diff (get_last_proposed_proposer_policy b) p) (\<lambda>d. Inr (Some d))) = Inr pd"
    and fe: "fe = \<lparr>fe_qc_claim = bi_most_recent_ancestor_with_qc input, fe_new_finalizer_policy_diff = fd, fe_new_proposer_policy_diff = pd\<rparr>"
    by (auto simp: new_finality_extension_def rbind_Inr_iff)
  show "fe_qc_claim fe = bi_most_recent_ancestor_with_qc input" by (simp add: fe)
  have "pred_option (fpd_ok g1_ok) fd"
    using fd ok by (fastforce simp: input_ok_def fp_create_diff_def rbind_Inr_iff fpd_ok_def list_all_iff split: option.splits
        dest!: ordered_diff_inserts)
  moreover have "pred_option ppd_ok pd"
    using pd ok by (fastforce simp: input_ok_def pp_create_diff_def rbind_Inr_iff ppd_ok_def list_all_iff split: option.splits
        dest!: ordered_diff_inserts)
  ultimately show "fe_ok g1_ok fe" by (simp add: fe_ok_def fe)
qed

lemma extract_assembled:
  assumes ok: "fe_ok g1_ok fe" and ds: "distinct (bi_new_protocol_feature_activations input)"
    and exts: "assembled_extensions input fe = Inr exts"
  shows "validate_and_extract_header_extensions g1_ok (assembled_header input exts) = Inr (assembled_exts_map input fe)"
proof -
  let ?ds = "bi_new_protocol_feature_activations input"
  from exts obtain fb where fb: "pack_finality_extension fe = Inr fb"
    and rest: "(if ?ds \<noteq> [] then rbind (pack_vector pack_sha256 ?ds) (\<lambda>pb.
        Inr (emplace_extension (emplace_extension [] finality_extension_id fb) protocol_feature_activation_id pb))
      else Inr (emplace_extension [] finality_extension_id fb)) = Inr exts"
    by (auto simp: assembled_extensions_def rbind_Inr_iff Let_def)
  from fext.unpack_pack_all [OF ok fb] have
    f: "decompose_extract g1_ok finality_extension_id fb = Inr (Some (Finality fe, True))"
    by (simp add: decompose_extract_def finality_extension_id_def protocol_feature_activation_id_def producer_schedule_change_id_def)
  note ids = finality_extension_id_def protocol_feature_activation_id_def
  show ?thesis
  proof (cases "?ds = []")
    case True
    with rest f show ?thesis
      by (simp add: validate_and_extract_header_extensions_def assembled_header_def assembled_exts_map_def emplace_extension_def)
        (auto simp: f)
  next
    case False
    with rest obtain pb where pb: "pack_vector pack_sha256 ?ds = Inr pb"
      and e: "exts = [(protocol_feature_activation_id, pb), (finality_extension_id, fb)]"
      by (auto simp: rbind_Inr_iff emplace_extension_def ids)
    from unpack_features [OF False ds pb] have
      p: "decompose_extract g1_ok protocol_feature_activation_id pb = Inr (Some (Protocol_feature_activation ?ds, True))"
      by (simp add: decompose_extract_def)
    have "protocol_feature_activation_id < finality_extension_id" "0 \<le> protocol_feature_activation_id" by (simp_all add: ids)
    with p f False show ?thesis
      by (simp add: validate_and_extract_header_extensions_def assembled_header_def assembled_exts_map_def e less_imp_le)
  qed
qed

lemma finish_features_distinct: "finish_features b fs n = Inr n' \<Longrightarrow> distinct fs"
proof -
  assume "finish_features b fs n = Inr n'"
  then have "fs = [] \<or> length (remdups (bhs_activated_protocol_features b @ fs)) = length (bhs_activated_protocol_features b @ fs)"
    by (auto simp: finish_features_def add_protocol_features_def rbind_Inr_iff ensure_Inr_iff Let_def split: if_splits)
  then show "distinct fs"
    by (metis distinct.simps(1) distinct_append length_remdups_eq remdups_id_iff_distinct)
qed

lemma core_next_metadata:
  assumes "core_next c r q = Inr c'"
  shows "\<exists>md. next_metadata c q = Inr md \<and> md_latest_qc_claim_block_num md = claim_block_num q"
proof -
  from assms obtain cur lqc nb where "current_block_num c = Inr cur" "claim_block_num q \<le> cur" "latest_qc_claim c = Inr lqc" "lqc \<le> q"
    "get_new_block_numbers c q = Inr nb"
    unfolding core_next_def rbind_Inr_iff ensure_Inr_iff by blast
  then show ?thesis by (cases nb) (simp add: next_metadata_def)
qed

text \<open>
  C16: Producer and receiver agree.  When a producer that is scheduled for the slot assembles the
  next state, with decodable policies, activations that the validator accepts and a finality root that
  is empty exactly when the claim is for the genesis block, every node at the same state that
  receives the resulting header accepts it and reaches the same next state.
\<close>

theorem receiver_reaches_same_state:
  assumes "next_from_input sha b input = Inr b'" and "input_ok g1_ok input"
    and "bi_parent_id input = bhs_block_id b"
    and "get_producer_for_block_at b (bi_timestamp input) = Inr producer" and "bi_producer input = pa_producer_name producer"
    and "validator (bhs_timestamp b) (bhs_activated_protocol_features b) (bi_new_protocol_feature_activations input) = Inr ()"
    and "is_genesis_block_num (bhs_core b) (claim_block_num (bi_most_recent_ancestor_with_qc input)) =
      Inr (sha256_empty (bi_finality_mroot_claim input))"
  shows "next_from_header sha g1_ok validator b (bhs_header b') = Inr b'"
proof -
  let ?ds = "bi_new_protocol_feature_activations input"
  from assms(1) obtain fe exts where fe: "new_finality_extension b input = Inr fe" and exts: "assembled_extensions input fe = Inr exts"
    and fin: "finish_next sha b (fresh_state b (assembled_header input exts) (assembled_exts_map input fe)) ?ds fe = Inr b'"
    by (rule next_from_inputD)
  let ?h = "assembled_header input exts"
  note ok = new_extension_ok [OF fe assms(2)]
  from fin have ds: "distinct ?ds" unfolding finish_next_def rbind_Inr_iff by (blast intro: finish_features_distinct)
  from fin obtain parent where c: "core_next (bhs_core b) parent (fe_qc_claim fe) = Inr (bhs_core b')" and h: "bhs_header b' = ?h"
    by (rule finish_nextD)
  from extract_assembled [OF ok(1) ds exts] have ex: "validate_and_extract_header_extensions g1_ok ?h = Inr (assembled_exts_map input fe)" .
  have rf: "received_features validator b (assembled_exts_map input fe) = Inr ?ds"
    using assms(6) by (simp add: received_features_def assembled_exts_map_def ext_find_def
        protocol_feature_activation_id_def finality_extension_id_def)
  have re: "received_finality_extension (assembled_exts_map input fe) = Inr fe"
    by (simp add: received_finality_extension_def assembled_exts_map_def ext_find_def
        protocol_feature_activation_id_def finality_extension_id_def)
  from core_next_metadata [OF c] obtain md where "next_metadata (bhs_core b) (fe_qc_claim fe) = Inr md"
    "md_latest_qc_claim_block_num md = claim_block_num (fe_qc_claim fe)" by blast
  with assms(7) ok(2) have cf: "check_finality_root b ?h fe = Inr ()"
    by (simp add: check_finality_root_def assembled_header_def)
  have hd: "bh_timestamp ?h = bi_timestamp input" "bh_previous ?h = bhs_block_id b" "bh_producer ?h = pa_producer_name producer"
    "bh_new_producers ?h = None"
    using assms(3,5) by (simp_all add: assembled_header_def)
  show ?thesis
    unfolding h next_from_header_def hd assms(4) ex rf re cf rbind_simps fin by simp
qed

text \<open>The block that proposes a policy on the sample genesis block.\<close>

definition sample_proposal :: block_header_state_input where
  "sample_proposal = sample_input sample_genesis (Some (sample_fin_policy 2)) (Qc_claim 2 True)"

lemma sample_producer: "get_producer_for_block_at sample_genesis 21 = Inr \<lparr>pa_producer_name = 7, pa_authority = Block_signing_authority_v0 1 []\<rparr>"
  by code_simp

lemma sample_genesis_claim: "is_genesis_block_num (bhs_core sample_genesis) 2 = Inr True"
  by code_simp

lemma sample_assembled: "case next_from_input sample_sha sample_genesis sample_proposal of Inl _ \<Rightarrow> False | Inr _ \<Rightarrow> True"
  by code_simp

theorem receiver_reaches_same_state_witness:
  "\<exists>b'. next_from_input sample_sha sample_genesis sample_proposal = Inr b' \<and>
     next_from_header sample_sha (\<lambda>_. True) (\<lambda>_ _ _. Inr ()) sample_genesis (bhs_header b') = Inr b'"
proof -
  obtain b' where b': "next_from_input sample_sha sample_genesis sample_proposal = Inr b'"
    using sample_assembled by (auto simp: case_evaluated)
  have "next_from_header sample_sha (\<lambda>_. True) (\<lambda>_ _ _. Inr ()) sample_genesis (bhs_header b') = Inr b'"
  proof (rule receiver_reaches_same_state [OF b' _ _ _ _ _ _])
    show "get_producer_for_block_at sample_genesis (bi_timestamp sample_proposal) =
        Inr \<lparr>pa_producer_name = 7, pa_authority = Block_signing_authority_v0 1 []\<rparr>"
      using sample_producer by (simp add: sample_proposal_def sample_input_def sample_genesis_def)
    show "is_genesis_block_num (bhs_core sample_genesis) (claim_block_num (bi_most_recent_ancestor_with_qc sample_proposal)) =
        Inr (sha256_empty (bi_finality_mroot_claim sample_proposal))"
      using sample_genesis_claim by (simp add: sample_proposal_def sample_input_def sha256_empty_iff)
  qed (simp_all add: sample_proposal_def sample_input_def input_ok_def sample_fin_policy_def)
  with b' show ?thesis by blast
qed

section \<open>The producer schedule\<close>

lemma policy_slot_conditions:
  assumes "get_active_proposer_policy_for_block_at b t = Inr slot"
  shows "policy_in_slot b slot = bhs_active_proposer_policy b \<or>
    \<not> in_same_round t (bhs_timestamp b) \<and>
    (\<exists>lf. last_final_block_timestamp (bhs_core b) = Inr lf \<and> proposal_time (policy_in_slot b slot) \<le> lf) \<and>
    (bhs_latest_proposed_proposer_policy b = Some (policy_in_slot b slot) \<or>
     bhs_latest_pending_proposer_policy b = Some (policy_in_slot b slot))"
  using assms
  by (auto simp: get_active_proposer_policy_for_block_at_def policy_in_slot_def rbind_Inr_iff ensure_Inr_iff
      split: if_splits option.splits)

text \<open>
  C34: Only scheduled producers extend the chain, and schedules change only between rounds.  A header
  that is accepted names the producer that the resulting state schedules at its own timestamp.
  The proposer policy of that state is its parent's active one, or, when the block starts a new round, one the parent
  had proposed or pending whose proposal the parent's core has final.
\<close>

theorem scheduled_producer_accepted:
  assumes "next_from_header sha g1_ok validator b h = Inr b'"
  shows "bhs_header b' = h \<and> bhs_timestamp b < bh_timestamp h \<and>
    (\<exists>p. bhs_get_scheduled_producer b' (bh_timestamp h) = Inr p \<and> pa_producer_name p = bh_producer h) \<and>
    (bhs_active_proposer_policy b' = bhs_active_proposer_policy b \<or>
     \<not> in_same_round (bh_timestamp h) (bhs_timestamp b) \<and>
     (\<exists>lf. last_final_block_timestamp (bhs_core b) = Inr lf \<and> proposal_time (bhs_active_proposer_policy b') \<le> lf) \<and>
     (bhs_latest_proposed_proposer_policy b = Some (bhs_active_proposer_policy b') \<or>
      bhs_latest_pending_proposer_policy b = Some (bhs_active_proposer_policy b')))"
proof -
  from assms obtain producer exts fs fe where pr: "get_producer_for_block_at b (bh_timestamp h) = Inr producer"
    and name: "bh_producer h = pa_producer_name producer" and fin: "finish_next sha b (fresh_state b h exts) fs fe = Inr b'"
    by (rule next_from_headerD)
  from fin obtain slot where f: "bhs_header b' = h" "bhs_timestamp b < bh_timestamp h"
    "get_active_proposer_policy_for_block_at b (bh_timestamp h) = Inr slot" "bhs_active_proposer_policy b' = policy_in_slot b slot"
    by (rule finish_nextD)
  from pr f(3,4) have "bhs_get_scheduled_producer b' (bh_timestamp h) = Inr producer"
    by (simp add: get_producer_for_block_at_def bhs_get_scheduled_producer_def)
  with f name policy_slot_conditions [OF f(3)] show ?thesis by auto
qed

lemma sample_received:
  "case next_from_input sample_sha sample_genesis sample_proposal of Inl _ \<Rightarrow> False | Inr b \<Rightarrow>
     (case next_from_header sample_sha (\<lambda>_. True) (\<lambda>_ _ _. Inr ()) sample_genesis (bhs_header b) of Inl _ \<Rightarrow> False | Inr _ \<Rightarrow> True)"
  by code_simp

theorem scheduled_producer_accepted_witness:
  "\<exists>h b'. next_from_header sample_sha (\<lambda>_. True) (\<lambda>_ _ _. Inr ()) sample_genesis h = Inr b' \<and>
     (\<exists>p. bhs_get_scheduled_producer b' (bh_timestamp h) = Inr p \<and> pa_producer_name p = bh_producer h)"
proof -
  obtain h b' where "next_from_header sample_sha (\<lambda>_. True) (\<lambda>_ _ _. Inr ()) sample_genesis h = Inr b'"
    using sample_received by (auto simp: case_evaluated)
  with scheduled_producer_accepted [OF this] show ?thesis by blast
qed

section \<open>The finality digest\<close>

text \<open>The byte strings hashed on the way to the finality digest, the outermost first.\<close>

definition finality_inputs :: "(byte list \<Rightarrow> sha256) \<Rightarrow> block_header_state \<Rightarrow> byte list list res" where
  "finality_inputs sha b =
     rbind (rbind (level_3_commitments sha b) pack_level_3) (\<lambda>i3.
     rbind (rbind (level_2_commitments sha b) pack_level_2) (\<lambda>i2.
     rbind (rbind (finality_digest_data sha b) pack_finality_digest_data) (\<lambda>i1. Inr [i1, i2, i3])))"

interpretation l3: codec pack_level_3
  "unpack_pair unpack_sha256 (unpack_pair unpack_u32 (unpack_pair unpack_sha256 (unpack_pair unpack_u32 (unpack_pair unpack_u32 unpack_sha256))))" "\<lambda>_. True"
  unfolding pack_level_3_def
  by (rule codec_weaken [OF codec_pair [OF sha256_c.codec_axioms codec_pair [OF u32.codec_axioms codec_pair [OF sha256_c.codec_axioms
      codec_pair [OF u32.codec_axioms codec_pair [OF u32.codec_axioms sha256_c.codec_axioms]]]]]]) simp

interpretation l2: codec pack_level_2 "unpack_pair unpack_sha256 (unpack_pair unpack_u32 unpack_sha256)" "\<lambda>_. True"
  unfolding pack_level_2_def
  by (rule codec_weaken [OF codec_pair [OF sha256_c.codec_axioms codec_pair [OF u32.codec_axioms sha256_c.codec_axioms]]]) simp

interpretation fdd: codec pack_finality_digest_data
  "unpack_pair unpack_u32 (unpack_pair unpack_u32 (unpack_pair unpack_u32 (unpack_pair unpack_u32 (unpack_pair unpack_sha256 unpack_sha256))))" "\<lambda>_. True"
  unfolding pack_finality_digest_data_def
  by (rule codec_weaken [OF codec_pair [OF u32.codec_axioms codec_pair [OF u32.codec_axioms codec_pair [OF u32.codec_axioms
      codec_pair [OF u32.codec_axioms codec_pair [OF sha256_c.codec_axioms sha256_c.codec_axioms]]]]]]) simp

lemma finality_digest_levels:
  assumes "compute_finality_digest sha b = Inr d"
  obtains t3 i3 t2 i2 t1 i1 where "level_3_commitments sha b = Inr t3" "pack_level_3 t3 = Inr i3"
    "level_2_commitments sha b = Inr t2" "pack_level_2 t2 = Inr i2" "finality_digest_data sha b = Inr t1"
    "pack_finality_digest_data t1 = Inr i1" "d = sha i1" "finality_inputs sha b = Inr [i1, i2, i3]"
    "t2 = (bhs_last_pending_finalizer_policy_digest b, bhs_last_pending_finalizer_policy_start_timestamp b, sha i3)"
    "t1 = (light_header_protocol_version_major, light_header_protocol_version_minor,
       fp_generation (bhs_active_finalizer_policy b), fp_generation (get_last_pending_finalizer_policy b), bhs_finality_mroot b, sha i2)"
proof -
  from assms obtain t1 i1 where t1: "finality_digest_data sha b = Inr t1" "pack_finality_digest_data t1 = Inr i1" "d = sha i1"
    by (auto simp: compute_finality_digest_def hash_packed_def rbind_Inr_iff)
  from t1(1) obtain t2 i2 where t2: "level_2_commitments sha b = Inr t2" "pack_level_2 t2 = Inr i2"
    "t1 = (light_header_protocol_version_major, light_header_protocol_version_minor,
       fp_generation (bhs_active_finalizer_policy b), fp_generation (get_last_pending_finalizer_policy b), bhs_finality_mroot b, sha i2)"
    by (auto simp: finality_digest_data_def hash_packed_def rbind_Inr_iff)
  from t2(1) obtain t3 i3 where t3: "level_3_commitments sha b = Inr t3" "pack_level_3 t3 = Inr i3"
    "t2 = (bhs_last_pending_finalizer_policy_digest b, bhs_last_pending_finalizer_policy_start_timestamp b, sha i3)"
    by (auto simp: level_2_commitments_def hash_packed_def rbind_Inr_iff)
  show thesis by (rule that [OF t3(1,2) t2(1,2) t1 _ t3(3) t2(3)]) (simp add: finality_inputs_def t1(1,2) t2(1,2) t3(1,2))
qed

text \<open>
  C35: The digest that finalizers sign binds the block.  Two states with equal finality digests
  agree on the generations of the active and the last pending policy, the finality root, the digest and the start of
  the last pending policy, and the whole of the innermost commitments: the root of the reversible
  blocks, the claimed block with its digest and timestamp, the block's own timestamp and its base digest.  Otherwise two different
  strings hashed on the way to the two digests have the same hash.
\<close>

theorem finality_digest_binding:
  assumes "compute_finality_digest sha b = Inr d" and "compute_finality_digest sha b' = Inr d"
  shows "\<exists>xs xs'. finality_inputs sha b = Inr xs \<and> finality_inputs sha b' = Inr xs' \<and>
    (clash sha xs xs' \<or>
     (fp_generation (bhs_active_finalizer_policy b) = fp_generation (bhs_active_finalizer_policy b') \<and>
      fp_generation (get_last_pending_finalizer_policy b) = fp_generation (get_last_pending_finalizer_policy b') \<and>
      bhs_finality_mroot b = bhs_finality_mroot b' \<and>
      bhs_last_pending_finalizer_policy_digest b = bhs_last_pending_finalizer_policy_digest b' \<and>
      bhs_last_pending_finalizer_policy_start_timestamp b = bhs_last_pending_finalizer_policy_start_timestamp b' \<and>
      level_3_commitments sha b = level_3_commitments sha b'))"
proof -
  obtain t3 i3 t2 i2 t1 i1 where L: "level_3_commitments sha b = Inr t3" "pack_level_3 t3 = Inr i3"
    "pack_level_2 t2 = Inr i2" "pack_finality_digest_data t1 = Inr i1" "d = sha i1" "finality_inputs sha b = Inr [i1, i2, i3]"
    and t2: "t2 = (bhs_last_pending_finalizer_policy_digest b, bhs_last_pending_finalizer_policy_start_timestamp b, sha i3)"
    and t1: "t1 = (light_header_protocol_version_major, light_header_protocol_version_minor,
       fp_generation (bhs_active_finalizer_policy b), fp_generation (get_last_pending_finalizer_policy b), bhs_finality_mroot b, sha i2)"
    using finality_digest_levels [OF assms(1)] .
  obtain u3 j3 u2 j2 u1 j1 where M: "level_3_commitments sha b' = Inr u3" "pack_level_3 u3 = Inr j3"
    "pack_level_2 u2 = Inr j2" "pack_finality_digest_data u1 = Inr j1" "d = sha j1" "finality_inputs sha b' = Inr [j1, j2, j3]"
    and u2: "u2 = (bhs_last_pending_finalizer_policy_digest b', bhs_last_pending_finalizer_policy_start_timestamp b', sha j3)"
    and u1: "u1 = (light_header_protocol_version_major, light_header_protocol_version_minor,
       fp_generation (bhs_active_finalizer_policy b'), fp_generation (get_last_pending_finalizer_policy b'), bhs_finality_mroot b', sha j2)"
    using finality_digest_levels [OF assms(2)] .
  show ?thesis
  proof (cases "clash sha [i1, i2, i3] [j1, j2, j3]")
    case True
    with L(6) M(6) show ?thesis by blast
  next
    case False
    then have nc: "sha i1 = sha j1 \<longrightarrow> i1 = j1" "sha i2 = sha j2 \<longrightarrow> i2 = j2" "sha i3 = sha j3 \<longrightarrow> i3 = j3"
      by (auto simp: clash_def)
    from nc(1) L(5) M(5) have "i1 = j1" by simp
    with M(4) have 1: "t1 = u1" by (intro fdd.pack_inject [OF TrueI TrueI L(4)]) simp
    then have eq1: "sha i2 = sha j2" "fp_generation (bhs_active_finalizer_policy b) = fp_generation (bhs_active_finalizer_policy b')"
      "fp_generation (get_last_pending_finalizer_policy b) = fp_generation (get_last_pending_finalizer_policy b')"
      "bhs_finality_mroot b = bhs_finality_mroot b'"
      unfolding t1 u1 prod.inject by blast+
    from nc(2) eq1(1) have "i2 = j2" by blast
    with M(3) have "t2 = u2" by (intro l2.pack_inject [OF TrueI TrueI L(3)]) simp
    then have eq2: "sha i3 = sha j3" "bhs_last_pending_finalizer_policy_digest b = bhs_last_pending_finalizer_policy_digest b'"
      "bhs_last_pending_finalizer_policy_start_timestamp b = bhs_last_pending_finalizer_policy_start_timestamp b'"
      unfolding t2 u2 prod.inject by blast+
    from nc(3) eq2(1) have "i3 = j3" by blast
    with M(2) have "t3 = u3" by (intro l3.pack_inject [OF TrueI TrueI L(2)]) simp
    with L(1) M(1) have "level_3_commitments sha b = level_3_commitments sha b'" by simp
    with eq1 eq2 L(6) M(6) show ?thesis by blast
  qed
qed

lemma sample_digest: "case compute_finality_digest sample_sha sample_genesis of Inl _ \<Rightarrow> False | Inr _ \<Rightarrow> True"
  by code_simp

theorem finality_digest_binding_witness:
  "\<exists>xs xs'. finality_inputs sample_sha sample_genesis = Inr xs \<and> finality_inputs sample_sha sample_genesis = Inr xs' \<and>
     (clash sample_sha xs xs' \<or> level_3_commitments sample_sha sample_genesis = level_3_commitments sample_sha sample_genesis)"
proof -
  obtain d where "compute_finality_digest sample_sha sample_genesis = Inr d"
    using sample_digest by (auto simp: case_evaluated)
  from finality_digest_binding [OF this this] show ?thesis by blast
qed

end
