(* ===== verification/Signed_Block.thy ===== *)
theory Signed_Block
  imports Block_Header Qc
begin

text \<open>
  Signed blocks (\<open>block.hpp\<close>, \<open>block.cpp\<close>): signatures, quorum certificates and their encoding, and the
  two extensions a block can carry.  Of a transaction only the digest of its receipt is kept.  \<open>g2_ok\<close> is the point check of the BLS library for
  signatures.  The extraction of extensions is the loop of the header extensions over another set
  of extension types.
\<close>

section \<open>Signatures\<close>

text \<open>\<open>fc::crypto::signature\<close>: one alternative per curve.\<close>

datatype signature_type =
    SIG_K1 "byte list"
  | SIG_R1 "byte list"
  | SIG_WA "byte list" "byte list" string
  | SIG_EM "byte list"
  | SIG_ED "byte list"

definition pack_wa_signature :: "byte list \<times> byte list \<times> string \<Rightarrow> byte list res" where
  "pack_wa_signature = pack_pair (pack_bytes 65) (pack_pair (pack_vector pack_u8) pack_string)"

definition unpack_wa_signature :: "byte list \<Rightarrow> ((byte list \<times> byte list \<times> string) \<times> byte list) res" where
  "unpack_wa_signature = unpack_pair (unpack_bytes 65) (unpack_pair (unpack_vector unpack_u8) unpack_string)"

fun pack_signature :: "signature_type \<Rightarrow> byte list res" where
  "pack_signature (SIG_K1 d) = rbind (pack_varint 0) (\<lambda>n. rbind (pack_bytes 65 d) (\<lambda>b. Inr (n @ b)))"
| "pack_signature (SIG_R1 d) = rbind (pack_varint 1) (\<lambda>n. rbind (pack_bytes 65 d) (\<lambda>b. Inr (n @ b)))"
| "pack_signature (SIG_WA d a j) = rbind (pack_varint 2) (\<lambda>n. rbind (pack_wa_signature (d, a, j)) (\<lambda>b. Inr (n @ b)))"
| "pack_signature (SIG_EM d) = rbind (pack_varint 3) (\<lambda>n. rbind (pack_bytes 65 d) (\<lambda>b. Inr (n @ b)))"
| "pack_signature (SIG_ED d) = rbind (pack_varint 4) (\<lambda>n. rbind (pack_bytes 64 d) (\<lambda>b. Inr (n @ b)))"

definition unpack_signature :: "byte list \<Rightarrow> (signature_type \<times> byte list) res" where
  "unpack_signature s = rbind (unpack_varint s) (\<lambda>(w, s1).
     if w = 0 then unpack_map (\<lambda>d. Inr (SIG_K1 d)) (unpack_bytes 65) s1
     else if w = 1 then unpack_map (\<lambda>d. Inr (SIG_R1 d)) (unpack_bytes 65) s1
     else if w = 2 then unpack_map (\<lambda>(d, a, j). Inr (SIG_WA d a j)) unpack_wa_signature s1
     else if w = 3 then unpack_map (\<lambda>d. Inr (SIG_EM d)) (unpack_bytes 65) s1
     else if w = 4 then unpack_map (\<lambda>d. Inr (SIG_ED d)) (unpack_bytes 64) s1
     else Inl Fc_assert_exception)"

fun signature_ok :: "signature_type \<Rightarrow> bool" where
  "signature_ok (SIG_K1 d) \<longleftrightarrow> length d = 65"
| "signature_ok (SIG_R1 d) \<longleftrightarrow> length d = 65"
| "signature_ok (SIG_WA d a j) \<longleftrightarrow> length d = 65"
| "signature_ok (SIG_EM d) \<longleftrightarrow> length d = 65"
| "signature_ok (SIG_ED d) \<longleftrightarrow> length d = 64"

lemma wa_signature_unpack:
  assumes "length d = 65" and "pack_wa_signature (d, a, j) = Inr b"
  shows "unpack_wa_signature (b @ rest) = Inr ((d, a, j), rest)"
proof -
  have "codec pack_wa_signature unpack_wa_signature (\<lambda>k. length (fst k) = 65)"
    unfolding pack_wa_signature_def unpack_wa_signature_def
    by (rule codec_weaken [OF codec_pair [OF bytes_c.codec_axioms codec_pair [OF codec_vector [OF u8.codec_axioms] str.codec_axioms]]])
      (simp add: list_all_iff)
  from codec.unpack_pack [OF this _ assms(2)] assms(1) show ?thesis by simp
qed

interpretation sig: codec pack_signature unpack_signature signature_ok
proof unfold_locales
  fix x bs rest assume "signature_ok x" and "pack_signature x = Inr bs"
  then show "unpack_signature (bs @ rest) = Inr (x, rest)"
    by (cases x) (auto dest!: tagged_value [where rest = rest] simp: unpack_signature_def unpack_map_def
        bytes_c.unpack_pack wa_signature_unpack)
qed

section \<open>Quorum certificates\<close>

definition pack_bls_signature :: "bls_signature \<Rightarrow> byte list res" where
  "pack_bls_signature k = rbind (pack_varint 192) (\<lambda>n. Inr (n @ k))"

definition unpack_bls_signature :: "(byte list \<Rightarrow> bool) \<Rightarrow> byte list \<Rightarrow> (bls_signature \<times> byte list) res" where
  "unpack_bls_signature g2_ok s = rbind (unpack_varint s) (\<lambda>(size, s1).
     ensure (size = 192) Fc_assert_exception (
     rbind (ds_read 192 s1) (\<lambda>(k, s2).
     ensure (g2_ok k) Fc_assert_exception (Inr (k, s2)))))"

definition pack_qc_sig :: "qc_sig_t \<Rightarrow> byte list res" where
  "pack_qc_sig = pack_map (\<lambda>q. (strong_votes q, weak_votes q, qs_sig q))
     (pack_pair (pack_optional pack_bitset) (pack_pair (pack_optional pack_bitset) pack_bls_signature))"

definition unpack_qc_sig :: "(byte list \<Rightarrow> bool) \<Rightarrow> byte list \<Rightarrow> (qc_sig_t \<times> byte list) res" where
  "unpack_qc_sig g2_ok = unpack_map (\<lambda>(s, w, g). Inr \<lparr>strong_votes = s, weak_votes = w, qs_sig = g\<rparr>)
     (unpack_pair (unpack_optional unpack_bitset) (unpack_pair (unpack_optional unpack_bitset) (unpack_bls_signature g2_ok)))"

definition pack_qc :: "qc_t \<Rightarrow> byte list res" where
  "pack_qc = pack_map (\<lambda>q. (qc_block_num q, active_policy_sig q, pending_policy_sig q))
     (pack_pair pack_u32 (pack_pair pack_qc_sig (pack_optional pack_qc_sig)))"

definition unpack_qc :: "(byte list \<Rightarrow> bool) \<Rightarrow> byte list \<Rightarrow> (qc_t \<times> byte list) res" where
  "unpack_qc g2_ok = unpack_map (\<lambda>(n, a, p). Inr \<lparr>qc_block_num = n, active_policy_sig = a, pending_policy_sig = p\<rparr>)
     (unpack_pair unpack_u32 (unpack_pair (unpack_qc_sig g2_ok) (unpack_optional (unpack_qc_sig g2_ok))))"

definition votes_packable :: "bitset \<Rightarrow> bool" where
  "votes_packable b \<longleftrightarrow> bs_wf b \<and> bs_size b < 2 ^ 32"

definition qc_sig_ok :: "(byte list \<Rightarrow> bool) \<Rightarrow> qc_sig_t \<Rightarrow> bool" where
  "qc_sig_ok g2_ok q \<longleftrightarrow> pred_option votes_packable (strong_votes q) \<and> pred_option votes_packable (weak_votes q) \<and>
     length (qs_sig q) = 192 \<and> g2_ok (qs_sig q)"

definition qc_ok :: "(byte list \<Rightarrow> bool) \<Rightarrow> qc_t \<Rightarrow> bool" where
  "qc_ok g2_ok q \<longleftrightarrow> qc_sig_ok g2_ok (active_policy_sig q) \<and> pred_option (qc_sig_ok g2_ok) (pending_policy_sig q)"

lemma codec_bls_signature: "codec pack_bls_signature (unpack_bls_signature g2_ok) (\<lambda>k. length k = 192 \<and> g2_ok k)"
proof unfold_locales
  fix x bs rest assume v: "length x = 192 \<and> g2_ok x" and "pack_bls_signature x = Inr bs"
  then obtain n where n: "pack_varint 192 = Inr n" and bs: "bs = n @ x" by (auto simp: pack_bls_signature_def res_simps)
  from v varint.unpack_pack [OF _ n, of "x @ rest"] show "unpack_bls_signature g2_ok (bs @ rest) = Inr (x, rest)"
    by (simp add: unpack_bls_signature_def bs ds_read_def)
qed

interpretation qc_sig: codec pack_qc_sig "unpack_qc_sig g2_ok" "qc_sig_ok g2_ok" for g2_ok
  unfolding pack_qc_sig_def unpack_qc_sig_def
  by (rule codec_map [OF codec_pair [OF codec_optional [OF bitset_c.codec_axioms] codec_pair [OF codec_optional [OF bitset_c.codec_axioms] codec_bls_signature]]])
    (simp add: qc_sig_ok_def votes_packable_def [abs_def])

interpretation qc: codec pack_qc "unpack_qc g2_ok" "qc_ok g2_ok" for g2_ok
  unfolding pack_qc_def unpack_qc_def
  by (rule codec_map [OF codec_pair [OF u32.codec_axioms codec_pair [OF qc_sig.codec_axioms codec_optional [OF qc_sig.codec_axioms]]]])
    (simp add: qc_ok_def)

section \<open>Block extensions\<close>

definition additional_sigs_eid :: "16 word" where
  "additional_sigs_eid = 2"

definition quorum_certificate_eid :: "16 word" where
  "quorum_certificate_eid = 3"

datatype block_extension =
    Additional_block_signatures "signature_type list"
  | Quorum_certificate qc_t

text \<open>\<open>additional_block_signatures_extension::reflector_init\<close>\<close>

definition additional_signatures_init :: "signature_type list \<Rightarrow> signature_type list res" where
  "additional_signatures_init sigs =
     ensure (0 < length sigs) Ill_formed_additional_block_signatures_extension (
     ensure (distinct sigs) Ill_formed_additional_block_signatures_extension (Inr sigs))"

definition extract_block_extension :: "(byte list \<Rightarrow> bool) \<Rightarrow> 16 word \<Rightarrow> byte list \<Rightarrow> (block_extension \<times> bool) option res" where
  "extract_block_extension g2_ok i data =
     (if i = additional_sigs_eid then
        rbind (unpack_map additional_signatures_init (unpack_vector unpack_signature) data) (\<lambda>(s, _). Inr (Some (Additional_block_signatures s, True)))
      else if i = quorum_certificate_eid then
        rbind (unpack_qc g2_ok data) (\<lambda>(q, _). Inr (Some (Quorum_certificate q, True)))
      else Inr None)"

text \<open>Each transaction of a block is represented by the digest of its receipt.\<close>

record signed_block =
  sb_header :: block_header
  sb_producer_signature :: signature_type
  sb_transactions :: "digest_type list"
  sb_block_extensions :: extensions_type

fun block_extract_loop :: "(byte list \<Rightarrow> bool) \<Rightarrow> bool \<Rightarrow> 16 word \<Rightarrow> extensions_type \<Rightarrow>
    (16 word \<times> block_extension) list \<Rightarrow> (16 word \<times> block_extension) list res" where
  "block_extract_loop g2_ok first lower [] results = Inr results"
| "block_extract_loop g2_ok first lower ((i, data) # es) results =
     ensure (lower \<le> i) Invalid_block_extension (
     rbind (extract_block_extension g2_ok i data) (\<lambda>m.
     case m of
       None \<Rightarrow> Inl Invalid_block_extension
     | Some (ext, enforce_unique) \<Rightarrow>
       ensure (enforce_unique \<longrightarrow> first \<or> lower < i) Invalid_block_header_extension (
       block_extract_loop g2_ok False i es (results @ [(i, ext)]))))"

definition validate_and_extract_extensions :: "(byte list \<Rightarrow> bool) \<Rightarrow> signed_block \<Rightarrow> (16 word \<times> block_extension) list res" where
  "validate_and_extract_extensions g2_ok b = block_extract_loop g2_ok True 0 (sb_block_extensions b) []"

fun block_extract_one :: "(byte list \<Rightarrow> bool) \<Rightarrow> 16 word \<Rightarrow> extensions_type \<Rightarrow> block_extension option res" where
  "block_extract_one g2_ok extension_id [] = Inr None"
| "block_extract_one g2_ok extension_id ((i, data) # es) =
     (if extension_id < i then Inr None
      else if i \<noteq> extension_id then block_extract_one g2_ok extension_id es
      else rbind (extract_block_extension g2_ok i data) (\<lambda>m.
        case m of None \<Rightarrow> Inl Invalid_block_extension | Some (ext, _) \<Rightarrow> Inr (Some ext)))"

text \<open>The default order of the assertion: the identifier first, then the data as signed characters.\<close>

fun chars_less :: "byte list \<Rightarrow> byte list \<Rightarrow> bool" where
  "chars_less _ [] = False"
| "chars_less [] (_ # _) = True"
| "chars_less (a # as) (b # bs) = (sint a < sint b \<or> a = b \<and> chars_less as bs)"

definition extension_less :: "16 word \<times> byte list \<Rightarrow> 16 word \<times> byte list \<Rightarrow> bool" where
  "extension_less x y \<longleftrightarrow> fst x < fst y \<or> fst x = fst y \<and> chars_less (snd x) (snd y)"

definition extensions_sorted :: "extensions_type \<Rightarrow> bool" where
  "extensions_sorted es \<longleftrightarrow> list_all (\<lambda>(x, y). \<not> extension_less y x) (zip es (tl es))"

definition extract_extension :: "(byte list \<Rightarrow> bool) \<Rightarrow> 16 word \<Rightarrow> signed_block \<Rightarrow> block_extension option res" where
  "extract_extension g2_ok extension_id b =
     ensure (extensions_sorted (sb_block_extensions b)) Assert_failed (block_extract_one g2_ok extension_id (sb_block_extensions b))"

definition contains_extension :: "16 word \<Rightarrow> signed_block \<Rightarrow> bool" where
  "contains_extension extension_id b \<longleftrightarrow> list_ex (\<lambda>e. fst e = extension_id) (sb_block_extensions b)"

definition extract_additional_signatures :: "(byte list \<Rightarrow> bool) \<Rightarrow> signed_block \<Rightarrow> signature_type list res" where
  "extract_additional_signatures g2_ok b =
     rbind (validate_and_extract_extensions g2_ok b) (\<lambda>exts.
     case map_of exts additional_sigs_eid of
       Some (Additional_block_signatures s) \<Rightarrow> Inr s
     | _ \<Rightarrow> Inr [])"

definition inject_additional_signatures :: "extensions_type \<Rightarrow> signature_type list \<Rightarrow> extensions_type res" where
  "inject_additional_signatures exts sigs =
     (if sigs = [] then Inr exts
      else rbind (pack_vector pack_signature sigs) (\<lambda>b. Inr (emplace_extension exts additional_sigs_eid b)))"

definition integrate_qc :: "extensions_type \<Rightarrow> qc_t option \<Rightarrow> extensions_type res" where
  "integrate_qc exts qc = (case qc of
      None \<Rightarrow> Inr exts
    | Some q \<Rightarrow> rbind (pack_qc q) (\<lambda>b. Inr (emplace_extension exts quorum_certificate_eid b)))"

text \<open>What the producer adds to the extensions of a new block is what a receiver extracts.\<close>

lemma block_extensions_roundtrip:
  assumes qc: "pred_option (qc_ok g2_ok) q" and sigs: "list_all signature_ok s" "distinct s"
    and "integrate_qc [] q = Inr e1" and "inject_additional_signatures e1 s = Inr e"
  shows "validate_and_extract_extensions g2_ok (b\<lparr>sb_block_extensions := e\<rparr>) =
    Inr ((if s = [] then [] else [(additional_sigs_eid, Additional_block_signatures s)]) @
         (case q of None \<Rightarrow> [] | Some x \<Rightarrow> [(quorum_certificate_eid, Quorum_certificate x)]))"
proof -
  have sig_ext: "extract_block_extension g2_ok additional_sigs_eid p = Inr (Some (Additional_block_signatures s, True))"
    if "pack_vector pack_signature s = Inr p" "s \<noteq> []" for p
    using codec.unpack_pack_all [OF codec_vector [OF sig.codec_axioms] sigs(1) that(1)] sigs(2) that(2)
    by (simp add: extract_block_extension_def unpack_map_def additional_signatures_init_def)
  have qc_ext: "extract_block_extension g2_ok quorum_certificate_eid p = Inr (Some (Quorum_certificate x, True))"
    if "q = Some x" "pack_qc x = Inr p" for x p
    using qc.unpack_pack_all [of g2_ok x p] qc that
    by (simp add: extract_block_extension_def additional_sigs_eid_def quorum_certificate_eid_def)
  have ids: "additional_sigs_eid < quorum_certificate_eid" "0 \<le> additional_sigs_eid" "0 \<le> quorum_certificate_eid"
    by (simp_all add: additional_sigs_eid_def quorum_certificate_eid_def)
  have ne: "\<not> quorum_certificate_eid < additional_sigs_eid" using ids(1) by simp
  show ?thesis
    using assms(4,5) sig_ext qc_ext ids ne
    by (cases q; cases "s = []")
      (auto simp: integrate_qc_def inject_additional_signatures_def rbind_Inr_iff emplace_extension_def
        validate_and_extract_extensions_def less_imp_le)
qed

end
