(* ===== verification/Block_State.thy ===== *)
theory Block_State
  imports Signed_Block Header_Chain Qc_Verify
begin

text \<open>
  The state of a block (\<open>block_state.hpp\<close>, \<open>block_state.cpp\<close>): the header state with the signed block,
  the digests finalizers sign, the aggregation of votes, and the validation tree whose roots later
  blocks commit to.  \<open>recover\<close> is the public key recovery of the signature libraries, \<open>signer\<close> the
  callback of the producer.  Transaction metadata are left out, and a policy that is
  reported with textual keys is the policy.
\<close>

section \<open>Block signatures\<close>

definition recover_keys :: "(signature_type \<Rightarrow> digest_type \<Rightarrow> public_key_type res) \<Rightarrow> block_id_type \<Rightarrow>
    signature_type list \<Rightarrow> public_key_type set \<Rightarrow> public_key_type set res" where
  "recover_keys recover block_id sigs keys =
     fold_res (\<lambda>s ks. rbind (recover s block_id) (\<lambda>k. ensure (k \<notin> ks) Wrong_signing_key (Inr (insert k ks)))) sigs keys"

definition verify_signee :: "(signature_type \<Rightarrow> digest_type \<Rightarrow> public_key_type res) \<Rightarrow> signature_type \<Rightarrow> block_id_type \<Rightarrow>
    signature_type list \<Rightarrow> block_signing_authority \<Rightarrow> unit res" where
  "verify_signee recover producer_signature block_id additional_signatures authority =
     ensure (1 + length additional_signatures \<le> length (bsa_keys authority)) Wrong_signing_key (
     rbind (recover producer_signature block_id) (\<lambda>k.
     rbind (recover_keys recover block_id additional_signatures {k}) (\<lambda>keys.
     let (is_satisfied, relevant_sig_count) = keys_satisfy_and_relevant keys authority in
     ensure (relevant_sig_count = card keys) Wrong_signing_key (
     ensure is_satisfied Wrong_signing_key (Inr ())))))"

definition verify_block_sig :: "(byte list \<Rightarrow> sha256) \<Rightarrow> (byte list \<Rightarrow> bool) \<Rightarrow>
    (signature_type \<Rightarrow> digest_type \<Rightarrow> public_key_type res) \<Rightarrow> block_header_state \<Rightarrow> signed_block \<Rightarrow> bool \<Rightarrow> bool res" where
  "verify_block_sig sha g2_ok recover prev b skip_validate_signee =
     (if skip_validate_signee then Inr True
      else rbind (extract_additional_signatures g2_ok b) (\<lambda>sigs.
        rbind (get_producer_for_block_at prev (bh_timestamp (sb_header b))) (\<lambda>p.
        rbind (calculate_id sha (sb_header b)) (\<lambda>block_id.
        rbind (verify_signee recover (sb_producer_signature b) block_id sigs (pa_authority p)) (\<lambda>_. Inr True)))))"

definition sign :: "(signature_type \<Rightarrow> digest_type \<Rightarrow> public_key_type res) \<Rightarrow> (digest_type \<Rightarrow> signature_type list res) \<Rightarrow>
    block_header \<Rightarrow> digest_type list \<Rightarrow> extensions_type \<Rightarrow> block_id_type \<Rightarrow> block_signing_authority \<Rightarrow> signed_block res" where
  "sign recover signer h trxs exts block_id authority =
     rbind (signer block_id) (\<lambda>sigs.
     ensure (sigs \<noteq> []) No_block_signatures (
     rbind (verify_signee recover (last sigs) block_id (butlast sigs) authority) (\<lambda>_.
     rbind (inject_additional_signatures exts (butlast sigs)) (\<lambda>exts'.
     Inr \<lparr>sb_header = h, sb_producer_signature = last sigs, sb_transactions = trxs, sb_block_extensions = exts'\<rparr>))))"

section \<open>State\<close>

record valid_t =
  validation_tree :: incremental_merkle_tree
  validation_mroots :: "digest_type list"

record block_state =
  bs_bhs :: block_header_state
  bs_block :: "signed_block option"
  bs_strong_digest :: digest_type
  bs_weak_digest :: "byte list"
  bs_aggregating_qc :: aggregating_qc_t
  bs_valid :: "valid_t option"
  bs_validated :: bool
  bs_action_mroot :: digest_type
  bs_base_digest :: "digest_type option"

definition bs_id :: "block_state \<Rightarrow> block_id_type" where
  "bs_id b = bhs_block_id (bs_bhs b)"

definition bs_previous :: "block_state \<Rightarrow> block_id_type" where
  "bs_previous b = bh_previous (bhs_header (bs_bhs b))"

definition bs_block_num :: "block_state \<Rightarrow> block_num_type" where
  "bs_block_num b = bhs_block_num (bs_bhs b)"

definition bs_timestamp :: "block_state \<Rightarrow> block_timestamp_type" where
  "bs_timestamp b = bhs_timestamp (bs_bhs b)"

abbreviation bs_core :: "block_state \<Rightarrow> finality_core" where
  "bs_core b \<equiv> bhs_core (bs_bhs b)"

definition irreversible_blocknum :: "block_state \<Rightarrow> block_num_type res" where
  "irreversible_blocknum b = last_final_block_num (bs_core b)"

definition bs_latest_qc_block_num :: "block_state \<Rightarrow> block_num_type res" where
  "bs_latest_qc_block_num b = rbind (latest_qc_claim (bs_core b)) (\<lambda>c. Inr (claim_block_num c))"

definition bs_latest_qc_block_timestamp :: "block_state \<Rightarrow> block_timestamp_type res" where
  "bs_latest_qc_block_timestamp b = latest_qc_block_timestamp (bs_core b)"

definition set_valid :: "block_state \<Rightarrow> bool \<Rightarrow> block_state" where
  "set_valid b v = b\<lparr>bs_validated := v\<rparr>"

definition bs_make_block_ref :: "block_state \<Rightarrow> block_ref" where
  "bs_make_block_ref b =
     \<lparr>ref_block_id = bs_id b, ref_timestamp = bs_timestamp b, ref_finality_digest = bs_strong_digest b,
      ref_active_policy_generation = fp_generation (bhs_active_finalizer_policy (bs_bhs b)),
      ref_pending_policy_generation = (case bhs_pending_finalizer_policy (bs_bhs b) of Some (_, p) \<Rightarrow> fp_generation p | None \<Rightarrow> 0)\<rparr>"

text \<open>The members that every constructor computes from the header state.\<close>

definition bs_init :: "(byte list \<Rightarrow> sha256) \<Rightarrow> bls_api \<Rightarrow> block_header_state \<Rightarrow> signed_block option \<Rightarrow> valid_t option \<Rightarrow>
    digest_type \<Rightarrow> block_state res" where
  "bs_init sha bls bhs blk v action_mroot =
     rbind (compute_finality_digest sha bhs) (\<lambda>strong_digest.
     rbind (aq_make bls (bhs_active_finalizer_policy bhs) (map_option snd (bhs_pending_finalizer_policy bhs))) (\<lambda>aq.
     Inr \<lparr>bs_bhs = bhs, bs_block = blk, bs_strong_digest = strong_digest, bs_weak_digest = create_weak_digest strong_digest,
          bs_aggregating_qc = aq, bs_valid = v, bs_validated = False, bs_action_mroot = action_mroot, bs_base_digest = None\<rparr>))"

section \<open>Construction\<close>

definition block_state_of_block :: "(byte list \<Rightarrow> sha256) \<Rightarrow> (byte list \<Rightarrow> bool) \<Rightarrow> (byte list \<Rightarrow> bool) \<Rightarrow> bls_api \<Rightarrow>
    (signature_type \<Rightarrow> digest_type \<Rightarrow> public_key_type res) \<Rightarrow>
    (block_timestamp_type \<Rightarrow> digest_type list \<Rightarrow> digest_type list \<Rightarrow> unit res) \<Rightarrow>
    block_header_state \<Rightarrow> signed_block \<Rightarrow> bool \<Rightarrow> block_state res" where
  "block_state_of_block sha g1_ok g2_ok bls recover validator prev b skip_validate_signee =
     rbind (verify_block_sig sha g2_ok recover prev b skip_validate_signee) (\<lambda>_.
     rbind (next_from_header sha g1_ok validator prev (sb_header b)) (\<lambda>bhs.
     bs_init sha bls bhs (Some b) None sha256_zero))"

definition block_state_of_assembled :: "(byte list \<Rightarrow> sha256) \<Rightarrow> bls_api \<Rightarrow>
    (signature_type \<Rightarrow> digest_type \<Rightarrow> public_key_type res) \<Rightarrow> (digest_type \<Rightarrow> signature_type list res) \<Rightarrow>
    block_header_state \<Rightarrow> digest_type list \<Rightarrow> valid_t option \<Rightarrow> qc_t option \<Rightarrow> block_signing_authority \<Rightarrow> digest_type \<Rightarrow> block_state res" where
  "block_state_of_assembled sha bls recover signer bhs trxs v qc authority action_mroot =
     rbind (bs_init sha bls bhs None v action_mroot) (\<lambda>s.
     rbind (integrate_qc [] qc) (\<lambda>exts.
     rbind (sign recover signer (bhs_header bhs) trxs exts (bhs_block_id bhs) authority) (\<lambda>blk.
     Inr (s\<lparr>bs_block := Some blk\<rparr>))))"

definition block_state_of_snapshot :: "(byte list \<Rightarrow> sha256) \<Rightarrow> (byte list \<Rightarrow> bool) \<Rightarrow> bls_api \<Rightarrow> block_header_state \<Rightarrow> valid_t option \<Rightarrow>
    block_state res" where
  "block_state_of_snapshot sha g1_ok bls sbs v =
     rbind (bs_init sha bls sbs None v sha256_zero) (\<lambda>s.
     rbind (validate_and_extract_header_extensions g1_ok (bhs_header sbs)) (\<lambda>exts.
     Inr (s\<lparr>bs_bhs := sbs\<lparr>bhs_header_exts := exts\<rparr>\<rparr>)))"

section \<open>The validation tree\<close>

record finality_leaf_node_t =
  leaf_major_version :: "32 word"
  leaf_minor_version :: "32 word"
  leaf_block_num :: block_num_type
  leaf_timestamp :: block_timestamp_type
  leaf_parent_timestamp :: block_timestamp_type
  leaf_finality_digest :: digest_type
  leaf_action_mroot :: digest_type

definition leaf_digest :: "(byte list \<Rightarrow> sha256) \<Rightarrow> finality_leaf_node_t \<Rightarrow> digest_type res" where
  "leaf_digest sha = hash_packed sha (pack_map
     (\<lambda>l. (leaf_major_version l, leaf_minor_version l, leaf_block_num l, leaf_timestamp l, leaf_parent_timestamp l,
       leaf_finality_digest l, leaf_action_mroot l))
     (pack_pair pack_u32 (pack_pair pack_u32 (pack_pair pack_u32 (pack_pair pack_u32 (pack_pair pack_u32 (pack_pair pack_sha256 pack_sha256)))))))"

definition leaf_node :: "block_num_type \<Rightarrow> block_timestamp_type \<Rightarrow> block_timestamp_type \<Rightarrow> digest_type \<Rightarrow> digest_type \<Rightarrow> finality_leaf_node_t" where
  "leaf_node num ts parent_ts digest action_mroot =
     \<lparr>leaf_major_version = light_header_protocol_version_major, leaf_minor_version = light_header_protocol_version_minor,
      leaf_block_num = num, leaf_timestamp = ts, leaf_parent_timestamp = parent_ts,
      leaf_finality_digest = digest, leaf_action_mroot = action_mroot\<rparr>"

definition new_valid :: "(byte list \<Rightarrow> sha256) \<Rightarrow> block_state \<Rightarrow> block_header_state \<Rightarrow> digest_type \<Rightarrow> digest_type \<Rightarrow> valid_t res" where
  "new_valid sha b next_bhs action_mroot strong_digest =
     (case bs_valid b of
        None \<Rightarrow> Inl Assert_failed
      | Some v \<Rightarrow>
        rbind (last_final_block_num (bhs_core next_bhs)) (\<lambda>next_lib.
        rbind (last_final_block_num (bs_core b)) (\<lambda>lib.
        ensure (lib \<le> next_lib) Assert_failed (
        ensure (\<not> sha256_empty strong_digest) Assert_failed (
        let start = unat (next_lib - lib) in
        ensure (start \<le> length (validation_mroots v)) Assert_failed (
        rbind (leaf_digest sha (leaf_node (bhs_block_num next_bhs) (bhs_timestamp next_bhs) (bs_timestamp b) strong_digest action_mroot)) (\<lambda>d.
        rbind (imt_append sha (validation_tree v) d) (\<lambda>tree.
        rbind (imt_get_root sha tree) (\<lambda>root.
        let next_valid = \<lparr>validation_tree = tree, validation_mroots = drop start (validation_mroots v) @ [root]\<rparr> in
        ensure (length (validation_mroots next_valid) = unat (bhs_block_num next_bhs - next_lib + 1)) Assert_failed (
        Inr next_valid))))))))))"

definition get_validation_mroot :: "block_state \<Rightarrow> block_num_type \<Rightarrow> digest_type res" where
  "get_validation_mroot b target =
     (case bs_valid b of
        None \<Rightarrow> Inr sha256_zero
      | Some v \<Rightarrow>
        ensure (0 < length (validation_mroots v)) Assert_failed (
        rbind (last_final_block_num (bs_core b)) (\<lambda>low.
        ensure (low \<le> target \<and> unat target < unat low + length (validation_mroots v)) Block_validate_exception (
        vec_at (validation_mroots v) (unat (target - low))))))"

definition get_finality_mroot_claim :: "block_state \<Rightarrow> qc_claim_t \<Rightarrow> digest_type res" where
  "get_finality_mroot_claim b qc_claim =
     rbind (next_metadata (bs_core b) qc_claim) (\<lambda>md.
     rbind (is_genesis_block_num (bs_core b) (md_latest_qc_claim_block_num md)) (\<lambda>g.
     if g then Inr sha256_zero else get_validation_mroot b (md_latest_qc_claim_block_num md)))"

section \<open>The transition from the legacy consensus\<close>

text \<open>The members of \<open>block_state_legacy\<close> that the conversion of the genesis block reads.\<close>

record block_state_legacy =
  bsl_id :: block_id_type
  bsl_block_num :: block_num_type
  bsl_header :: block_header
  bsl_activated_protocol_features :: "digest_type list"
  bsl_active_schedule :: producer_authority_schedule
  bsl_header_exts :: header_extension_multimap
  bsl_block :: "signed_block option"
  bsl_validated :: bool
  bsl_action_mroot_savanna :: "digest_type option"

definition genesis_policy :: "(byte list \<Rightarrow> bool) \<Rightarrow> block_header \<Rightarrow> finalizer_policy res" where
  "genesis_policy g1_ok h =
     ensure (contains_header_extension finality_extension_id h) Assert_failed (
     rbind (extract_header_extension g1_ok finality_extension_id h) (\<lambda>e.
     case e of
       Some (Finality fe) \<Rightarrow>
         (case fe_new_finalizer_policy_diff fe of
            None \<Rightarrow> Inl Assert_failed
          | Some d \<Rightarrow> fp_apply_diff \<lparr>fp_generation = 0, fp_threshold = 0, fp_finalizers = []\<rparr> d)
     | _ \<Rightarrow> Inl Assert_failed))"

definition genesis_bhs :: "(byte list \<Rightarrow> sha256) \<Rightarrow> block_state_legacy \<Rightarrow> finalizer_policy \<Rightarrow> block_header_state res" where
  "genesis_bhs sha bsp policy =
     rbind (hash_packed sha pack_finalizer_policy policy) (\<lambda>policy_digest.
     Inr \<lparr>bhs_block_id = bsl_id bsp, bhs_header = bsl_header bsp,
          bhs_activated_protocol_features = bsl_activated_protocol_features bsp,
          bhs_core = create_core_for_genesis_block (bsl_id bsp) (bh_timestamp (bsl_header bsp)),
          bhs_active_finalizer_policy = policy,
          bhs_active_proposer_policy = \<lparr>proposal_time = 0, proposer_schedule = bsl_active_schedule bsp\<rparr>,
          bhs_latest_proposed_proposer_policy = None, bhs_latest_pending_proposer_policy = None,
          bhs_proposed_finalizer_policies = [], bhs_pending_finalizer_policy = None,
          bhs_latest_qc_claim_block_active_finalizer_policy = None, bhs_finalizer_policy_generation = 1,
          bhs_last_pending_finalizer_policy_digest = policy_digest,
          bhs_last_pending_finalizer_policy_start_timestamp = bh_timestamp (bsl_header bsp),
          bhs_header_exts = bsl_header_exts bsp\<rparr>)"

definition create_if_genesis_block :: "(byte list \<Rightarrow> sha256) \<Rightarrow> (byte list \<Rightarrow> bool) \<Rightarrow> bls_api \<Rightarrow> block_state_legacy \<Rightarrow> block_state res" where
  "create_if_genesis_block sha g1_ok bls bsp =
     (case bsl_action_mroot_savanna bsp of
        None \<Rightarrow> Inl Assert_failed
      | Some action_mroot \<Rightarrow>
        rbind (genesis_policy g1_ok (bsl_header bsp)) (\<lambda>policy.
        rbind (genesis_bhs sha bsp policy) (\<lambda>bhs.
        rbind (bs_init sha bls bhs (bsl_block bsp) None action_mroot) (\<lambda>s.
        rbind (leaf_digest sha (leaf_node (bsl_block_num bsp) (bh_timestamp (bsl_header bsp)) 0 (bs_strong_digest s) action_mroot)) (\<lambda>d.
        rbind (imt_append sha imt_default d) (\<lambda>tree.
        rbind (imt_get_root sha tree) (\<lambda>root.
        Inr (s\<lparr>bs_valid := Some \<lparr>validation_tree = tree, validation_mroots = [root]\<rparr>, bs_validated := bsl_validated bsp\<rparr>))))))))"

definition create_transition_block :: "(byte list \<Rightarrow> sha256) \<Rightarrow> (byte list \<Rightarrow> bool) \<Rightarrow> (byte list \<Rightarrow> bool) \<Rightarrow> bls_api \<Rightarrow>
    (signature_type \<Rightarrow> digest_type \<Rightarrow> public_key_type res) \<Rightarrow>
    (block_timestamp_type \<Rightarrow> digest_type list \<Rightarrow> digest_type list \<Rightarrow> unit res) \<Rightarrow>
    block_state \<Rightarrow> signed_block \<Rightarrow> bool \<Rightarrow> digest_type option \<Rightarrow> block_state res" where
  "create_transition_block sha g1_ok g2_ok bls recover validator prev b skip_validate_signee action_mroot_savanna =
     rbind (block_state_of_block sha g1_ok g2_ok bls recover validator (bs_bhs prev) b skip_validate_signee) (\<lambda>s.
     let action_mroot = (case action_mroot_savanna of Some d \<Rightarrow> d | None \<Rightarrow> sha256_zero);
         r = s\<lparr>bs_action_mroot := action_mroot\<rparr> in
     if \<not> sha256_empty action_mroot
     then rbind (new_valid sha prev (bs_bhs r) action_mroot (bs_strong_digest r)) (\<lambda>v. Inr (r\<lparr>bs_valid := Some v\<rparr>))
     else Inr r)"

section \<open>Votes and certificates\<close>

definition bs_aggregate_vote :: "bls_api \<Rightarrow> block_state \<Rightarrow> vote_message \<Rightarrow> (aggregate_vote_result_t \<times> block_state) res" where
  "bs_aggregate_vote bls b vote =
     (let finalizer_digest = (if vm_strong vote then sha256_data (bs_strong_digest b) else bs_weak_digest b) in
      rbind (aggregate_vote bls (bs_aggregating_qc b) vote finalizer_digest) (\<lambda>(r, aq). Inr (r, b\<lparr>bs_aggregating_qc := aq\<rparr>)))"

definition bs_has_voted :: "block_state \<Rightarrow> bls_public_key \<Rightarrow> vote_status_t res" where
  "bs_has_voted b key = aq_has_voted (bs_aggregating_qc b) key"

definition bs_get_best_qc :: "bls_api \<Rightarrow> block_state \<Rightarrow> qc_t option res" where
  "bs_get_best_qc bls b = aq_get_best_qc bls (bs_aggregating_qc b) (bs_block_num b)"

definition bs_received_qc_is_strong :: "block_state \<Rightarrow> bool" where
  "bs_received_qc_is_strong b = received_qc_is_strong (bs_aggregating_qc b)"

definition bs_set_received_qc :: "block_state \<Rightarrow> qc_t \<Rightarrow> (bool \<times> block_state) res" where
  "bs_set_received_qc b qc = rbind (set_received_qc (bs_aggregating_qc b) qc) (\<lambda>(better, aq). Inr (better, b\<lparr>bs_aggregating_qc := aq\<rparr>))"

definition bs_get_finalizer_policies :: "block_state \<Rightarrow> block_num_type \<Rightarrow> finalizer_policies_t res" where
  "bs_get_finalizer_policies b num =
     (if num = bs_block_num b then get_finalizer_policies (bs_bhs b) (bs_make_block_ref b)
      else rbind (get_block_reference (bs_core b) num) (get_finalizer_policies (bs_bhs b)))"

definition verify_qc_signatures :: "bls_api \<Rightarrow> block_state \<Rightarrow> qc_t \<Rightarrow> unit res" where
  "verify_qc_signatures bls b qc = rbind (bs_get_finalizer_policies b (qc_block_num qc)) (qc_verify_signatures bls qc)"

definition verify_qc_basic :: "block_state \<Rightarrow> qc_t \<Rightarrow> unit res" where
  "verify_qc_basic b qc = rbind (bs_get_finalizer_policies b (qc_block_num qc)) (verify_basic qc)"

definition verify_qc :: "bls_api \<Rightarrow> block_state \<Rightarrow> qc_t \<Rightarrow> unit res" where
  "verify_qc bls b qc = rbind (bs_get_finalizer_policies b (qc_block_num qc)) (\<lambda>policies.
     rbind (verify_basic qc policies) (\<lambda>_. qc_verify_signatures bls qc policies))"

definition extract_qc_claim :: "block_state \<Rightarrow> qc_claim_t" where
  "extract_qc_claim b =
     (case ext_find finality_extension_id (bhs_header_exts (bs_bhs b)) of
        Some (Finality fe) \<Rightarrow> fe_qc_claim fe
      | _ \<Rightarrow> Qc_claim 0 False)"

section \<open>The data reported about finality\<close>

record finality_data_t =
  fd_major_version :: "32 word"
  fd_minor_version :: "32 word"
  fd_active_finalizer_policy_generation :: "32 word"
  fd_action_mroot :: digest_type
  fd_reversible_blocks_mroot :: digest_type
  fd_latest_qc_claim_block_num :: block_num_type
  fd_latest_qc_claim_finality_digest :: digest_type
  fd_latest_qc_claim_timestamp :: block_timestamp_type
  fd_base_digest :: digest_type
  fd_pending_finalizer_policy :: "finalizer_policy option"
  fd_last_pending_finalizer_policy_generation :: "32 word"

definition reported_policy :: "block_state \<Rightarrow> block_num_type \<Rightarrow> (finalizer_policy option \<times> block_ref) res" where
  "reported_policy b claim_block =
     rbind (is_savanna_genesis_block (bs_bhs b)) (\<lambda>g.
     if g then Inr (Some (bhs_active_finalizer_policy (bs_bhs b)), block_ref_default)
     else rbind (get_block_reference (bs_core b) claim_block) (\<lambda>r.
       Inr (case bhs_pending_finalizer_policy (bs_bhs b) of
              Some (num, p) \<Rightarrow> if num = bs_block_num b then Some p else None
            | None \<Rightarrow> None, r)))"

definition get_finality_data :: "(byte list \<Rightarrow> sha256) \<Rightarrow> block_state \<Rightarrow> (finality_data_t \<times> block_state) res" where
  "get_finality_data sha b =
     rbind (case bs_base_digest b of Some d \<Rightarrow> Inr d | None \<Rightarrow> compute_base_digest sha (bs_bhs b)) (\<lambda>base.
     rbind (latest_qc_claim (bs_core b)) (\<lambda>claim.
     rbind (reported_policy b (claim_block_num claim)) (\<lambda>(pending_fin_pol, blk_ref).
     rbind (get_reversible_blocks_mroot sha (bs_core b)) (\<lambda>mroot.
     Inr (\<lparr>fd_major_version = light_header_protocol_version_major, fd_minor_version = light_header_protocol_version_minor,
           fd_active_finalizer_policy_generation = fp_generation (bhs_active_finalizer_policy (bs_bhs b)),
           fd_action_mroot = bs_action_mroot b, fd_reversible_blocks_mroot = mroot,
           fd_latest_qc_claim_block_num = claim_block_num claim,
           fd_latest_qc_claim_finality_digest = ref_finality_digest blk_ref,
           fd_latest_qc_claim_timestamp = ref_timestamp blk_ref,
           fd_base_digest = base, fd_pending_finalizer_policy = pending_fin_pol,
           fd_last_pending_finalizer_policy_generation = fp_generation (get_last_pending_finalizer_policy (bs_bhs b))\<rparr>,
          b\<lparr>bs_base_digest := Some base\<rparr>)))))"

end
