(* ===== verification/Fork_Database.thy ===== *)
theory Fork_Database
  imports Block_State
begin

text \<open>
  The fork database (\<open>fork_database.hpp\<close>, \<open>fork_database.cpp\<close>) of Savanna blocks: the root, which is
  the last irreversible block, and an index of the blocks on top of it.  The three orders of the
  multi-index container are the lookup \<open>index_find\<close> by identifier, the children of a block in the
  order of insertion, and the order of the best branch, \<open>best_less\<close>.

  Many operations follow a branch from a block towards the root.  \<open>walk\<close> is this loop: it ends when
  the next block is not in the index, or when its body returns a result.  A loop that does not end
  has the value \<open>None\<close>.  Every public method holds the mutex and is one step of the model.
\<close>

section \<open>State\<close>

record fork_db =
  fd_root :: "block_state option"
  fd_pending_savanna_lib_id :: block_id_type
  fd_index :: "block_state list"

datatype fork_db_add_t = Add_failure | Add_duplicate | Added | Appended_to_head | Fork_switch

definition fdb_default :: fork_db where
  "fdb_default = \<lparr>fd_root = None, fd_pending_savanna_lib_id = sha256_zero, fd_index = []\<rparr>"

definition index_find :: "block_state list \<Rightarrow> block_id_type \<Rightarrow> block_state option" where
  "index_find idx h = find (\<lambda>b. bs_id b = h) idx"

definition children :: "block_state list \<Rightarrow> block_id_type \<Rightarrow> block_state list" where
  "children idx h = filter (\<lambda>b. bs_previous b = h) idx"

definition index_erase :: "block_id_type \<Rightarrow> block_state list \<Rightarrow> block_state list" where
  "index_erase h idx = filter (\<lambda>b. bs_id b \<noteq> h) idx"

text \<open>The key of the best branch; \<open>add\<close> fails where its first component is not defined.\<close>

definition qc_time :: "block_state \<Rightarrow> block_timestamp_type" where
  "qc_time b = (case bs_latest_qc_block_timestamp b of Inr t \<Rightarrow> t | Inl _ \<Rightarrow> 0)"

definition best_less :: "block_state \<Rightarrow> block_state \<Rightarrow> bool" where
  "best_less a b \<longleftrightarrow> qc_time a < qc_time b \<or> qc_time a = qc_time b \<and>
     (bs_timestamp a < bs_timestamp b \<or> bs_timestamp a = bs_timestamp b \<and> bs_id a < bs_id b)"

fun best_of :: "block_state \<Rightarrow> block_state list \<Rightarrow> block_state" where
  "best_of b [] = b"
| "best_of b (x # xs) = best_of (if best_less b x then x else b) xs"

section \<open>Branches\<close>

partial_function (option) walk :: "(block_state \<Rightarrow> 's \<Rightarrow> 's + 'r) \<Rightarrow> block_state list \<Rightarrow> block_id_type \<Rightarrow> 's \<Rightarrow> ('s + 'r) option" where
  [code]: "walk body idx h s = (case index_find idx h of
      None \<Rightarrow> Some (Inl s)
    | Some b \<Rightarrow> (case body b s of
        Inr r \<Rightarrow> Some (Inr r)
      | Inl s' \<Rightarrow> walk body idx (bs_previous b) s'))"

definition get_block_impl :: "fork_db \<Rightarrow> block_id_type \<Rightarrow> bool \<Rightarrow> block_state option" where
  "get_block_impl db h include_root =
     (case fd_root db of
        Some r \<Rightarrow> if include_root \<and> bs_id r = h then Some r else index_find (fd_index db) h
      | None \<Rightarrow> index_find (fd_index db) h)"

definition block_exists_impl :: "fork_db \<Rightarrow> block_id_type \<Rightarrow> bool" where
  "block_exists_impl db h \<longleftrightarrow> index_find (fd_index db) h \<noteq> None"

definition head_impl :: "fork_db \<Rightarrow> bool \<Rightarrow> block_state option" where
  "head_impl db include_root =
     (case fd_index db of
        [] \<Rightarrow> if include_root then fd_root db else None
      | b # bs \<Rightarrow> Some (best_of b bs))"

definition fdb_size :: "fork_db \<Rightarrow> nat" where
  "fdb_size db = length (fd_index db)"

definition fdb_is_valid :: "fork_db \<Rightarrow> bool" where
  "fdb_is_valid db \<longleftrightarrow> fd_root db \<noteq> None"

definition fetch_branch_impl :: "fork_db \<Rightarrow> block_id_type \<Rightarrow> block_num_type \<Rightarrow> block_state list option" where
  "fetch_branch_impl db h trim_after_block_num =
     (case walk (\<lambda>b acc. Inl (if bs_block_num b \<le> trim_after_block_num then acc @ [b] else acc) :: _ + unit) (fd_index db) h [] of
        Some (Inl acc) \<Rightarrow> Some acc
      | _ \<Rightarrow> None)"

definition fetch_branch_to_impl :: "fork_db \<Rightarrow> block_id_type \<Rightarrow> block_id_type \<Rightarrow> block_state list option" where
  "fetch_branch_to_impl db h b =
     (case walk (\<lambda>i (found_branch, acc). Inl (let found = found_branch \<or> bs_id i = b in (found, if found then acc @ [i] else acc)) :: _ + unit)
        (fd_index db) h (False, []) of
        Some (Inl (_, acc)) \<Rightarrow> Some acc
      | _ \<Rightarrow> None)"

definition fetch_block_branch_impl :: "fork_db \<Rightarrow> block_id_type \<Rightarrow> block_num_type \<Rightarrow> signed_block option list option" where
  "fetch_block_branch_impl db h trim_after_block_num =
     (case walk (\<lambda>b acc. Inl (if bs_block_num b \<le> trim_after_block_num then acc @ [bs_block b] else acc) :: _ + unit) (fd_index db) h [] of
        Some (Inl acc) \<Rightarrow> Some acc
      | _ \<Rightarrow> None)"

definition fetch_full_branch_impl :: "fork_db \<Rightarrow> block_id_type \<Rightarrow> block_state option list option" where
  "fetch_full_branch_impl db h =
     (case walk (\<lambda>b acc. Inl (acc @ [Some b]) :: _ + unit) (fd_index db) h [] of
        Some (Inl acc) \<Rightarrow> Some (acc @ [fd_root db])
      | _ \<Rightarrow> None)"

definition search_on_branch_impl :: "fork_db \<Rightarrow> block_id_type \<Rightarrow> block_num_type \<Rightarrow> bool \<Rightarrow> block_state option option" where
  "search_on_branch_impl db h block_num include_root =
     (case fd_root db of
        None \<Rightarrow> Some None
      | Some r \<Rightarrow>
        if include_root \<and> bs_block_num r = block_num then Some (Some r)
        else if block_num \<le> bs_block_num r then Some None
        else (case walk (\<lambda>b _. if bs_block_num b = block_num then Inr b else Inl ()) (fd_index db) h () of
                None \<Rightarrow> None
              | Some (Inr b) \<Rightarrow> Some (Some b)
              | Some (Inl _) \<Rightarrow> Some None))"

definition search_on_head_branch_impl :: "fork_db \<Rightarrow> block_num_type \<Rightarrow> bool \<Rightarrow> block_state option option" where
  "search_on_head_branch_impl db block_num include_root =
     (case head_impl db include_root of
        None \<Rightarrow> Some None
      | Some b \<Rightarrow> search_on_branch_impl db (bs_id b) block_num include_root)"

text \<open>\<open>ancestor_block_num+1\<close> is a sum of 32-bit numbers.\<close>

definition is_descendant_of_impl :: "fork_db \<Rightarrow> block_id_type \<Rightarrow> block_id_type \<Rightarrow> bool option" where
  "is_descendant_of_impl db ancestor descendant =
     (let ancestor_block_num = num_from_id ancestor in
      if num_from_id descendant \<le> ancestor_block_num then Some False
      else (case walk (\<lambda>b _. if bs_previous b = ancestor then Inr True
                             else if bs_block_num b \<le> ancestor_block_num + 1 then Inr False else Inl ())
              (fd_index db) descendant () of
              None \<Rightarrow> None
            | Some (Inr r) \<Rightarrow> Some r
            | Some (Inl _) \<Rightarrow> Some False))"

definition is_descendant_of_pending_savanna_lib_impl :: "fork_db \<Rightarrow> block_id_type \<Rightarrow> bool option" where
  "is_descendant_of_pending_savanna_lib_impl db h =
     (if fd_pending_savanna_lib_id db = h then Some True
      else is_descendant_of_impl db (fd_pending_savanna_lib_id db) h)"

definition validated_block_exists_impl :: "fork_db \<Rightarrow> block_id_type \<Rightarrow> block_id_type \<Rightarrow> bool res option" where
  "validated_block_exists_impl db h claimed_id =
     (case walk (\<lambda>b _. if bs_validated b then Inr True else if bs_id b = claimed_id then Inr False else Inl True) (fd_index db) h False of
        None \<Rightarrow> None
      | Some (Inr r) \<Rightarrow> Some (Inr r)
      | Some (Inl id_present) \<Rightarrow>
        (case fd_root db of
           None \<Rightarrow> Some (Inl Assert_failed)
         | Some r \<Rightarrow> Some (ensure (id_present \<longrightarrow> num_from_id claimed_id \<le> num_from_id (bs_id r)) Assert_failed
             (Inr (id_present \<or> h = bs_id r)))))"

section \<open>The common ancestor of two branches\<close>

definition branch_block :: "fork_db \<Rightarrow> block_state \<Rightarrow> block_id_type \<Rightarrow> block_state res" where
  "branch_block db r h =
     (if h = bs_id r then Inr r
      else case index_find (fd_index db) h of None \<Rightarrow> Inl Fork_db_block_not_found | Some b \<Rightarrow> Inr b)"

text \<open>The first two loops: the higher branch is followed down to the height of the other.\<close>

partial_function (option) lower_to :: "fork_db \<Rightarrow> block_state \<Rightarrow> block_num_type \<Rightarrow> block_state \<Rightarrow> block_state list \<Rightarrow>
    (block_state \<times> block_state list) res option" where
  [code]: "lower_to db r num b acc =
     (if num < bs_block_num b then
        (case branch_block db r (bs_previous b) of
           Inl e \<Rightarrow> Some (Inl e)
         | Inr p \<Rightarrow> lower_to db r num p (acc @ [b]))
      else Some (Inr (b, acc)))"

text \<open>The third loop: both branches are followed until they have the same previous block.\<close>

partial_function (option) join_branches :: "fork_db \<Rightarrow> block_state \<Rightarrow> block_state \<Rightarrow> block_state list \<Rightarrow> block_state list \<Rightarrow>
    (block_state list \<times> block_state list) res option" where
  [code]: "join_branches db x y xs ys =
     (if bs_previous x \<noteq> bs_previous y then
        (case index_find (fd_index db) (bs_previous x) of
           None \<Rightarrow> Some (Inl Fork_db_block_not_found)
         | Some x' \<Rightarrow>
           (case index_find (fd_index db) (bs_previous y) of
              None \<Rightarrow> Some (Inl Fork_db_block_not_found)
            | Some y' \<Rightarrow> join_branches db x' y' (xs @ [x]) (ys @ [y])))
      else Some (Inr (xs @ [x], ys @ [y])))"

definition fetch_branch_from_impl :: "fork_db \<Rightarrow> block_id_type \<Rightarrow> block_id_type \<Rightarrow> (block_state list \<times> block_state list) res option" where
  "fetch_branch_from_impl db first second =
     (case fd_root db of
        None \<Rightarrow> Some (Inl Assert_failed)
      | Some r \<Rightarrow>
        (case (branch_block db r first, branch_block db r second) of
           (Inr x, Inr y) \<Rightarrow>
             (case lower_to db r (bs_block_num y) x [] of
                Some (Inr (x', xs)) \<Rightarrow>
                  (case lower_to db r (bs_block_num x') y [] of
                     Some (Inr (y', ys)) \<Rightarrow>
                       if bs_id x' = bs_id y' then Some (Inr (xs, ys))
                       else join_branches db x' y' xs ys
                   | Some (Inl e) \<Rightarrow> Some (Inl e)
                   | None \<Rightarrow> None)
              | Some (Inl e) \<Rightarrow> Some (Inl e)
              | None \<Rightarrow> None)
         | (Inl e, _) \<Rightarrow> Some (Inl e)
         | (_, Inl e) \<Rightarrow> Some (Inl e)))"

section \<open>Updates\<close>

definition reset_root_impl :: "fork_db \<Rightarrow> block_state \<Rightarrow> fork_db" where
  "reset_root_impl db root_bsp =
     \<lparr>fd_root = Some (set_valid root_bsp True), fd_pending_savanna_lib_id = sha256_zero, fd_index = []\<rparr>"

definition set_pending_savanna_lib_id_impl :: "fork_db \<Rightarrow> block_id_type \<Rightarrow> bool \<times> fork_db" where
  "set_pending_savanna_lib_id_impl db h =
     (if num_from_id (fd_pending_savanna_lib_id db) < num_from_id h
      then (True, db\<lparr>fd_pending_savanna_lib_id := h\<rparr>) else (False, db))"

text \<open>The queue of \<open>remove\<close>: the block and all blocks built on it, in breadth-first order.\<close>

partial_function (option) remove_queue :: "block_state list \<Rightarrow> block_id_type list \<Rightarrow> block_id_type list \<Rightarrow> block_id_type list option" where
  [code]: "remove_queue idx done todo =
     (case todo of
        [] \<Rightarrow> Some done
      | h # hs \<Rightarrow> remove_queue idx (done @ [h]) (hs @ map bs_id (children idx h)))"

definition remove_impl :: "fork_db \<Rightarrow> block_id_type \<Rightarrow> fork_db option" where
  "remove_impl db h =
     (case remove_queue (fd_index db) [] [h] of
        None \<Rightarrow> None
      | Some q \<Rightarrow> Some (db\<lparr>fd_index := fold index_erase q (fd_index db)\<rparr>))"

definition remove_num_impl :: "fork_db \<Rightarrow> block_num_type \<Rightarrow> fork_db" where
  "remove_num_impl db block_num = db\<lparr>fd_index := filter (\<lambda>b. \<not> block_num \<le> bs_block_num b) (fd_index db)\<rparr>"

fun remove_all :: "fork_db \<Rightarrow> block_id_type list \<Rightarrow> fork_db option" where
  "remove_all db [] = Some db"
| "remove_all db (h # hs) = (case remove_impl db h of None \<Rightarrow> None | Some db' \<Rightarrow> remove_all db' hs)"

text \<open>The blocks below the new root, down to the present root.\<close>

definition blocks_to_remove :: "fork_db \<Rightarrow> block_state \<Rightarrow> block_state \<Rightarrow> block_id_type list res option" where
  "blocks_to_remove db r new_root =
     (case walk (\<lambda>b acc. Inl (acc @ [bs_previous b]) :: _ + unit) (fd_index db) (bs_id new_root) [] of
        Some (Inl acc) \<Rightarrow> Some (ensure (acc \<noteq> [] \<and> last acc = bs_id r) Fork_database_exception (Inr acc))
      | _ \<Rightarrow> None)"

definition advance_root_impl :: "fork_db \<Rightarrow> block_id_type \<Rightarrow> fork_db res option" where
  "advance_root_impl db h =
     (case fd_root db of
        None \<Rightarrow> Some (Inl Fork_database_exception)
      | Some r \<Rightarrow>
        (case get_block_impl db h False of
           None \<Rightarrow> Some (Inl Fork_database_exception)
         | Some new_root \<Rightarrow>
           if \<not> bs_validated new_root then Some (Inl Fork_database_exception)
           else (case blocks_to_remove db r new_root of
             None \<Rightarrow> None
           | Some (Inl e) \<Rightarrow> Some (Inl e)
           | Some (Inr q) \<Rightarrow>
             (case remove_all (db\<lparr>fd_index := index_erase h (fd_index db)\<rparr>) q of
                None \<Rightarrow> None
              | Some db' \<Rightarrow> Some (Inr (db'\<lparr>fd_root := Some new_root\<rparr>))))))"

text \<open>
  \<open>add\<close>.  A strong claim of the new block moves the pending irreversible block before anything else
  is checked, so the state is returned also with an error.
\<close>

definition note_strong_claim :: "fork_db \<Rightarrow> block_state \<Rightarrow> fork_db res option" where
  "note_strong_claim db n =
     (let qc_claim = extract_qc_claim n in
      if is_strong_qc qc_claim \<and> num_from_id (fd_pending_savanna_lib_id db) < claim_block_num qc_claim then
        (case search_on_branch_impl db (bs_previous n) (claim_block_num qc_claim) False of
           None \<Rightarrow> None
         | Some None \<Rightarrow> Some (Inr db)
         | Some (Some claimed) \<Rightarrow>
           Some (rbind (latest_qc_claim (bs_core claimed)) (\<lambda>c.
             rbind (get_block_reference (bs_core claimed) (claim_block_num c)) (\<lambda>ref.
             Inr (snd (set_pending_savanna_lib_id_impl db (ref_block_id ref)))))))
      else Some (Inr db))"

definition check_features :: "(block_timestamp_type \<Rightarrow> digest_type list \<Rightarrow> digest_type list \<Rightarrow> unit res) \<Rightarrow> block_state \<Rightarrow> block_state \<Rightarrow> unit res" where
  "check_features validator prev_bh n =
     (case ext_find protocol_feature_activation_id (bhs_header_exts (bs_bhs n)) of
        Some (Protocol_feature_activation ds) \<Rightarrow>
          (case validator (bs_timestamp n) (bhs_activated_protocol_features (bs_bhs prev_bh)) ds of
             Inl _ \<Rightarrow> Inl Fork_database_exception
           | Inr _ \<Rightarrow> Inr ())
      | _ \<Rightarrow> Inr ())"

definition index_insert :: "fork_db \<Rightarrow> block_state \<Rightarrow> bool \<Rightarrow> (fork_db_add_t \<times> fork_db) res" where
  "index_insert db n ignore_duplicate =
     (let prev_head = head_impl db True in
      if block_exists_impl db (bs_id n)
      then ensure ignore_duplicate Fork_database_exception (Inr (Add_duplicate, db))
      else rbind (bs_latest_qc_block_timestamp n) (\<lambda>_.
        let db' = db\<lparr>fd_index := fd_index db @ [n]\<rparr>;
            new_head = (map_option bs_id (head_impl db' False) = Some (bs_id n)) in
        Inr (if new_head \<and> Some (bs_previous n) = map_option bs_id prev_head then Appended_to_head
             else if new_head then Fork_switch else Added, db')))"

definition add_impl :: "(block_timestamp_type \<Rightarrow> digest_type list \<Rightarrow> digest_type list \<Rightarrow> unit res) \<Rightarrow> fork_db \<Rightarrow> block_state \<Rightarrow> bool \<Rightarrow> bool \<Rightarrow>
    (fork_db_add_t res \<times> fork_db) option" where
  "add_impl validator db n ignore_duplicate validate =
     (if fd_root db = None then Some (Inl Fork_database_exception, db)
      else (case note_strong_claim db n of
        None \<Rightarrow> None
      | Some (Inl e) \<Rightarrow> Some (Inl e, db)
      | Some (Inr db1) \<Rightarrow>
        Some (case get_block_impl db1 (bs_previous n) True of
          None \<Rightarrow> (Inl Unlinkable_block_exception, db1)
        | Some prev_bh \<Rightarrow>
          (case rbind (if validate then check_features validator prev_bh n else Inr ()) (\<lambda>_. index_insert db1 n ignore_duplicate) of
             Inl e \<Rightarrow> (Inl e, db1)
           | Inr (r, db2) \<Rightarrow> (Inr r, db2)))))"

definition fdb_add :: "fork_db \<Rightarrow> block_state \<Rightarrow> bool \<Rightarrow> (fork_db_add_t res \<times> fork_db) option" where
  "fdb_add db n ignore_duplicate = add_impl (\<lambda>_ _ _. Inr ()) db n ignore_duplicate False"

section \<open>Saving and opening\<close>

text \<open>The content of the file, as values: the blocks are written from the worst to the best.\<close>

record fork_db_file =
  ff_savanna_lib_id :: block_id_type
  ff_root :: block_state
  ff_blocks :: "block_state list"

fun best_insert :: "block_state \<Rightarrow> block_state list \<Rightarrow> block_state list" where
  "best_insert b [] = [b]"
| "best_insert b (x # xs) = (if best_less b x then b # x # xs else x # best_insert b xs)"

definition close_impl :: "fork_db \<Rightarrow> (fork_db_file \<times> fork_db) res" where
  "close_impl db =
     (case fd_root db of
        None \<Rightarrow> Inl Assert_failed
      | Some r \<Rightarrow> Inr (\<lparr>ff_savanna_lib_id = fd_pending_savanna_lib_id db, ff_root = r, ff_blocks = fold best_insert (fd_index db) []\<rparr>,
          db\<lparr>fd_index := []\<rparr>))"

fun add_saved :: "(block_timestamp_type \<Rightarrow> digest_type list \<Rightarrow> digest_type list \<Rightarrow> unit res) \<Rightarrow> fork_db \<Rightarrow> block_state list \<Rightarrow> fork_db res option" where
  "add_saved validator db [] = Some (Inr db)"
| "add_saved validator db (b # bs) =
     (case add_impl validator db b False True of
        None \<Rightarrow> None
      | Some (Inl e, _) \<Rightarrow> Some (Inl e)
      | Some (Inr _, db') \<Rightarrow> add_saved validator db' bs)"

definition open_impl :: "(block_timestamp_type \<Rightarrow> digest_type list \<Rightarrow> digest_type list \<Rightarrow> unit res) \<Rightarrow> fork_db \<Rightarrow> fork_db_file \<Rightarrow> fork_db res option" where
  "open_impl validator db f =
     add_saved validator (snd (set_pending_savanna_lib_id_impl (reset_root_impl db (ff_root f)) (ff_savanna_lib_id f))) (ff_blocks f)"

end
