(* ===== verification/Block_Validation.thy ===== *)
theory Block_Validation
  imports Block_State
begin

text \<open>
  What the checks of a block state establish.  \<open>validated_chain\<close> follows the validation trees along a
  chain from the Savanna genesis block; its invariant is that the tree and the stored roots are those
  of the finality leaves of all blocks so far.  The certificate of a block is verified against the
  policies and the digest of the block it claims, and a block signature against the signing authority
  of the scheduled producer.
\<close>

section \<open>Validation trees along a chain\<close>

inductive validated_chain :: "(byte list \<Rightarrow> sha256) \<Rightarrow> (byte list \<Rightarrow> bool) \<Rightarrow> bls_api \<Rightarrow>
    (block_timestamp_type \<Rightarrow> digest_type list \<Rightarrow> digest_type list \<Rightarrow> unit res) \<Rightarrow>
    digest_type list \<Rightarrow> block_header_state list \<Rightarrow> block_state \<Rightarrow> bool"
  for sha g1_ok bls validator where
  genesis: "create_if_genesis_block sha g1_ok bls bsp = Inr s \<Longrightarrow>
    calculate_id sha (bsl_header bsp) = Inr (bsl_id bsp) \<Longrightarrow> bsl_block_num bsp = header_block_num (bsl_header bsp) \<Longrightarrow>
    fp_generation (bhs_active_finalizer_policy (bs_bhs s)) = 1 \<Longrightarrow>
    leaf_digest sha (leaf_node (bs_block_num s) (bs_timestamp s) 0 (bs_strong_digest s) (bs_action_mroot s)) = Inr d \<Longrightarrow>
    validated_chain sha g1_ok bls validator [d] [] s"
| step: "validated_chain sha g1_ok bls validator ls hs s \<Longrightarrow>
    header_chain sha g1_ok validator (hs @ [bs_bhs s]) (bs_bhs s') \<Longrightarrow>
    unat (bs_block_num s') + 1 < 2 ^ 32 \<Longrightarrow>
    new_valid sha s (bs_bhs s') action_mroot strong_digest = Inr v \<Longrightarrow> bs_valid s' = Some v \<Longrightarrow>
    leaf_digest sha (leaf_node (bs_block_num s') (bs_timestamp s') (bs_timestamp s) strong_digest action_mroot) = Inr d \<Longrightarrow>
    validated_chain sha g1_ok bls validator (ls @ [d]) (hs @ [bs_bhs s]) s'"

text \<open>The roots stored in a state, one per block from the last final one on.\<close>

definition stored_roots :: "(byte list \<Rightarrow> sha256) \<Rightarrow> digest_type list \<Rightarrow> nat \<Rightarrow> digest_type list" where
  "stored_roots sha ls from = map (\<lambda>k. merkle_root sha (take (k + 1) ls)) [from ..< length ls]"

definition valid_inv :: "(byte list \<Rightarrow> sha256) \<Rightarrow> nat \<Rightarrow> digest_type list \<Rightarrow> block_state \<Rightarrow> bool" where
  "valid_inv sha n0 ls s \<longleftrightarrow> length ls = unat (bs_block_num s) - n0 + 1 \<and>
     (\<exists>v. bs_valid s = Some v \<and> imt_repr sha (validation_tree v) ls \<and>
       validation_mroots v = stored_roots sha ls (unat (lib_of (bs_bhs s)) - n0))"

lemma leaf_digest_total: "\<exists>d. leaf_digest sha l = Inr d"
  by (simp add: leaf_digest_def hash_packed_def pack_map_def pack_pair_def pack_u32_def pack_sha256_def split_def)

lemma genesis_block_state:
  assumes "create_if_genesis_block sha g1_ok bls bsp = Inr s"
    and "calculate_id sha (bsl_header bsp) = Inr (bsl_id bsp)" and "bsl_block_num bsp = header_block_num (bsl_header bsp)"
    and "fp_generation (bhs_active_finalizer_policy (bs_bhs s)) = 1"
    and "leaf_digest sha (leaf_node (bs_block_num s) (bs_timestamp s) 0 (bs_strong_digest s) (bs_action_mroot s)) = Inr d"
  shows "genesis_state (bs_bhs s)" and "valid_inv sha (unat (bs_block_num s)) [d] s"
proof -
  from assms(1) obtain m policy bhs s0 d' tree root where
    bhs: "genesis_bhs sha bsp policy = Inr bhs"
    and s0: "bs_init sha bls bhs (bsl_block bsp) None m = Inr s0"
    and d': "leaf_digest sha (leaf_node (bsl_block_num bsp) (bh_timestamp (bsl_header bsp)) 0 (bs_strong_digest s0) m) = Inr d'"
    and tree: "imt_append sha imt_default d' = Inr tree" and root: "imt_get_root sha tree = Inr root"
    and s: "s = s0\<lparr>bs_valid := Some \<lparr>validation_tree = tree, validation_mroots = [root]\<rparr>, bs_validated := bsl_validated bsp\<rparr>"
    unfolding create_if_genesis_block_def rbind_Inr_iff
    by (auto split: option.splits simp: rbind_Inr_iff)
  from s0 have st: "bs_bhs s = bhs" "bs_action_mroot s = m" "bs_strong_digest s = bs_strong_digest s0"
    by (auto simp: bs_init_def rbind_Inr_iff s)
  from bhs have b: "bhs_block_id bhs = bsl_id bsp" "bhs_header bhs = bsl_header bsp"
    "bhs_core bhs = create_core_for_genesis_block (bsl_id bsp) (bh_timestamp (bsl_header bsp))"
    "bhs_proposed_finalizer_policies bhs = []" "bhs_pending_finalizer_policy bhs = None"
    "bhs_latest_qc_claim_block_active_finalizer_policy bhs = None" "bhs_finalizer_policy_generation bhs = 1"
    by (auto simp: genesis_bhs_def rbind_Inr_iff)
  have num: "num_from_id (bsl_id bsp) = bsl_block_num bsp" using calculate_id_num [OF assms(2)] assms(3) by simp
  have bn: "bhs_block_num bhs = bsl_block_num bsp" using assms(3) b(2) by (simp add: bhs_block_num_def header_block_num_def)
  show "genesis_state (bs_bhs s)" using assms(4) num bn by (simp add: genesis_state_def st b)
  have "d = d'" using assms(5) d' bn by (simp add: st bs_block_num_def bs_timestamp_def b)
  moreover have r: "imt_repr sha tree [d']"
    using imt_append_repr [of sha imt_default "[]" d'] tree by (auto simp: imt_repr_def imt_default_def)
  moreover have "root = merkle_root sha [d']" using imt_get_root_repr [OF r] root by simp
  moreover have "lib_of bhs = bsl_block_num bsp" by (simp add: lib_of_def b create_core_for_genesis_block_def Let_def num)
  ultimately show "valid_inv sha (unat (bs_block_num s)) [d] s"
    by (simp add: valid_inv_def stored_roots_def st bs_block_num_def bn) (simp add: s)
qed

lemma stored_roots_snoc:
  assumes "k \<le> j" and "j \<le> length ls"
  shows "drop (j - k) (stored_roots sha ls k) @ [merkle_root sha (ls @ [d])] = stored_roots sha (ls @ [d]) j"
proof -
  have "drop (j - k) (stored_roots sha ls k) = map (\<lambda>i. merkle_root sha (take (i + 1) ls)) [j ..< length ls]"
    using assms by (simp add: stored_roots_def drop_map drop_upt)
  also have "\<dots> = map (\<lambda>i. merkle_root sha (take (i + 1) (ls @ [d]))) [j ..< length ls]" by simp
  finally show ?thesis using assms by (simp add: stored_roots_def)
qed

text \<open>One step: the next tree is computed without failing an assertion, and it is right.\<close>

lemma new_valid_step:
  assumes num: "chain_num sha n0 hs (bs_bhs s)" and step: "chain_step sha (bs_bhs s) fe b'"
    and room: "unat (bhs_block_num b') + 1 < 2 ^ 32" and inv: "valid_inv sha n0 ls s" and sd: "\<not> sha256_empty strong_digest"
    and d: "leaf_digest sha (leaf_node (bhs_block_num b') (bhs_timestamp b') (bs_timestamp s) strong_digest action_mroot) = Inr d"
  obtains v where "new_valid sha s b' action_mroot strong_digest = Inr v" and "imt_repr sha (validation_tree v) (ls @ [d])"
    and "validation_mroots v = stored_roots sha (ls @ [d]) (unat (lib_of b') - n0)"
    and "length (ls @ [d]) = unat (bhs_block_num b') - n0 + 1"
proof -
  let ?b = "bs_bhs s"
  obtain parent where c: "core_win (bhs_core b')" "unat (bhs_block_num b') = unat (bhs_block_num ?b) + 1"
    "claim_num b' \<le> bhs_block_num ?b" "lib_of ?b \<le> lib_of b'" "lib_of b' \<le> claim_num b'"
    using chain_step_core [OF num step] by blast
  from num have w: "core_win (bhs_core ?b)" and n0: "n0 \<le> unat (lib_of ?b)"
    by (simp_all add: chain_num_def)
  have lf: "last_final_block_num (bhs_core ?b) = Inr (lib_of ?b)" "last_final_block_num (bhs_core b') = Inr (lib_of b')"
    using core_winD(1) [OF w] core_winD(1) [OF c(1)] by (simp_all add: core_accessors lib_of_def)
  from inv obtain v where v: "bs_valid s = Some v" "imt_repr sha (validation_tree v) ls"
      "validation_mroots v = stored_roots sha ls (unat (lib_of ?b) - n0)"
    and len: "length ls = unat (bhs_block_num ?b) - n0 + 1"
    by (auto simp: valid_inv_def bs_block_num_def)
  have lib': "unat (lib_of ?b) \<le> unat (lib_of b')" "unat (lib_of b') \<le> unat (bhs_block_num ?b)"
    using c(3-5) by (simp_all add: word_le_nat_alt)
  have "unat (bhs_block_num ?b) < 2 ^ 32" using unsigned_less [of "bhs_block_num ?b"] by simp
  then have big: "length ls + 1 < 2 ^ 64" using len by simp
  then obtain t where t: "imt_append sha (validation_tree v) d = Inr t" "imt_repr sha t (ls @ [d])"
    using imt_append_repr [OF v(2)] by blast
  have root: "imt_get_root sha t = Inr (merkle_root sha (ls @ [d]))"
    using imt_get_root_repr [OF t(2)] big by simp
  have start: "unat (lib_of b' - lib_of ?b) = unat (lib_of b') - unat (lib_of ?b)" using c(4) by (simp add: unat_sub_le)
  have roots: "drop (unat (lib_of b' - lib_of ?b)) (validation_mroots v) @ [merkle_root sha (ls @ [d])] =
      stored_roots sha (ls @ [d]) (unat (lib_of b') - n0)"
    using stored_roots_snoc [of "unat (lib_of ?b) - n0" "unat (lib_of b') - n0" ls sha d] n0 lib' len
    by (simp add: v(3) start)
  have le: "lib_of b' \<le> bhs_block_num b'" using lib' c(2) by (simp add: word_le_nat_alt)
  have "unat (bhs_block_num b' - lib_of b' + 1) = unat (bhs_block_num b') - unat (lib_of b') + 1"
    using unat_Suc_no_wrap [of "bhs_block_num b' - lib_of b'"] room le by (simp add: unat_sub_le)
  then have size: "length (stored_roots sha (ls @ [d]) (unat (lib_of b') - n0)) = unat (bhs_block_num b' - lib_of b' + 1)"
    using len c(2) n0 lib' by (simp add: stored_roots_def) arith
  have fits: "unat (lib_of b' - lib_of ?b) \<le> length (validation_mroots v)"
    using lib' n0 len by (simp add: v(3) start stored_roots_def) arith
  have "new_valid sha s b' action_mroot strong_digest = Inr \<lparr>validation_tree = t,
      validation_mroots = stored_roots sha (ls @ [d]) (unat (lib_of b') - n0)\<rparr>"
    using c(4) sd fits size by (simp add: new_valid_def v(1) lf d t(1) root roots Let_def del: length_append length_drop)
  then show thesis using that t(2) len c(2) n0 lib' by simp
qed

lemma validated_chain_inv:
  assumes "validated_chain sha g1_ok bls validator ls hs s"
  shows "header_chain sha g1_ok validator hs (bs_bhs s) \<and> (\<exists>n0. chain_num sha n0 hs (bs_bhs s) \<and> valid_inv sha n0 ls s)"
  using assms
proof induction
  case (genesis bsp s d)
  note G = genesis_block_state [OF genesis]
  from chain_num_genesis [OF G(1), of sha] G show ?case by (auto intro: header_chain.genesis simp: bs_block_num_def)
next
  case (step ls hs s s' action_mroot strong_digest v d)
  then obtain n0 where num: "chain_num sha n0 hs (bs_bhs s)" and inv: "valid_inv sha n0 ls s" by blast
  from header_chain_snocD [OF step.hyps(2)] obtain fe where st: "chain_step sha (bs_bhs s) fe (bs_bhs s')" by blast
  have "\<not> sha256_empty strong_digest"
    using step.hyps(4) by (auto simp: new_valid_def rbind_Inr_iff ensure_Inr_iff split: option.splits)
  from new_valid_step [OF num st _ inv this, of action_mroot d] step.hyps(3-6) have "valid_inv sha n0 (ls @ [d]) s'"
    unfolding valid_inv_def bs_block_num_def bs_timestamp_def by (metis Inr_inject)
  with chain_num_step [OF num st] step.hyps(2) show ?case by blast
qed

lemma validation_root:
  assumes num: "chain_num sha n0 hs (bs_bhs s)" and inv: "valid_inv sha n0 ls s"
    and "lib_of (bs_bhs s) \<le> n" and "n \<le> bs_block_num s"
  shows "get_validation_mroot s n = Inr (merkle_root sha (take (length ls - unat (bs_block_num s - n)) ls))"
proof -
  from num have w: "core_win (bs_core s)" and n0: "n0 \<le> unat (lib_of (bs_bhs s))" by (simp_all add: chain_num_def)
  from inv obtain v where v: "bs_valid s = Some v" "validation_mroots v = stored_roots sha ls (unat (lib_of (bs_bhs s)) - n0)"
    and len: "length ls = unat (bs_block_num s) - n0 + 1" by (auto simp: valid_inv_def)
  have lf: "last_final_block_num (bs_core s) = Inr (lib_of (bs_bhs s))"
    using core_winD(1) [OF w] by (simp add: core_accessors lib_of_def)
  have le: "unat (lib_of (bs_bhs s)) \<le> unat n" "unat n \<le> unat (bs_block_num s)" using assms(3,4) by (simp_all add: word_le_nat_alt)
  let ?k = "unat n - unat (lib_of (bs_bhs s))"
  have k: "unat (n - lib_of (bs_bhs s)) = ?k" "unat (bs_block_num s - n) = unat (bs_block_num s) - unat n"
    using assms(3,4) by (simp_all add: unat_sub_le)
  have l: "length (validation_mroots v) = unat (bs_block_num s) + 1 - unat (lib_of (bs_bhs s))"
    using n0 le by (simp add: v(2) stored_roots_def len) arith
  have at: "unat (lib_of (bs_bhs s)) - n0 + ?k = unat n - n0" "unat n - n0 < length ls" using n0 le len by simp_all
  then have "?k < length [unat (lib_of (bs_bhs s)) - n0 ..< length ls]" by simp
  moreover from at have "[unat (lib_of (bs_bhs s)) - n0 ..< length ls] ! ?k = unat n - n0" by (subst nth_upt) simp_all
  ultimately have "validation_mroots v ! ?k = merkle_root sha (take (unat n - n0 + 1) ls)"
    by (simp add: v(2) stored_roots_def)
  moreover have "unat n - n0 + 1 = length ls - unat (bs_block_num s - n)" using n0 le len k(2) by simp
  ultimately show ?thesis using le l assms(3) k(1) by (simp add: get_validation_mroot_def v(1) lf)
qed

text \<open>
  C17: The roots that blocks commit to are the roots over the finality leaves.  Along every chain from
  the Savanna genesis block on, the next validation tree is computed without failing an assertion,
  and for every certificate claim that the next block may make, the finality root which that block has
  to commit to is computed without failing: it is zero for a claim on the genesis block, and otherwise
  the Merkle root over the finality leaves of all blocks from the genesis block up to the claimed one.
\<close>

theorem finality_root_over_leaves:
  assumes "validated_chain sha g1_ok bls validator ls hs s"
  shows "(\<forall>q0 q. latest_qc_claim (bs_core s) = Inr q0 \<longrightarrow> q0 \<le> q \<longrightarrow> claim_block_num q \<le> bs_block_num s \<longrightarrow>
      (\<exists>g. is_genesis_block_num (bs_core s) (claim_block_num q) = Inr g \<and>
        get_finality_mroot_claim s q = Inr (if g then sha256_zero
          else merkle_root sha (take (length ls - unat (bs_block_num s - claim_block_num q)) ls)))) \<and>
    (\<forall>b action_mroot strong_digest. header_chain sha g1_ok validator (hs @ [bs_bhs s]) b \<longrightarrow> unat (bhs_block_num b) + 1 < 2 ^ 32 \<longrightarrow>
      \<not> sha256_empty strong_digest \<longrightarrow> (\<exists>v. new_valid sha s b action_mroot strong_digest = Inr v))"
proof -
  from validated_chain_inv [OF assms] obtain n0 where num: "chain_num sha n0 hs (bs_bhs s)" and inv: "valid_inv sha n0 ls s" by blast
  from num have win: "core_win (bs_core s)" and cur: "source_block_num (last (links (bs_core s))) = bs_block_num s"
    by (simp_all add: chain_num_def bs_block_num_def)
  note W = core_winD [OF win]
  have "\<exists>g. is_genesis_block_num (bs_core s) (claim_block_num q) = Inr g \<and>
        get_finality_mroot_claim s q = Inr (if g then sha256_zero
          else merkle_root sha (take (length ls - unat (bs_block_num s - claim_block_num q)) ls))"
    if "latest_qc_claim (bs_core s) = Inr q0" "q0 \<le> q" "claim_block_num q \<le> bs_block_num s" for q0 q
  proof -
    have ok: "claim_ok (bs_core s) q" using that W(1) cur by (auto simp: claim_ok_def core_accessors)
    have lib: "lib_of (bs_bhs s) \<le> claim_block_num q"
      using claim_okD(2) [OF win ok] W(6,7) by (simp add: lib_of_def word_le_nat_alt)
    show ?thesis
      using next_metadata_eq [OF win ok] validation_root [OF num inv lib that(3)] lib that(3) cur W(1)
      by (auto simp: get_finality_mroot_claim_def is_genesis_block_num_def core_accessors lib_of_def)
  qed
  moreover have "\<exists>v. new_valid sha s b action_mroot strong_digest = Inr v"
    if "header_chain sha g1_ok validator (hs @ [bs_bhs s]) b" "unat (bhs_block_num b) + 1 < 2 ^ 32" "\<not> sha256_empty strong_digest"
    for b action_mroot strong_digest
  proof -
    from header_chain_snocD [OF that(1)] obtain fe where st: "chain_step sha (bs_bhs s) fe b" by blast
    from leaf_digest_total obtain d where
      "leaf_digest sha (leaf_node (bhs_block_num b) (bhs_timestamp b) (bs_timestamp s) strong_digest action_mroot) = Inr d" by blast
    from new_valid_step [OF num st that(2) inv that(3) this] show ?thesis by blast
  qed
  ultimately show ?thesis by blast
qed

section \<open>Certificates are verified against the claimed block\<close>

lemma verify_qc_iff:
  assumes "header_chain sha g1_ok validator hs (bs_bhs s)" and "make_block_ref sha (bs_bhs s) = Inr (bs_make_block_ref s)"
    and "a \<in> set (hs @ [bs_bhs s])" and "qc_block_num qc = bhs_block_num a"
    and "latest_qc_claim (bs_core s) = Inr q" and "claim_block_num q \<le> bhs_block_num a"
    and "policy_wf (bhs_active_finalizer_policy a)" and "pred_option policy_wf (pending_policy a)"
  shows "\<exists>digest. compute_finality_digest sha a = Inr digest \<and>
    (verify_qc bls s qc = Inr () \<longleftrightarrow>
      sig_verified (active_policy_sig qc) (bhs_active_finalizer_policy a) \<and>
      (case (pending_policy_sig qc, pending_policy a) of
         (None, None) \<Rightarrow> True
       | (Some t, Some p) \<Rightarrow> sig_verified t p \<and> same_votes (bhs_active_finalizer_policy a) p (active_policy_sig qc) t
       | _ \<Rightarrow> False) \<and>
      qc_verify_signatures bls qc \<lparr>pol_finality_digest = digest, active_finalizer_policy = bhs_active_finalizer_policy a,
        pending_finalizer_policy = pending_policy a\<rparr> = Inr ())"
proof -
  obtain n0 where num: "chain_num sha n0 hs (bs_bhs s)" and pol: "chain_pol hs (bs_bhs s)" using header_chain_inv [OF assms(1)] by blast
  from num have win: "core_win (bs_core s)" by (simp add: chain_num_def)
  have cl: "claim_num (bs_bhs s) \<le> bhs_block_num a"
    using assms(5,6) core_winD(1) [OF win] by (auto simp: core_accessors claim_num_def)
  have lib: "lib_of (bs_bhs s) \<le> bhs_block_num a" using lib_le_claim [OF win] cl by (rule order_trans)
  have "\<exists>r. make_block_ref sha a = Inr r \<and> bs_get_finalizer_policies s (qc_block_num qc) = get_finalizer_policies (bs_bhs s) r"
  proof (cases "a = bs_bhs s")
    case True
    with assms(2,4) show ?thesis by (simp add: bs_get_finalizer_policies_def bs_block_num_def)
  next
    case False
    with assms(3) have "a \<in> set hs" by simp
    with chain_lookup [OF num this lib] chain_num_le [OF num this] show ?thesis
      by (auto simp: bs_get_finalizer_policies_def bs_block_num_def assms(4))
  qed
  then obtain r where r: "make_block_ref sha a = Inr r"
    and ps: "bs_get_finalizer_policies s (qc_block_num qc) = get_finalizer_policies (bs_bhs s) r" by blast
  from r have dg: "compute_finality_digest sha a = Inr (ref_finality_digest r)" by (auto simp: make_block_ref_def rbind_Inr_iff)
  let ?P = "\<lparr>pol_finality_digest = ref_finality_digest r, active_finalizer_policy = bhs_active_finalizer_policy a,
      pending_finalizer_policy = pending_policy a\<rparr>"
  from ps retrieve_policies [OF num pol assms(3) cl r]
  have "verify_qc bls s qc = Inr () \<longleftrightarrow> verify_basic qc ?P = Inr () \<and> qc_verify_signatures bls qc ?P = Inr ()"
    by (auto simp: verify_qc_def rbind_Inr_iff)
  with verify_basic_iff [of ?P qc] assms(7,8) dg show ?thesis by (auto cong: option.case_cong)
qed

text \<open>
  C8: A certificate is accepted only on the strength of the block it claims.  For a state on a chain
  and a certificate for a block of the chain from the latest claim on, the state's own block included,
  \<open>verify_qc\<close> accepts exactly when each policy that block had, the active one and the pending one if
  there is one, has a quorum of votes in the certificate with finalizers of both policies voting the
  same in both, and the aggregate signatures are valid for that block's finality digest.
\<close>

theorem verify_qc_decides:
  assumes "header_chain sha g1_ok validator hs (bs_bhs s)" and "make_block_ref sha (bs_bhs s) = Inr (bs_make_block_ref s)"
    and "a \<in> set (hs @ [bs_bhs s])" and "qc_block_num qc = bhs_block_num a"
    and "latest_qc_claim (bs_core s) = Inr q" and "claim_block_num q \<le> bhs_block_num a"
    and "policy_wf (bhs_active_finalizer_policy a)" and "pred_option policy_wf (pending_policy a)"
  shows "\<exists>digest. compute_finality_digest sha a = Inr digest \<and>
    (verify_qc bls s qc = Inr () \<longleftrightarrow>
      sig_verified (active_policy_sig qc) (bhs_active_finalizer_policy a) \<and>
      (case (pending_policy_sig qc, pending_policy a) of
         (None, None) \<Rightarrow> True
       | (Some t, Some p) \<Rightarrow> sig_verified t p \<and> same_votes (bhs_active_finalizer_policy a) p (active_policy_sig qc) t
       | _ \<Rightarrow> False) \<and>
      qc_verify_signatures bls qc \<lparr>pol_finality_digest = digest, active_finalizer_policy = bhs_active_finalizer_policy a,
        pending_finalizer_policy = pending_policy a\<rparr> = Inr ())"
  using assms by (rule verify_qc_iff)

section \<open>Block signatures\<close>

lemma recover_keys_Cons:
  "recover_keys recover block_id (s # sigs) K = Inr K' \<longleftrightarrow>
   (\<exists>k. recover s block_id = Inr k \<and> k \<notin> K \<and> recover_keys recover block_id sigs (insert k K) = Inr K')"
  by (auto simp: recover_keys_def rbind_Inr_iff ensure_Inr_iff)

lemma recover_keys_iff:
  "recover_keys recover block_id sigs K = Inr K' \<longleftrightarrow>
   (\<exists>ks. list_all2 (\<lambda>s k. recover s block_id = Inr k) sigs ks \<and> distinct ks \<and> set ks \<inter> K = {} \<and> K' = set ks \<union> K)"
proof (induction sigs arbitrary: K)
  case (Cons s sigs)
  let ?r = "\<lambda>s k. recover s block_id = Inr k"
  show ?case (is "?L \<longleftrightarrow> ?R")
  proof
    assume ?L
    then obtain k ks where "?r s k" "k \<notin> K" "list_all2 ?r sigs ks" "distinct ks" "set ks \<inter> insert k K = {}" "K' = set ks \<union> insert k K"
      unfolding recover_keys_Cons Cons.IH by blast
    then have "list_all2 ?r (s # sigs) (k # ks) \<and> distinct (k # ks) \<and> set (k # ks) \<inter> K = {} \<and> K' = set (k # ks) \<union> K" by auto
    then show ?R by blast
  next
    assume ?R
    then obtain k ks where "?r s k" "list_all2 ?r sigs ks" "distinct (k # ks)" "set (k # ks) \<inter> K = {}" "K' = set (k # ks) \<union> K"
      by (auto simp: list_all2_Cons1)
    then have "?r s k \<and> k \<notin> K \<and> list_all2 ?r sigs ks \<and> distinct ks \<and> set ks \<inter> insert k K = {} \<and> K' = set ks \<union> insert k K" by auto
    then show ?L unfolding recover_keys_Cons Cons.IH by blast
  qed
qed (auto simp: recover_keys_def)

lemma ex_recovered_keys:
  "(\<exists>K. recover_keys recover block_id sigs {k} = Inr K \<and> P K) \<longleftrightarrow>
   (\<exists>ks. list_all2 (\<lambda>s k. recover s block_id = Inr k) sigs ks \<and> distinct (k # ks) \<and> P (set (k # ks)))"
  unfolding recover_keys_iff by auto

lemma relevant_keys:
  assumes "distinct (map kw_key kws)" and "finite K"
  shows "length (filter (\<lambda>kw. kw_key kw \<in> K) kws) = card K \<longleftrightarrow> K \<subseteq> kw_key ` set kws"
proof -
  have "map kw_key (filter (\<lambda>kw. kw_key kw \<in> K) kws) = filter (\<lambda>k. k \<in> K) (map kw_key kws)" by (simp add: filter_map comp_def)
  then have "length (filter (\<lambda>kw. kw_key kw \<in> K) kws) = length (filter (\<lambda>k. k \<in> K) (map kw_key kws))" by (metis length_map)
  also have "\<dots> = card (K \<inter> kw_key ` set kws)"
    using distinct_card [of "filter (\<lambda>k. k \<in> K) (map kw_key kws)"] assms(1)
    by (simp add: Int_def conj_commute)
  finally show ?thesis using assms(2) by (metis Int_lower1 card_subset_eq inf.absorb_iff1)
qed

text \<open>
  C36: The signature check of a block accepts exactly when every signature recovers to a key, the keys
  are all different and all belong to the signing authority, and their weight reaches its threshold.
\<close>

theorem verify_signee_decides:
  assumes "distinct (map kw_key (bsa_keys authority))"
  shows "verify_signee recover producer_signature block_id additional_signatures authority = Inr () \<longleftrightarrow>
    (\<exists>ks. list_all2 (\<lambda>s k. recover s block_id = Inr k) (producer_signature # additional_signatures) ks \<and> distinct ks \<and>
      set ks \<subseteq> kw_key ` set (bsa_keys authority) \<and>
      unat (bsa_threshold authority) \<le> presented_weight (set ks) (bsa_keys authority))" (is "?L \<longleftrightarrow> ?R")
proof -
  let ?rec = "\<lambda>s k. recover s block_id = Inr k"
  have fin: "finite K" if "recover_keys recover block_id additional_signatures {k} = Inr K" for k K
    using that by (auto simp: recover_keys_iff)
  have "?L \<longleftrightarrow> 1 + length additional_signatures \<le> length (bsa_keys authority) \<and>
      (\<exists>k K. ?rec producer_signature k \<and> recover_keys recover block_id additional_signatures {k} = Inr K \<and>
        length (filter (\<lambda>kw. kw_key kw \<in> K) (bsa_keys authority)) = card K \<and>
        unat (bsa_threshold authority) \<le> presented_weight K (bsa_keys authority))"
    by (auto simp: verify_signee_def keys_satisfy_iff rbind_Inr_iff ensure_Inr_iff)
  also have "\<dots> \<longleftrightarrow> 1 + length additional_signatures \<le> length (bsa_keys authority) \<and>
      (\<exists>k K. ?rec producer_signature k \<and> recover_keys recover block_id additional_signatures {k} = Inr K \<and>
        K \<subseteq> kw_key ` set (bsa_keys authority) \<and> unat (bsa_threshold authority) \<le> presented_weight K (bsa_keys authority))"
    using relevant_keys [OF assms] fin by blast
  also have "\<dots> \<longleftrightarrow> 1 + length additional_signatures \<le> length (bsa_keys authority) \<and>
      (\<exists>k ks. ?rec producer_signature k \<and> list_all2 ?rec additional_signatures ks \<and> distinct (k # ks) \<and>
        set (k # ks) \<subseteq> kw_key ` set (bsa_keys authority) \<and>
        unat (bsa_threshold authority) \<le> presented_weight (set (k # ks)) (bsa_keys authority))"
    using ex_recovered_keys [where P = "\<lambda>K. K \<subseteq> kw_key ` set (bsa_keys authority) \<and>
      unat (bsa_threshold authority) \<le> presented_weight K (bsa_keys authority)"] by blast
  finally have L: "?L \<longleftrightarrow> 1 + length additional_signatures \<le> length (bsa_keys authority) \<and>
      (\<exists>k ks. ?rec producer_signature k \<and> list_all2 ?rec additional_signatures ks \<and> distinct (k # ks) \<and>
        set (k # ks) \<subseteq> kw_key ` set (bsa_keys authority) \<and>
        unat (bsa_threshold authority) \<le> presented_weight (set (k # ks)) (bsa_keys authority))" .
  have fits: "length ks \<le> length (bsa_keys authority)" if "distinct ks" "set ks \<subseteq> kw_key ` set (bsa_keys authority)" for ks
    using that card_mono [OF _ that(2)] distinct_card [OF that(1)] card_image_le [of "set (bsa_keys authority)" kw_key] card_length [of "bsa_keys authority"]
    by simp
  have "1 + length additional_signatures \<le> length (bsa_keys authority)"
    if "list_all2 ?rec additional_signatures ks" "distinct (k # ks)" "set (k # ks) \<subseteq> kw_key ` set (bsa_keys authority)" for k ks
    using fits [OF that(2,3)] list_all2_lengthD [OF that(1)] by simp
  then show ?thesis unfolding L list_all2_Cons1 by blast
qed

section \<open>A concrete chain\<close>

text \<open>A genesis block converted from the legacy consensus, and one block on it.\<close>

definition sample_extension :: "byte list" where
  "sample_extension = (case pack_finality_extension \<lparr>fe_qc_claim = Qc_claim 2 False,
     fe_new_finalizer_policy_diff = Some \<lparr>fpd_generation = 1, fpd_threshold = 1, finalizers_diff = \<lparr>remove_indexes = [], insert_indexes = []\<rparr>\<rparr>,
     fe_new_proposer_policy_diff = None\<rparr> of Inr b \<Rightarrow> b | Inl _ \<Rightarrow> [])"

definition sample_legacy_header :: block_header where
  "sample_legacy_header = (bhs_header sample_genesis)\<lparr>bh_header_extensions := [(finality_extension_id, sample_extension)]\<rparr>"

definition sample_legacy :: block_state_legacy where
  "sample_legacy = \<lparr>bsl_id = (case calculate_id sample_sha sample_legacy_header of Inr i \<Rightarrow> i | Inl _ \<Rightarrow> sha256_zero), bsl_block_num = 2,
     bsl_header = sample_legacy_header, bsl_activated_protocol_features = [], bsl_active_schedule = proposer_schedule sample_proposers,
     bsl_header_exts = [], bsl_block = None, bsl_validated = True, bsl_action_mroot_savanna = Some (Sha256 9 9 9 9)\<rparr>"

definition sample_bls_api :: bls_api where
  "sample_bls_api = \<lparr>api_verify = (\<lambda>_ _ _. True), api_aggregate = (\<lambda>a b. a @ b), api_zero = [],
     api_aggregate_public_keys = concat, api_aggregate_verify = (\<lambda>_ _ _. True)\<rparr>"

definition sample_validated :: "(block_state \<times> digest_type \<times> block_state \<times> digest_type \<times> valid_t) res" where
  "sample_validated =
     rbind (create_if_genesis_block sample_sha (\<lambda>_. True) sample_bls_api sample_legacy) (\<lambda>s.
     rbind (leaf_digest sample_sha (leaf_node (bs_block_num s) (bs_timestamp s) 0 (bs_strong_digest s) (bs_action_mroot s))) (\<lambda>d.
     rbind (next_from_input sample_sha (bs_bhs s) (sample_input (bs_bhs s) None (Qc_claim 2 True))) (\<lambda>b.
     rbind (new_valid sample_sha s b (Sha256 1 2 3 4) (Sha256 5 6 7 8)) (\<lambda>v.
     let s' = s\<lparr>bs_bhs := b, bs_valid := Some v\<rparr> in
     rbind (leaf_digest sample_sha (leaf_node (bs_block_num s') (bs_timestamp s') (bs_timestamp s) (Sha256 5 6 7 8) (Sha256 1 2 3 4))) (\<lambda>d'.
     Inr (s, d, s', d', v))))))"

lemma sample_validated_run:
  "case sample_validated of Inl _ \<Rightarrow> False | Inr (s, d, s', d', v) \<Rightarrow>
     calculate_id sample_sha (bsl_header sample_legacy) = Inr (bsl_id sample_legacy) \<and>
     bsl_block_num sample_legacy = header_block_num (bsl_header sample_legacy) \<and>
     active_gen (bs_bhs s) = 1 \<and> bs_block_num s = 2 \<and> bs_block_num s' = 3 \<and>
     latest_qc_claim (bs_core s') = Inr (Qc_claim 2 True) \<and> is_genesis_block_num (bs_core s') 3 = Inr False"
  by code_simp

lemma sample_validated_chain:
  obtains ls hs s where "validated_chain sample_sha (\<lambda>_. True) sample_bls_api (\<lambda>_ _ _. Inr ()) ls hs s" and "length ls = 2"
    and "bs_block_num s = 3" and "latest_qc_claim (bs_core s) = Inr (Qc_claim 2 True)" and "is_genesis_block_num (bs_core s) 3 = Inr False"
proof -
  obtain s d s' d' v where run: "sample_validated = Inr (s, d, s', d', v)"
    and f: "calculate_id sample_sha (bsl_header sample_legacy) = Inr (bsl_id sample_legacy)"
      "bsl_block_num sample_legacy = header_block_num (bsl_header sample_legacy)" "active_gen (bs_bhs s) = 1"
      "bs_block_num s = 2" "bs_block_num s' = 3"
      "latest_qc_claim (bs_core s') = Inr (Qc_claim 2 True)" "is_genesis_block_num (bs_core s') 3 = Inr False"
    using sample_validated_run by (auto simp: case_evaluated)
  from run obtain b where g: "create_if_genesis_block sample_sha (\<lambda>_. True) sample_bls_api sample_legacy = Inr s"
    "leaf_digest sample_sha (leaf_node (bs_block_num s) (bs_timestamp s) 0 (bs_strong_digest s) (bs_action_mroot s)) = Inr d"
    and b: "next_from_input sample_sha (bs_bhs s) (sample_input (bs_bhs s) None (Qc_claim 2 True)) = Inr b"
    and v: "new_valid sample_sha s b (Sha256 1 2 3 4) (Sha256 5 6 7 8) = Inr v" and s': "s' = s\<lparr>bs_bhs := b, bs_valid := Some v\<rparr>"
    and d': "leaf_digest sample_sha (leaf_node (bs_block_num s') (bs_timestamp s') (bs_timestamp s) (Sha256 5 6 7 8) (Sha256 1 2 3 4)) = Inr d'"
    unfolding sample_validated_def Let_def rbind_Inr_iff by blast
  have vc: "validated_chain sample_sha (\<lambda>_. True) sample_bls_api (\<lambda>_ _ _. Inr ()) [d] [] s"
    by (rule validated_chain.genesis [OF g(1) f(1,2,3) g(2)])
  from validated_chain_inv [OF this] have "header_chain sample_sha (\<lambda>_. True) (\<lambda>_ _ _. Inr ()) [] (bs_bhs s)" by blast
  from header_chain.assembled [OF this _ b] f(4) s'
  have hc: "header_chain sample_sha (\<lambda>_. True) (\<lambda>_ _ _. Inr ()) ([] @ [bs_bhs s]) (bs_bhs s')"
    by (simp add: sample_input_def bs_block_num_def)
  have "validated_chain sample_sha (\<lambda>_. True) sample_bls_api (\<lambda>_ _ _. Inr ()) ([d] @ [d']) ([] @ [bs_bhs s]) s'"
    using f(5) v by (intro validated_chain.step [OF vc hc _ _ _ d']) (simp_all add: s')
  with that f(5-7) show thesis by simp
qed

theorem finality_root_over_leaves_witness:
  "\<exists>ls s. length ls = 2 \<and> get_finality_mroot_claim s (Qc_claim 3 True) = Inr (merkle_root sample_sha ls)"
proof -
  obtain ls hs s where c: "validated_chain sample_sha (\<lambda>_. True) sample_bls_api (\<lambda>_ _ _. Inr ()) ls hs s" "length ls = 2"
    "bs_block_num s = 3" "latest_qc_claim (bs_core s) = Inr (Qc_claim 2 True)" "is_genesis_block_num (bs_core s) 3 = Inr False"
    using sample_validated_chain .
  have "Qc_claim 2 True \<le> Qc_claim 3 True" by (simp add: claim_le_iff)
  with finality_root_over_leaves [OF c(1)] c(2-5)
  have "get_finality_mroot_claim s (Qc_claim 3 True) = Inr (merkle_root sample_sha ls)" by fastforce
  with c(2) show ?thesis by blast
qed

text \<open>A genesis state with four finalizers, and a certificate of three of them for it.\<close>

definition sample_voted_genesis :: block_header_state where
  "sample_voted_genesis = sample_genesis\<lparr>bhs_active_finalizer_policy := sample_policy\<rparr>"

definition sample_genesis_qc :: qc_t where
  "sample_genesis_qc = \<lparr>qc_block_num = 2, active_policy_sig = sample_sig 0x3 0x4, pending_policy_sig = None\<rparr>"

lemma sample_voted_run:
  "case bs_init sample_sha sample_bls_api sample_voted_genesis None None sha256_zero of Inl _ \<Rightarrow> False | Inr s \<Rightarrow>
     qc_verify_signatures sample_bls_api sample_genesis_qc \<lparr>pol_finality_digest = bs_strong_digest s,
       active_finalizer_policy = sample_policy, pending_finalizer_policy = None\<rparr> = Inr ()"
  by code_simp

lemma sample_voted_state:
  obtains s where "bs_init sample_sha sample_bls_api sample_voted_genesis None None sha256_zero = Inr s"
    and "bs_bhs s = sample_voted_genesis" and "make_block_ref sample_sha (bs_bhs s) = Inr (bs_make_block_ref s)"
    and "qc_verify_signatures sample_bls_api sample_genesis_qc \<lparr>pol_finality_digest = bs_strong_digest s,
       active_finalizer_policy = sample_policy, pending_finalizer_policy = None\<rparr> = Inr ()"
proof -
  obtain s where s: "bs_init sample_sha sample_bls_api sample_voted_genesis None None sha256_zero = Inr s"
    and v: "qc_verify_signatures sample_bls_api sample_genesis_qc \<lparr>pol_finality_digest = bs_strong_digest s,
       active_finalizer_policy = sample_policy, pending_finalizer_policy = None\<rparr> = Inr ()"
    using sample_voted_run by (auto simp: case_evaluated)
  from s have "bs_bhs s = sample_voted_genesis" "compute_finality_digest sample_sha sample_voted_genesis = Inr (bs_strong_digest s)"
    by (auto simp: bs_init_def rbind_Inr_iff)
  with that [OF s] v show thesis by (simp add: make_block_ref_def bs_make_block_ref_def bs_id_def bs_timestamp_def)
qed

theorem verify_qc_decides_witness:
  "\<exists>s. bs_bhs s = sample_voted_genesis \<and> verify_qc sample_bls_api s sample_genesis_qc = Inr ()"
proof -
  obtain s where s: "bs_bhs s = sample_voted_genesis" "make_block_ref sample_sha (bs_bhs s) = Inr (bs_make_block_ref s)"
    and v: "qc_verify_signatures sample_bls_api sample_genesis_qc \<lparr>pol_finality_digest = bs_strong_digest s,
       active_finalizer_policy = sample_policy, pending_finalizer_policy = None\<rparr> = Inr ()"
    using sample_voted_state .
  have g: "genesis_state (bs_bhs s)"
    by (simp add: s(1) genesis_state_def sample_voted_genesis_def sample_genesis_def bhs_block_num_def sample_policy_def num_from_embed_block_num)
  have num: "bhs_block_num sample_voted_genesis = 2" "latest_qc_claim (bhs_core sample_voted_genesis) = Inr (Qc_claim 2 False)"
    by (simp_all add: sample_voted_genesis_def sample_genesis_def bhs_block_num_def num_from_embed_block_num
        create_core_for_genesis_block_def latest_qc_claim_def)
  have pol: "bhs_active_finalizer_policy sample_voted_genesis = sample_policy" "pending_policy sample_voted_genesis = None"
    by (simp_all add: sample_voted_genesis_def sample_genesis_def pending_policy_def)
  have dg: "compute_finality_digest sample_sha sample_voted_genesis = Inr (bs_strong_digest s)"
    using s by (auto simp: make_block_ref_def bs_make_block_ref_def rbind_Inr_iff)
  from verify_qc_decides [OF header_chain.genesis [OF g, of sample_sha "\<lambda>_. True" "\<lambda>_ _ _. Inr ()"] s(2),
      of sample_voted_genesis sample_genesis_qc "Qc_claim 2 False" sample_bls_api] s v num pol dg sample_policy_wf sample_sig_verified(1)
  show ?thesis by (auto simp: sample_genesis_qc_def)
qed

theorem verify_signee_decides_witness:
  "verify_signee (\<lambda>s _. case s of SIG_K1 d \<Rightarrow> Inr (PUB_K1 d) | _ \<Rightarrow> Inl Fc_assert_exception) (SIG_K1 [1]) sha256_zero [SIG_K1 [2]]
     (Block_signing_authority_v0 2 [\<lparr>kw_key = PUB_K1 [1], kw_weight = 1\<rparr>, \<lparr>kw_key = PUB_K1 [2], kw_weight = 1\<rparr>]) = Inr ()"
  by (subst verify_signee_decides) (simp_all add: list_all2_Cons1)

end
