(* ===== verification/Fork_Tree.thy ===== *)
theory Fork_Tree
  imports Fork_Database Block_Validation
begin

text \<open>
  The blocks of a fork database form a tree on its root.  \<open>branch\<close> is the path of blocks from an
  identifier towards the root.  Block numbers decrease along it, so every loop over a branch ends, and
  the operations are characterised by the branches of the blocks.
\<close>

section \<open>Branches\<close>

definition numbered :: "block_state \<Rightarrow> bool" where
  "numbered b \<longleftrightarrow> num_from_id (bs_id b) = bs_block_num b \<and> unat (bs_block_num b) = unat (num_from_id (bs_previous b)) + 1"

fun branch_upto :: "nat \<Rightarrow> block_state list \<Rightarrow> block_id_type \<Rightarrow> block_state list" where
  "branch_upto 0 idx h = []"
| "branch_upto (Suc n) idx h = (case index_find idx h of None \<Rightarrow> [] | Some b \<Rightarrow> b # branch_upto n idx (bs_previous b))"

definition branch :: "block_state list \<Rightarrow> block_id_type \<Rightarrow> block_state list" where
  "branch idx h = branch_upto (unat (num_from_id h) + 1) idx h"

definition anc_ids :: "block_state list \<Rightarrow> block_id_type \<Rightarrow> block_id_type list" where
  "anc_ids idx h = h # map bs_previous (branch idx h)"

fun run_body :: "(block_state \<Rightarrow> 's \<Rightarrow> 's + 'r) \<Rightarrow> block_state list \<Rightarrow> 's \<Rightarrow> 's + 'r" where
  "run_body body [] s = Inl s"
| "run_body body (b # bs) s = (case body b s of Inr r \<Rightarrow> Inr r | Inl s' \<Rightarrow> run_body body bs s')"

lemma index_find_Some: "index_find idx h = Some b \<Longrightarrow> b \<in> set idx \<and> bs_id b = h"
  by (auto simp: index_find_def find_Some_iff in_set_conv_nth)

lemma index_find_None: "index_find idx h = None \<longleftrightarrow> h \<notin> bs_id ` set idx"
  by (auto simp: index_find_def find_None_iff)

lemma index_find_distinct: "distinct (map bs_id idx) \<Longrightarrow> b \<in> set idx \<Longrightarrow> index_find idx (bs_id b) = Some b"
  by (induction idx) (auto simp: index_find_def)

lemma branch_unfold:
  assumes "list_all numbered idx"
  shows "branch idx h = (case index_find idx h of None \<Rightarrow> [] | Some b \<Rightarrow> b # branch idx (bs_previous b))"
proof (cases "index_find idx h")
  case (Some b)
  with assms index_find_Some [OF Some] have "unat (num_from_id h) = unat (num_from_id (bs_previous b)) + 1"
    by (auto simp: list_all_iff numbered_def)
  with Some show ?thesis by (simp add: branch_def)
qed (simp add: branch_def)

lemma branch_None: "index_find idx h = None \<Longrightarrow> branch idx h = []"
  by (simp add: branch_def)

lemma branch_induct [consumes 1, case_names none some]:
  assumes num: "list_all numbered idx"
    and "\<And>h. index_find idx h = None \<Longrightarrow> P h"
    and "\<And>h b. index_find idx h = Some b \<Longrightarrow> numbered b \<Longrightarrow> P (bs_previous b) \<Longrightarrow> P h"
  shows "P h"
proof (induction "unat (num_from_id h)" arbitrary: h rule: less_induct)
  case less
  show ?case
  proof (cases "index_find idx h")
    case None
    then show ?thesis by (rule assms(2))
  next
    case (Some b)
    with num index_find_Some [OF Some] have b: "numbered b" "bs_id b = h" by (auto simp: list_all_iff)
    then have "unat (num_from_id (bs_previous b)) < unat (num_from_id h)" by (auto simp: numbered_def)
    with less Some b(1) assms(3) show ?thesis by blast
  qed
qed

lemma walk_eq:
  assumes "list_all numbered idx"
  shows "walk body idx h s = Some (run_body body (branch idx h) s)"
  using assms
proof (induction h arbitrary: s rule: branch_induct)
  case (none h)
  then show ?case by (subst walk.simps) (simp add: branch_None)
next
  case (some h b)
  then show ?case by (subst walk.simps, subst branch_unfold [OF assms]) (simp split: sum.split)
qed

lemma run_collect: "run_body (\<lambda>b acc. Inl (f b acc)) bs s = Inl (fold f bs s)"
  by (induction bs arbitrary: s) simp_all

lemma fold_snoc_map: "fold (\<lambda>b acc. acc @ [f b]) bs acc = acc @ map f bs"
  by (induction bs arbitrary: acc) simp_all

lemma fold_snoc_filter: "fold (\<lambda>b acc. if P b then acc @ [f b] else acc) bs acc = acc @ map f (filter P bs)"
  by (induction bs arbitrary: acc) simp_all

section \<open>The tree\<close>

definition tree_inv :: "fork_db \<Rightarrow> block_state \<Rightarrow> bool" where
  "tree_inv db r \<longleftrightarrow> fd_root db = Some r \<and> num_from_id (bs_id r) = bs_block_num r \<and>
     list_all numbered (fd_index db) \<and> distinct (map bs_id (fd_index db)) \<and> bs_id r \<notin> bs_id ` set (fd_index db) \<and>
     (\<forall>b \<in> set (fd_index db). bs_previous b = bs_id r \<or> bs_previous b \<in> bs_id ` set (fd_index db))"

lemma tree_invD:
  assumes "tree_inv db r"
  shows "fd_root db = Some r" and "num_from_id (bs_id r) = bs_block_num r" and "list_all numbered (fd_index db)"
    and "distinct (map bs_id (fd_index db))" and "index_find (fd_index db) (bs_id r) = None"
    and "b \<in> set (fd_index db) \<Longrightarrow> bs_previous b \<noteq> bs_id r \<Longrightarrow> bs_previous b \<in> bs_id ` set (fd_index db)"
  using assms by (auto simp: tree_inv_def index_find_None)

lemma branch_subset:
  assumes "list_all numbered idx"
  shows "set (branch idx h) \<subseteq> set idx"
  using assms
proof (induction h rule: branch_induct)
  case (some h b)
  then show ?case using index_find_Some [OF some(1)] by (subst branch_unfold [OF assms]) auto
qed (simp add: branch_None)

text \<open>A branch in a tree: it starts at its identifier, is linked, and ends on the root.\<close>

fun linked_to :: "block_id_type \<Rightarrow> block_state list \<Rightarrow> block_id_type \<Rightarrow> bool" where
  "linked_to h [] g \<longleftrightarrow> h = g"
| "linked_to h (b # bs) g \<longleftrightarrow> bs_id b = h \<and> linked_to (bs_previous b) bs g"

lemma branch_linked:
  assumes "tree_inv db r" and "h = bs_id r \<or> h \<in> bs_id ` set (fd_index db)"
  shows "linked_to h (branch (fd_index db) h) (bs_id r) \<and> unat (num_from_id h) = unat (bs_block_num r) + length (branch (fd_index db) h)"
  using tree_invD(3) [OF assms(1)] assms(2)
proof (induction h rule: branch_induct)
  case (none h)
  then have "h = bs_id r" by (auto simp: index_find_None)
  with none show ?case by (simp add: branch_None tree_invD(2) [OF assms(1)])
next
  case (some h b)
  note f = index_find_Some [OF some(1)] and n = tree_invD(3) [OF assms(1)]
  have "bs_previous b = bs_id r \<or> bs_previous b \<in> bs_id ` set (fd_index db)" using tree_invD(6) [OF assms(1)] f by blast
  with some f show ?case by (subst (1 2) branch_unfold [OF n]) (auto simp: numbered_def)
qed

lemma linked_to_append: "linked_to h (xs @ ys) g \<longleftrightarrow> (\<exists>m. linked_to h xs m \<and> linked_to m ys g)"
  by (induction xs arbitrary: h) auto

definition in_tree :: "fork_db \<Rightarrow> block_state \<Rightarrow> block_state \<Rightarrow> bool" where
  "in_tree db r b \<longleftrightarrow> b = r \<or> b \<in> set (fd_index db)"

abbreviation path :: "fork_db \<Rightarrow> block_state \<Rightarrow> block_state list" where
  "path db b \<equiv> branch (fd_index db) (bs_id b)"

lemma path_root [simp]: "tree_inv db r \<Longrightarrow> path db r = []"
  by (simp add: branch_None tree_invD(5))

lemma path_block: "tree_inv db r \<Longrightarrow> b \<in> set (fd_index db) \<Longrightarrow> path db b = b # branch (fd_index db) (bs_previous b)"
  by (subst branch_unfold) (simp_all add: tree_invD(3) index_find_distinct [OF tree_invD(4)])

lemma in_tree_num:
  assumes "tree_inv db r" and "in_tree db r b"
  shows "unat (bs_block_num b) = unat (bs_block_num r) + length (path db b)"
proof -
  have "num_from_id (bs_id b) = bs_block_num b"
    using assms(2) tree_invD(2,3) [OF assms(1)] by (auto simp: in_tree_def list_all_iff numbered_def)
  moreover have "bs_id b = bs_id r \<or> bs_id b \<in> bs_id ` set (fd_index db)" using assms(2) by (auto simp: in_tree_def)
  ultimately show ?thesis using branch_linked [OF assms(1), of "bs_id b"] by simp
qed

lemma tree_parent:
  assumes "tree_inv db r" and "b \<in> set (fd_index db)"
  obtains p where "branch_block db r (bs_previous b) = Inr p" and "in_tree db r p" and "bs_id p = bs_previous b" and "path db p = tl (path db b)"
proof (cases "bs_previous b = bs_id r")
  case True
  show thesis
  proof (rule that)
    show "path db r = tl (path db b)" using True assms(1) by (simp add: path_block [OF assms])
  qed (simp_all add: True branch_block_def in_tree_def)
next
  case False
  with tree_invD(6) [OF assms] obtain p where p: "p \<in> set (fd_index db)" "bs_id p = bs_previous b" by auto
  show thesis
  proof (rule that)
    show "branch_block db r (bs_previous b) = Inr p"
      using index_find_distinct [OF tree_invD(4) [OF assms(1)] p(1)] False p(2) by (simp add: branch_block_def)
    show "path db p = tl (path db b)" by (simp add: path_block [OF assms] p(2))
  qed (use p in \<open>simp_all add: in_tree_def\<close>)
qed

lemma branch_drop:
  assumes "list_all numbered idx" and "i < length (branch idx h)"
  shows "drop i (branch idx h) = branch idx (bs_id (branch idx h ! i))"
  using assms(1) assms(2)
proof (induction h arbitrary: i rule: branch_induct)
  case (some h b)
  note u = branch_unfold [OF assms(1), of h]
  from some index_find_Some [OF some(1)] show ?case by (cases i) (simp_all add: u)
qed (simp add: branch_None)

section \<open>The common ancestor\<close>

lemma lower_to_eq:
  assumes tree: "tree_inv db r" and "in_tree db r b" and "bs_block_num r \<le> num"
  shows "\<exists>b'. lower_to db r num b acc = Some (Inr (b', acc @ take (unat (bs_block_num b) - unat num) (path db b))) \<and>
    in_tree db r b' \<and> path db b' = drop (unat (bs_block_num b) - unat num) (path db b)"
  using assms(2)
proof (induction "length (path db b)" arbitrary: b acc rule: less_induct)
  case less
  let ?k = "unat (bs_block_num b) - unat num"
  note n = in_tree_num [OF tree less.prems]
  show ?case
  proof (cases "num < bs_block_num b")
    case False
    then have "?k = 0" by (simp add: word_less_nat_alt)
    with False less.prems show ?thesis by (subst lower_to.simps) auto
  next
    case True
    with assms(3) n have "path db b \<noteq> []" by (auto simp: word_less_nat_alt word_le_nat_alt)
    with less.prems tree have b: "b \<in> set (fd_index db)" by (auto simp: in_tree_def)
    obtain p where p: "branch_block db r (bs_previous b) = Inr p" "in_tree db r p" "path db p = tl (path db b)"
      using tree_parent [OF tree b] .
    have path: "path db b = b # path db p" using p(3) path_block [OF tree b] by simp
    have k: "?k = Suc (unat (bs_block_num p) - unat num)"
      using in_tree_num [OF tree p(2)] n path True by (simp add: word_less_nat_alt)
    from less.hyps [OF _ p(2), of "acc @ [b]"] path True p(1) show ?thesis
      by (subst lower_to.simps) (auto simp: k)
  qed
qed

lemma join_branches_eq:
  assumes tree: "tree_inv db r" and "x \<in> set (fd_index db)" and "y \<in> set (fd_index db)"
    and "length (path db x) = length (path db y)" and "bs_id x \<noteq> bs_id y"
  shows "\<exists>k. join_branches db x y xs ys = Some (Inr (xs @ take k (path db x), ys @ take k (path db y))) \<and>
    drop k (path db x) = drop k (path db y) \<and> k \<le> length (path db x) \<and> (\<forall>i < k. path db x ! i \<noteq> path db y ! i)"
  using assms(2-)
proof (induction "length (path db x)" arbitrary: x y xs ys rule: less_induct)
  case less
  note pb = path_block [OF tree less.prems(1)] path_block [OF tree less.prems(2)]
  have ne: "x \<noteq> y" using less.prems(4) by auto
  show ?case
  proof (cases "bs_previous x = bs_previous y")
    case True
    with ne show ?thesis by (subst join_branches.simps) (intro exI [of _ 1], simp add: pb)
  next
    case False
    obtain x' where x': "in_tree db r x'" "bs_id x' = bs_previous x" "path db x' = tl (path db x)" using tree_parent [OF tree less.prems(1)] .
    obtain y' where y': "in_tree db r y'" "bs_id y' = bs_previous y" "path db y' = tl (path db y)" using tree_parent [OF tree less.prems(2)] .
    have len: "length (path db x') = length (path db y')" using less.prems(3) x'(3) y'(3) by simp
    have id: "bs_id x' \<noteq> bs_id y'" using False x'(2) y'(2) by simp
    have "z \<in> set (fd_index db)" if "in_tree db r z" "in_tree db r w" "length (path db z) = length (path db w)" "bs_id z \<noteq> bs_id w" for z w
    proof (rule ccontr)
      assume "z \<notin> set (fd_index db)"
      with that(1) have "z = r" by (simp add: in_tree_def)
      with that(3) tree have "path db w = []" by simp
      with that(2) path_block [OF tree, of w] have "w = r" by (auto simp: in_tree_def)
      with \<open>z = r\<close> that(4) show False by simp
    qed
    from this [OF x'(1) y'(1) len id] this [OF y'(1) x'(1) len [symmetric] id [symmetric]]
    have mem: "x' \<in> set (fd_index db)" "y' \<in> set (fd_index db)" .
    have path: "path db x = x # path db x'" "path db y = y # path db y'" using pb x'(2) y'(2) by simp_all
    from less.hyps [OF _ mem len id, of "xs @ [x]" "ys @ [y]"] path obtain k where
      k: "join_branches db x' y' (xs @ [x]) (ys @ [y]) = Some (Inr ((xs @ [x]) @ take k (path db x'), (ys @ [y]) @ take k (path db y')))"
        "drop k (path db x') = drop k (path db y')" "k \<le> length (path db x')" "\<forall>i < k. path db x' ! i \<noteq> path db y' ! i" by auto
    have "index_find (fd_index db) (bs_previous x) = Some x'" "index_find (fd_index db) (bs_previous y) = Some y'"
      using index_find_distinct [OF tree_invD(4) [OF tree]] mem x'(2) y'(2) by metis+
    with False k ne path show ?thesis
      by (subst join_branches.simps) (intro exI [of _ "Suc k"], auto simp: less_Suc_eq_0_disj)
  qed
qed

text \<open>Blocks at different heights of two branches are different.\<close>

lemma take_paths_disjoint:
  assumes "list_all numbered idx" and "length (branch idx g) = m + length (branch idx h)"
    and "\<forall>i < k. branch idx g ! (m + i) \<noteq> branch idx h ! i" and "k \<le> length (branch idx h)"
  shows "set (take (m + k) (branch idx g)) \<inter> set (take k (branch idx h)) = {}"
proof (rule ccontr)
  assume "set (take (m + k) (branch idx g)) \<inter> set (take k (branch idx h)) \<noteq> {}"
  then obtain i j where ij: "i < m + k" "j < k" "branch idx g ! i = branch idx h ! j" "i < length (branch idx g)"
    by (auto simp: in_set_conv_nth) metis
  have "drop i (branch idx g) = drop j (branch idx h)"
    using branch_drop [OF assms(1) ij(4)] branch_drop [OF assms(1), of j h] ij assms(4) by simp
  then have "length (branch idx g) - i = length (branch idx h) - j" by (metis length_drop)
  with assms(2,4) ij have "i = m + j" by simp
  with assms(3) ij show False by simp
qed

lemma branch_block_in_tree:
  assumes "tree_inv db r" and "h = bs_id r \<or> h \<in> bs_id ` set (fd_index db)"
  obtains b where "branch_block db r h = Inr b" and "in_tree db r b" and "bs_id b = h"
proof (cases "h = bs_id r")
  case True
  with that show thesis by (simp add: branch_block_def in_tree_def)
next
  case False
  with assms obtain b where "b \<in> set (fd_index db)" "bs_id b = h" by auto
  with index_find_distinct [OF tree_invD(4) [OF assms(1)], of b] that [of b] False show thesis
    by (simp add: branch_block_def in_tree_def)
qed

lemma same_height:
  assumes "tree_inv db r" and "in_tree db r x" and "in_tree db r y" and "length (path db x) = length (path db y)"
  shows "bs_id x = bs_id y \<longleftrightarrow> x = y" and "x \<noteq> y \<Longrightarrow> x \<in> set (fd_index db) \<and> y \<in> set (fd_index db)"
proof -
  have "z = r" if "in_tree db r z" "path db z = []" for z
    using that path_block [OF assms(1), of z] by (auto simp: in_tree_def)
  with assms have r: "x = r \<longleftrightarrow> y = r" by (metis length_0_conv path_root)
  then show "x \<noteq> y \<Longrightarrow> x \<in> set (fd_index db) \<and> y \<in> set (fd_index db)" using assms by (auto simp: in_tree_def)
  then show "bs_id x = bs_id y \<longleftrightarrow> x = y"
    using tree_invD(4) [OF assms(1)] by (metis distinct_map inj_onD)
qed

text \<open>
  C37: \<open>fetch_branch_from\<close> always ends.  For any two blocks of a fork database whose blocks form a tree
  on its root, the root included, its three loops end without an error, and the two branches it
  returns are exactly the parts of the two branches above the nearest common ancestor: each branch is
  the returned part followed by a common rest, and the returned parts have no block in common.
\<close>

theorem fetch_branch_from_terminates:
  assumes "tree_inv db r" and "first = bs_id r \<or> first \<in> bs_id ` set (fd_index db)" and "second = bs_id r \<or> second \<in> bs_id ` set (fd_index db)"
  shows "\<exists>xs ys zs. fetch_branch_from_impl db first second = Some (Inr (xs, ys)) \<and>
    branch (fd_index db) first = xs @ zs \<and> branch (fd_index db) second = ys @ zs \<and> set xs \<inter> set ys = {}"
proof -
  note tree = assms(1) and num = tree_invD(3) [OF assms(1)]
  obtain x where x: "branch_block db r first = Inr x" "in_tree db r x" "bs_id x = first" using branch_block_in_tree [OF tree assms(2)] .
  obtain y where y: "branch_block db r second = Inr y" "in_tree db r y" "bs_id y = second" using branch_block_in_tree [OF tree assms(3)] .
  note nx = in_tree_num [OF tree x(2)] and ny = in_tree_num [OF tree y(2)]
  have ge: "bs_block_num r \<le> bs_block_num y" using ny by (simp add: word_le_nat_alt)
  define kx where "kx = length (path db x) - length (path db y)"
  define ky where "ky = length (path db y) - length (path db x)"
  obtain x' where x': "lower_to db r (bs_block_num y) x [] = Some (Inr (x', take kx (path db x)))" "in_tree db r x'"
    "path db x' = drop kx (path db x)" using lower_to_eq [OF tree x(2) ge, of "[]"] nx ny by (auto simp: kx_def)
  note nx' = in_tree_num [OF tree x'(2)]
  have ge': "bs_block_num r \<le> bs_block_num x'" using nx' by (simp add: word_le_nat_alt)
  have "unat (bs_block_num y) - unat (bs_block_num x') = ky" using ny nx' x'(3) by (simp add: kx_def ky_def)
  then obtain y' where y': "lower_to db r (bs_block_num x') y [] = Some (Inr (y', take ky (path db y)))" "in_tree db r y'"
    "path db y' = drop ky (path db y)" using lower_to_eq [OF tree y(2) ge', of "[]"] by auto
  have len: "length (path db x') = length (path db y')" using x'(3) y'(3) by (simp add: kx_def ky_def)
  have res: "fetch_branch_from_impl db first second = (if x' = y' then Some (Inr (take kx (path db x), take ky (path db y)))
      else join_branches db x' y' (take kx (path db x)) (take ky (path db y)))"
    using same_height(1) [OF tree x'(2) y'(2) len] by (simp add: fetch_branch_from_impl_def tree_invD(1) [OF tree] x y x'(1) y'(1))
  have split: "take (n + k) (path db b) = take n (path db b) @ take k (drop n (path db b))"
    "drop (n + k) (path db b) = drop k (drop n (path db b))" for n k b
    by (rule take_add) (simp add: add.commute)
  obtain k where k: "fetch_branch_from_impl db first second = Some (Inr (take (kx + k) (path db x), take (ky + k) (path db y)))"
    "drop (kx + k) (path db x) = drop (ky + k) (path db y)" "kx + k \<le> length (path db x)" "ky + k \<le> length (path db y)"
    "\<forall>i < k. path db x ! (kx + i) \<noteq> path db y ! (ky + i)"
  proof (cases "x' = y'")
    case True
    with that [of 0] res x'(3) y'(3) show thesis by (simp add: kx_def ky_def)
  next
    case False
    with same_height [OF tree x'(2) y'(2) len] have m: "x' \<in> set (fd_index db)" "y' \<in> set (fd_index db)" "bs_id x' \<noteq> bs_id y'" by auto
    from join_branches_eq [OF tree m(1,2) len m(3), of "take kx (path db x)" "take ky (path db y)"] obtain k where
      "join_branches db x' y' (take kx (path db x)) (take ky (path db y)) =
         Some (Inr (take kx (path db x) @ take k (path db x'), take ky (path db y) @ take k (path db y')))"
      "drop k (path db x') = drop k (path db y')" "k \<le> length (path db x')" "\<forall>i < k. path db x' ! i \<noteq> path db y' ! i" by blast
    moreover have "kx \<le> length (path db x)" "ky \<le> length (path db y)" by (simp_all add: kx_def ky_def)
    ultimately show thesis using that [of k] res False x'(3) y'(3) split [of kx k x] split [of ky k y] len by simp
  qed
  have "set (take (kx + k) (path db x)) \<inter> set (take (ky + k) (path db y)) = {}"
  proof (cases "ky = 0")
    case True
    then show ?thesis using take_paths_disjoint [OF num, of "bs_id x" kx "bs_id y" k] k(4,5) by (simp add: kx_def ky_def)
  next
    case False
    then have "kx = 0" by (simp add: kx_def ky_def)
    with k(5) have "\<forall>i < k. path db y ! (ky + i) \<noteq> path db x ! i" by simp metis
    with \<open>kx = 0\<close> take_paths_disjoint [OF num, of "bs_id y" ky "bs_id x" k] k(3) show ?thesis by (simp add: kx_def ky_def Int_commute)
  qed
  moreover have "branch (fd_index db) first = take (kx + k) (path db x) @ drop (kx + k) (path db x)" by (simp add: x(3))
  moreover have "branch (fd_index db) second = take (ky + k) (path db y) @ drop (kx + k) (path db x)" by (simp add: k(2) y(3))
  ultimately show ?thesis using k(1) by blast
qed

section \<open>A concrete tree\<close>

text \<open>A root with number 2, two blocks on it, and a block on the first of them.\<close>

definition sample_aggregation :: aggregating_qc_t where
  "sample_aggregation = \<lparr>aq_active_finalizer_policy = sample_policy, aq_pending_finalizer_policy = None,
     aq_active_policy_sig = (case agg_of_policy sample_bls_api sample_policy of Inr a \<Rightarrow> a), aq_pending_policy_sig = None\<rparr>"

definition sample_node :: "digest_type \<Rightarrow> block_num_type \<Rightarrow> block_id_type \<Rightarrow> block_state" where
  "sample_node d num prev =
     \<lparr>bs_bhs = sample_genesis\<lparr>bhs_block_id := embed_block_num d num, bhs_header := (bhs_header sample_genesis)\<lparr>bh_previous := prev\<rparr>\<rparr>,
      bs_block = None, bs_strong_digest = d, bs_weak_digest = [], bs_aggregating_qc = sample_aggregation, bs_valid = None,
      bs_validated = True, bs_action_mroot = sha256_zero, bs_base_digest = None\<rparr>"

definition sample_root :: block_state where
  "sample_root = sample_node sha256_zero 2 (embed_block_num sha256_zero 1)"

definition sample_fork_db :: fork_db where
  "sample_fork_db = \<lparr>fd_root = Some sample_root, fd_pending_savanna_lib_id = sha256_zero,
     fd_index = [sample_node (Sha256 0 0 0 1) 3 (bs_id sample_root), sample_node (Sha256 0 0 0 2) 3 (bs_id sample_root),
       sample_node (Sha256 0 0 0 1) 4 (embed_block_num (Sha256 0 0 0 1) 3)]\<rparr>"

lemma sample_node_simps [simp]:
  "bs_id (sample_node d num prev) = embed_block_num d num" "bs_previous (sample_node d num prev) = prev"
  "bs_block_num (sample_node d num prev) = num_from_id prev + 1"
  by (simp_all add: sample_node_def bs_id_def bs_previous_def bs_block_num_def bhs_block_num_def)

lemma sample_root_simps [simp]: "bs_id sample_root = embed_block_num sha256_zero 2" "bs_block_num sample_root = 2"
  by (simp_all add: sample_root_def)

lemma sample_ids: "embed_block_num (Sha256 a b c d) n = embed_block_num (Sha256 a' b' c' d') m \<Longrightarrow> n = m \<and> b = b' \<and> c = c' \<and> d = d'"
  by (metis num_from_embed_block_num embed_block_num_def sha256.inject sha256.sel(2-4))

lemma sample_fork_db_tree: "tree_inv sample_fork_db sample_root"
proof -
  have "embed_block_num (Sha256 0 0 0 1) 3 \<noteq> embed_block_num (Sha256 0 0 0 2) 3"
    by (auto dest: sample_ids)
  moreover have "embed_block_num d n \<noteq> embed_block_num d' m" if "n \<noteq> m" for d d' n m
    using that by (metis num_from_embed_block_num)
  ultimately show ?thesis by (simp add: tree_inv_def sample_fork_db_def numbered_def)
qed

theorem fetch_branch_from_terminates_witness:
  "\<exists>xs ys. fetch_branch_from_impl sample_fork_db (embed_block_num (Sha256 0 0 0 1) 4) (embed_block_num (Sha256 0 0 0 2) 3) = Some (Inr (xs, ys)) \<and>
     set xs \<inter> set ys = {}"
  using fetch_branch_from_terminates [OF sample_fork_db_tree, of "embed_block_num (Sha256 0 0 0 1) 4" "embed_block_num (Sha256 0 0 0 2) 3"]
  by (auto simp: sample_fork_db_def)

end
