(* ===== verification/Fork_Updates.thy ===== *)
theory Fork_Updates
  imports Fork_Tree
begin

text \<open>
  The updates of the fork database keep the tree: removing a block removes exactly the blocks built on
  it, advancing the root keeps exactly the blocks built on the new root, and adding a block reports
  how the best branch changed.
\<close>

section \<open>Removing a subtree\<close>

lemma anc_ids_unfold:
  assumes "list_all numbered idx"
  shows "anc_ids idx h = (case index_find idx h of None \<Rightarrow> [h] | Some b \<Rightarrow> h # anc_ids idx (bs_previous b))"
  unfolding anc_ids_def by (subst branch_unfold [OF assms]) (simp split: option.split)

text \<open>The queue ends: every block is replaced by blocks with a higher number.\<close>

definition queue_weight :: "block_state list \<Rightarrow> block_id_type \<Rightarrow> nat" where
  "queue_weight idx h = (length idx + 1) ^ (2 ^ 32 - unat (num_from_id h))"

lemma children_weight:
  assumes "list_all numbered idx"
  shows "sum_list (map (queue_weight idx) (map bs_id (children idx h))) < queue_weight idx h"
proof (cases "children idx h = []")
  case False
  then obtain c0 where c0: "c0 \<in> set (children idx h)" by (cases "children idx h") auto
  let ?N = "length idx + 1" and ?e = "2 ^ 32 - (unat (num_from_id h) + 1)"
  have bound: "unat (bs_block_num c0) < 2 ^ 32" using unsigned_less [of "bs_block_num c0"] by simp
  have lt: "unat (num_from_id h) + 1 < 2 ^ 32"
    using c0 assms bound by (auto simp: children_def list_all_iff numbered_def)
  have "queue_weight idx (bs_id c) = ?N ^ ?e" if "c \<in> set (children idx h)" for c
    using that assms by (auto simp: children_def list_all_iff numbered_def queue_weight_def)
  then have "map (queue_weight idx) (map bs_id (children idx h)) = map (\<lambda>_. ?N ^ ?e) (children idx h)"
    unfolding map_map by (intro map_cong) simp_all
  then have "sum_list (map (queue_weight idx) (map bs_id (children idx h))) = length (children idx h) * ?N ^ ?e"
    by (metis sum_list_triv of_nat_id)
  also have "\<dots> < ?N * ?N ^ ?e" by (intro mult_less_mono1) (simp_all add: children_def less_Suc_eq_le)
  also have "\<dots> = queue_weight idx h"
  proof -
    have "2 ^ 32 - unat (num_from_id h) = Suc ?e" using lt by simp
    then show ?thesis by (simp add: queue_weight_def del: diff_Suc_Suc)
  qed
  finally show ?thesis .
qed (simp add: queue_weight_def)

text \<open>A set of identifiers that the queue has to reach: closed under children.\<close>

lemma anc_ids_Some: "list_all numbered idx \<Longrightarrow> index_find idx h = Some b \<Longrightarrow> anc_ids idx h = h # anc_ids idx (bs_previous b)"
  by (simp add: anc_ids_unfold [of idx h])

lemma anc_ids_None: "index_find idx h = None \<Longrightarrow> anc_ids idx h = [h]"
  by (simp add: anc_ids_def branch_None)

lemma anc_ids_trans:
  assumes "list_all numbered idx" and "t \<in> set (anc_ids idx x)"
  shows "set (anc_ids idx t) \<subseteq> set (anc_ids idx x)"
  using assms
proof (induction x rule: branch_induct)
  case (some h b)
  then show ?case using anc_ids_Some [OF assms(1) some(1)] by (cases "t = h") auto
qed (simp add: anc_ids_None)

lemma anc_ids_step:
  assumes "list_all numbered idx" and "t \<in> set (anc_ids idx x)" and "index_find idx t = Some c"
  shows "bs_previous c \<in> set (anc_ids idx x)"
  using anc_ids_trans [OF assms(1,2)] anc_ids_Some [OF assms(1,3)] by (auto simp: anc_ids_def)

lemma branch_in_anc:
  assumes "list_all numbered idx" and "b \<in> set (branch idx h)"
  shows "bs_id b \<in> set (anc_ids idx h)"
  using assms
proof (induction h rule: branch_induct)
  case (some h c)
  then show ?case using anc_ids_Some [OF assms(1) some(1)] index_find_Some [OF some(1)] branch_unfold [OF assms(1), of h] by auto
qed (simp add: branch_None)

lemma anc_ids_self [simp]: "h \<in> set (anc_ids idx h)"
  by (simp add: anc_ids_def)

lemma remove_queue_result:
  assumes num: "list_all numbered idx"
    and dist: "distinct (map bs_id idx)"
    and "\<And>x c. x \<in> set done \<Longrightarrow> c \<in> set (children idx x) \<Longrightarrow> bs_id c \<in> set done \<union> set todo"
  shows "\<exists>q. remove_queue idx done todo = Some q \<and> set done \<union> set todo \<subseteq> set q \<and>
    (\<forall>x c. x \<in> set q \<longrightarrow> c \<in> set (children idx x) \<longrightarrow> bs_id c \<in> set q) \<and>
    (\<forall>x \<in> set q. x \<in> set done \<or> (\<exists>t \<in> set todo. t \<in> set (anc_ids idx x)))"
  using assms(3)
proof (induction "sum_list (map (queue_weight idx) todo)" arbitrary: "done" todo rule: less_induct)
  case less
  show ?case
  proof (cases todo)
    case Nil
    with less.prems show ?thesis by (subst remove_queue.simps) auto
  next
    case (Cons h hs)
    let ?todo = "hs @ map bs_id (children idx h)"
    have lt: "sum_list (map (queue_weight idx) ?todo) < sum_list (map (queue_weight idx) todo)"
      using children_weight [OF num, of h] Cons by simp
    have closed: "bs_id c \<in> set (done @ [h]) \<union> set ?todo" if "x \<in> set (done @ [h])" "c \<in> set (children idx x)" for x c
      using that less.prems [of x c] Cons by auto
    from less.hyps [OF lt, of "done @ [h]"] closed obtain q where q: "remove_queue idx (done @ [h]) ?todo = Some q"
      "set (done @ [h]) \<union> set ?todo \<subseteq> set q" "\<forall>x c. x \<in> set q \<longrightarrow> c \<in> set (children idx x) \<longrightarrow> bs_id c \<in> set q"
      "\<forall>x \<in> set q. x \<in> set (done @ [h]) \<or> (\<exists>t \<in> set ?todo. t \<in> set (anc_ids idx x))" by metis
    have "x \<in> set done \<or> (\<exists>t \<in> set todo. t \<in> set (anc_ids idx x))" if "x \<in> set q" for x
    proof -
      have "h \<in> set (anc_ids idx x)" if "c \<in> set (children idx h)" "bs_id c \<in> set (anc_ids idx x)" for c
        using anc_ids_step [OF num that(2) index_find_distinct [OF dist]] that(1) by (auto simp: children_def)
      with q(4) that Cons show ?thesis by auto
    qed
    with q Cons show ?thesis by (subst remove_queue.simps) auto
  qed
qed

lemma fold_index_erase: "fold index_erase q idx = filter (\<lambda>b. bs_id b \<notin> set q) idx"
  by (induction q arbitrary: idx) (auto simp: index_erase_def intro: filter_cong)

definition built_on :: "block_state list \<Rightarrow> block_id_type \<Rightarrow> block_state \<Rightarrow> bool" where
  "built_on idx h b \<longleftrightarrow> h \<in> set (anc_ids idx (bs_id b))"

lemma remove_impl_eq:
  assumes num: "list_all numbered (fd_index db)" and dist: "distinct (map bs_id (fd_index db))"
  shows "remove_impl db h = Some (db\<lparr>fd_index := filter (\<lambda>b. \<not> built_on (fd_index db) h b) (fd_index db)\<rparr>)"
proof -
  let ?I = "fd_index db"
  from remove_queue_result [OF num dist, of "[]" "[h]"] obtain q where q: "remove_queue ?I [] [h] = Some q" "h \<in> set q"
    "\<forall>x c. x \<in> set q \<longrightarrow> c \<in> set (children ?I x) \<longrightarrow> bs_id c \<in> set q" "\<forall>x \<in> set q. h \<in> set (anc_ids ?I x)" by auto
  have "x \<in> set q" if "h \<in> set (anc_ids ?I x)" for x
    using num that
  proof (induction x rule: branch_induct)
    case (none x)
    with q(2) show ?case by (simp add: anc_ids_def branch_None)
  next
    case (some x b)
    from some(1) index_find_Some [OF some(1)] have b: "b \<in> set (children ?I (bs_previous b))" "bs_id b = x" by (auto simp: children_def)
    from some anc_ids_unfold [OF num, of x] have "x = h \<or> bs_previous b \<in> set q" by auto
    with b q(2,3) show ?case by blast
  qed
  with q(4) have "bs_id b \<in> set q \<longleftrightarrow> built_on ?I h b" for b by (auto simp: built_on_def)
  with q(1) show ?thesis by (simp add: remove_impl_def fold_index_erase)
qed

lemma branch_filter:
  assumes num: "list_all numbered idx" and "distinct (map bs_id idx)" and "\<forall>b \<in> set (branch idx h). P b"
  shows "branch (filter P idx) h = branch idx h"
  using num assms(3)
proof (induction h rule: branch_induct)
  case (none h)
  then have "index_find (filter P idx) h = None" by (auto simp: index_find_None)
  with none show ?case by (simp add: branch_None)
next
  case (some h b)
  have num': "list_all numbered (filter P idx)" using num by (simp add: list_all_iff)
  have b: "b \<in> set idx" "bs_id b = h" using index_find_Some [OF some(1)] by simp_all
  from some branch_unfold [OF num, of h] have P: "P b" "\<forall>b \<in> set (branch idx (bs_previous b)). P b" by auto
  have "distinct (map bs_id (filter P idx))" using assms(2) by (simp add: distinct_map_filter)
  from index_find_distinct [OF this, of b] b P(1) have "index_find (filter P idx) h = Some b" by simp
  with some P(2) show ?case by (simp add: branch_unfold [OF num', of h] branch_unfold [OF num, of h])
qed

lemma anc_ids_remove:
  assumes "list_all numbered idx" and "distinct (map bs_id idx)" and "h \<notin> set (anc_ids idx g)"
  shows "anc_ids (filter (\<lambda>b. \<not> built_on idx h b) idx) g = anc_ids idx g"
proof -
  have "\<not> built_on idx h b" if "b \<in> set (branch idx g)" for b
  proof
    assume "built_on idx h b"
    from anc_ids_trans [OF assms(1) branch_in_anc [OF assms(1) that]]
    \<open>built_on idx h b\<close> assms(3) show False by (auto simp: built_on_def)
  qed
  with branch_filter [OF assms(1,2), of g "\<lambda>b. \<not> built_on idx h b"] show ?thesis by (simp add: anc_ids_def)
qed

lemma remove_all_eq:
  assumes "list_all numbered (fd_index db)" and "distinct (map bs_id (fd_index db))"
  shows "remove_all db hs = Some (db\<lparr>fd_index := filter (\<lambda>b. \<forall>h \<in> set hs. \<not> built_on (fd_index db) h b) (fd_index db)\<rparr>)"
  using assms
proof (induction hs arbitrary: db)
  case (Cons h hs)
  let ?I = "fd_index db" and ?J = "filter (\<lambda>b. \<not> built_on (fd_index db) h b) (fd_index db)"
  have J: "list_all numbered ?J" "distinct (map bs_id ?J)" using Cons.prems by (simp_all add: list_all_iff distinct_map_filter)
  have "built_on ?J g b \<longleftrightarrow> built_on ?I g b" if "\<not> built_on ?I h b" for g b
    using anc_ids_remove [OF Cons.prems, of h "bs_id b"] that by (simp add: built_on_def)
  then have "filter (\<lambda>b. \<forall>g \<in> set hs. \<not> built_on ?J g b) ?J = filter (\<lambda>b. \<forall>g \<in> set (h # hs). \<not> built_on ?I g b) ?I"
    by (auto intro: filter_cong)
  with Cons.IH [of "db\<lparr>fd_index := ?J\<rparr>"] J show ?case by (simp add: remove_impl_eq [OF Cons.prems])
qed simp

section \<open>Advancing the root\<close>

text \<open>Block numbers increase from the end of a branch on.\<close>

lemma anc_ids_num:
  assumes "list_all numbered idx" and "x \<in> set (map bs_previous (branch idx g))"
  shows "unat (num_from_id x) < unat (num_from_id g)"
  using assms
proof (induction g rule: branch_induct)
  case (some h b)
  then have "unat (num_from_id (bs_previous b)) < unat (num_from_id h)" using index_find_Some [OF some(1)] by (auto simp: numbered_def)
  with some branch_unfold [OF assms(1), of h] show ?case by auto
qed (simp add: branch_None)

lemma anc_ids_end:
  assumes "list_all numbered idx" and "index_find idx h = None" and "h \<in> set (anc_ids idx g)" and "x \<in> set (anc_ids idx g)"
  shows "unat (num_from_id h) \<le> unat (num_from_id x)"
  using assms(1,3,4)
proof (induction g arbitrary: x rule: branch_induct)
  case (some g b)
  note u = anc_ids_Some [OF assms(1) some(1)]
  from some assms(2) have h: "h \<in> set (anc_ids idx (bs_previous b))" by (auto simp: u)
  with some have "x \<noteq> g \<Longrightarrow> ?case" by (simp add: u)
  moreover have "unat (num_from_id h) \<le> unat (num_from_id (bs_previous b))" using some(3) [OF h anc_ids_self] .
  moreover have "unat (num_from_id (bs_previous b)) < unat (num_from_id g)" using index_find_Some [OF some(1)] some(2) by (auto simp: numbered_def)
  ultimately show ?case by (cases "x = g") auto
qed (simp add: anc_ids_None)

lemma anc_ids_erase:
  assumes "list_all numbered idx" and "distinct (map bs_id idx)"
  shows "h \<in> set (anc_ids (index_erase h idx) g) \<longleftrightarrow> h \<in> set (anc_ids idx g)"
    and "h \<notin> set (anc_ids idx g) \<Longrightarrow> anc_ids (index_erase h idx) g = anc_ids idx g"
proof -
  let ?J = "index_erase h idx"
  have J: "list_all numbered ?J" using assms(1) by (simp add: index_erase_def list_all_iff)
  show keep: "anc_ids ?J g = anc_ids idx g" if "h \<notin> set (anc_ids idx g)"
  proof -
    have "bs_id b \<noteq> h" if "b \<in> set (branch idx g)" for b using branch_in_anc [OF assms(1) that] \<open>h \<notin> _\<close> by auto
    then show ?thesis using branch_filter [OF assms, of g "\<lambda>b. bs_id b \<noteq> h"] by (simp add: anc_ids_def index_erase_def)
  qed
  have "h \<in> set (anc_ids ?J g)" if "h \<in> set (anc_ids idx g)"
    using assms(1) that
  proof (induction g rule: branch_induct)
    case (none g)
    then show ?case by (simp add: anc_ids_None)
  next
    case (some g b)
    have "index_find ?J g = Some b" if "g \<noteq> h"
      using index_find_distinct [of ?J b] index_find_Some [OF some(1)] that assms(2) by (auto simp: index_erase_def distinct_map_filter)
    with some anc_ids_Some [OF assms(1) some(1)] anc_ids_Some [OF J, of g b] show ?case by (cases "g = h") auto
  qed
  with keep show "h \<in> set (anc_ids ?J g) \<longleftrightarrow> h \<in> set (anc_ids idx g)" by metis
qed

text \<open>Below the end of its branch, a block of a tree is built on the root.\<close>

lemma anc_ids_root:
  assumes "tree_inv db r" and "b \<in> set (fd_index db)"
  shows "bs_id r \<in> set (map bs_previous (path db b))" and "last (map bs_previous (path db b)) = bs_id r" and "path db b \<noteq> []"
proof -
  have p: "path db b = b # branch (fd_index db) (bs_previous b)" using path_block [OF assms] .
  then show ne: "path db b \<noteq> []" by simp
  have "linked_to h bs g \<Longrightarrow> bs \<noteq> [] \<Longrightarrow> last (map bs_previous bs) = g" for h bs g
    by (induction bs arbitrary: h) auto
  then show l: "last (map bs_previous (path db b)) = bs_id r"
    using branch_linked [OF assms(1), of "bs_id b"] assms(2) ne by blast
  with ne show "bs_id r \<in> set (map bs_previous (path db b))" by (metis last_in_set map_is_Nil_conv)
qed

lemma blocks_to_remove_eq:
  assumes "tree_inv db r" and "b \<in> set (fd_index db)"
  shows "blocks_to_remove db r b = Some (Inr (map bs_previous (path db b)))"
  using anc_ids_root [OF assms]
  by (simp add: blocks_to_remove_def walk_eq [OF tree_invD(3) [OF assms(1)]] run_collect fold_snoc_map)

definition strictly_above :: "fork_db \<Rightarrow> block_id_type \<Rightarrow> block_state \<Rightarrow> bool" where
  "strictly_above db h b \<longleftrightarrow> h \<in> set (map bs_previous (path db b))"

lemma advance_root_survivors:
  assumes tree: "tree_inv db r" and n: "n \<in> set (fd_index db)" and b: "b \<in> set (fd_index db)"
  shows "bs_id b \<noteq> bs_id n \<and> (\<forall>h \<in> set (map bs_previous (path db n)). \<not> built_on (index_erase (bs_id n) (fd_index db)) h b) \<longleftrightarrow>
    strictly_above db (bs_id n) b"
proof -
  let ?I = "fd_index db" and ?J = "index_erase (bs_id n) (fd_index db)"
  note num = tree_invD(3) [OF tree] and dist = tree_invD(4) [OF tree]
  have J: "list_all numbered ?J" using num by (simp add: index_erase_def list_all_iff)
  have none: "index_find ?J (bs_id n) = None" by (auto simp: index_find_None index_erase_def)
  have anc: "set (anc_ids ?I (bs_id b)) = insert (bs_id b) (set (map bs_previous (path db b)))" by (simp add: anc_ids_def)
  show ?thesis
  proof (cases "bs_id n \<in> set (anc_ids ?I (bs_id b))")
    case False
    have "built_on ?J (bs_id r) b" using anc_ids_root(1) [OF tree b] by (simp add: built_on_def anc_ids_erase(2) [OF num dist False] anc)
    with anc_ids_root(1) [OF tree n] False anc show ?thesis unfolding strictly_above_def by blast
  next
    case True
    then have J': "bs_id n \<in> set (anc_ids ?J (bs_id b))" using anc_ids_erase(1) [OF num dist] by simp
    have "\<not> built_on ?J h b" if "h \<in> set (map bs_previous (path db n))" for h
      using anc_ids_end [OF J none J', of h] anc_ids_num [OF num that] unfolding built_on_def by fastforce
    moreover have "bs_id n \<notin> set (map bs_previous (path db b))" if "bs_id b = bs_id n"
      using anc_ids_num [OF num, of "bs_id n" "bs_id b"] that by auto
    ultimately show ?thesis using True unfolding strictly_above_def anc insert_iff by metis
  qed
qed

lemma advance_root_eq:
  assumes tree: "tree_inv db r"
  shows "advance_root_impl db h = Some (case index_find (fd_index db) h of
      Some n \<Rightarrow> if bs_validated n then Inr (db\<lparr>fd_root := Some n, fd_index := filter (strictly_above db h) (fd_index db)\<rparr>) else Inl Fork_database_exception
    | None \<Rightarrow> Inl Fork_database_exception)"
proof (cases "index_find (fd_index db) h")
  case None
  then show ?thesis by (simp add: advance_root_impl_def tree_invD(1) [OF tree] get_block_impl_def)
next
  case (Some n)
  let ?I = "fd_index db" and ?J = "index_erase h (fd_index db)"
  from index_find_Some [OF Some] have n: "n \<in> set ?I" "bs_id n = h" by simp_all
  have J: "list_all numbered ?J" "distinct (map bs_id ?J)"
    using tree_invD(3,4) [OF tree] by (simp_all add: index_erase_def list_all_iff distinct_map_filter)
  have "filter (\<lambda>b. \<forall>g \<in> set (map bs_previous (path db n)). \<not> built_on ?J g b) ?J = filter (strictly_above db h) ?I"
    using advance_root_survivors [OF tree n(1)] n(2) by (auto simp: index_erase_def intro!: filter_cong)
  with remove_all_eq [of "db\<lparr>fd_index := ?J\<rparr>" "map bs_previous (path db n)"] J show ?thesis
    by (simp add: advance_root_impl_def tree_invD(1) [OF tree] get_block_impl_def Some blocks_to_remove_eq [OF tree n(1)])
qed

lemma advance_root_tree:
  assumes tree: "tree_inv db r" and n: "index_find (fd_index db) h = Some n"
  shows "tree_inv (db\<lparr>fd_root := Some n, fd_index := filter (strictly_above db h) (fd_index db)\<rparr>) n"
proof -
  from index_find_Some [OF n] have m: "n \<in> set (fd_index db)" "bs_id n = h" by simp_all
  note num = tree_invD(3) [OF tree]
  have "\<not> strictly_above db h b" if "bs_id b = h" for b
    using anc_ids_num [OF num, of h h] that by (auto simp: strictly_above_def)
  moreover have "bs_previous b \<noteq> h \<Longrightarrow> \<exists>c \<in> set (fd_index db). strictly_above db h c \<and> bs_id c = bs_previous b"
    if "b \<in> set (fd_index db)" "strictly_above db h b" for b
  proof -
    assume ne: "bs_previous b \<noteq> h"
    with that path_block [OF tree that(1)] have a: "h \<in> set (map bs_previous (branch (fd_index db) (bs_previous b)))"
      by (auto simp: strictly_above_def)
    then obtain c where "index_find (fd_index db) (bs_previous b) = Some c" using branch_None [of "fd_index db" "bs_previous b"] by fastforce
    with a index_find_Some [OF this] show ?thesis by (intro bexI [of _ c]) (auto simp: strictly_above_def)
  qed
  ultimately have "bs_id n \<notin> bs_id ` set (filter (strictly_above db h) (fd_index db))"
    "\<forall>b \<in> set (filter (strictly_above db h) (fd_index db)). bs_previous b = bs_id n \<or>
      bs_previous b \<in> bs_id ` set (filter (strictly_above db h) (fd_index db))" using m(2) by (auto simp: image_iff) metis
  moreover have "numbered n" using m(1) num by (simp add: list_all_iff)
  ultimately show ?thesis using num tree_invD(4) [OF tree]
    by (simp add: tree_inv_def list_all_iff distinct_map_filter numbered_def)
qed

section \<open>Every operation keeps the tree\<close>

text \<open>Removing a set of blocks that is closed under building on its members leaves a tree.\<close>

lemma filter_tree:
  assumes "tree_inv db r" and "\<And>b c. b \<in> set (fd_index db) \<Longrightarrow> P b \<Longrightarrow> c \<in> set (fd_index db) \<Longrightarrow> bs_id c = bs_previous b \<Longrightarrow> P c"
  shows "tree_inv (db\<lparr>fd_index := filter P (fd_index db)\<rparr>) r"
proof -
  have "bs_previous b \<in> bs_id ` set (filter P (fd_index db))" if "b \<in> set (fd_index db)" "P b" "bs_previous b \<noteq> bs_id r" for b
  proof -
    from tree_invD(6) [OF assms(1) that(1,3)] obtain c where "c \<in> set (fd_index db)" "bs_id c = bs_previous b" by auto
    with assms(2) [OF that(1,2) this] show ?thesis by (intro image_eqI [of _ _ c]) simp_all
  qed
  with assms(1) show ?thesis by (auto simp: tree_inv_def list_all_iff distinct_map_filter)
qed

lemma remove_tree:
  assumes tree: "tree_inv db r"
  shows "\<exists>db'. remove_impl db h = Some db' \<and> tree_inv db' r"
proof -
  note num = tree_invD(3) [OF tree]
  have "\<not> built_on (fd_index db) h c"
    if "b \<in> set (fd_index db)" "\<not> built_on (fd_index db) h b" "c \<in> set (fd_index db)" "bs_id c = bs_previous b" for b c
    using that anc_ids_Some [OF num index_find_distinct [OF tree_invD(4) [OF tree] that(1)]] by (simp add: built_on_def)
  from filter_tree [OF tree, of "\<lambda>b. \<not> built_on (fd_index db) h b", OF this]
  show ?thesis by (simp add: remove_impl_eq [OF num tree_invD(4) [OF tree]])
qed

lemma remove_num_tree: "tree_inv db r \<Longrightarrow> tree_inv (remove_num_impl db num) r"
  unfolding remove_num_impl_def
proof (rule filter_tree)
  fix b c assume "tree_inv db r" "b \<in> set (fd_index db)" "\<not> num \<le> bs_block_num b" "c \<in> set (fd_index db)" "bs_id c = bs_previous b"
  moreover from this have "numbered b" "numbered c" by (auto dest: tree_invD(3) simp: list_all_iff)
  ultimately show "\<not> num \<le> bs_block_num c" by (auto simp: numbered_def word_le_nat_alt)
qed

lemma tree_pending: "tree_inv (db\<lparr>fd_pending_savanna_lib_id := h\<rparr>) r \<longleftrightarrow> tree_inv db r"
  by (simp add: tree_inv_def)

lemma search_on_branch_total:
  assumes "tree_inv db r"
  shows "\<exists>y. search_on_branch_impl db h num include_root = Some y"
proof (cases "run_body (\<lambda>b _. if bs_block_num b = num then Inr b else Inl ()) (branch (fd_index db) h) ()")
qed (simp_all add: search_on_branch_impl_def walk_eq [OF tree_invD(3) [OF assms]] tree_invD(1) [OF assms])

lemma note_strong_claim_result:
  assumes "tree_inv db r"
  shows "\<exists>x. note_strong_claim db n = Some x \<and> (\<forall>db'. x = Inr db' \<longrightarrow>
    (\<exists>h. db' = db\<lparr>fd_pending_savanna_lib_id := h\<rparr> \<and> num_from_id (fd_pending_savanna_lib_id db) \<le> num_from_id h))"
proof -
  obtain y where y: "search_on_branch_impl db (bs_previous n) (claim_block_num (extract_qc_claim n)) False = Some y"
    using search_on_branch_total [OF assms] by blast
  have same: "\<exists>h. db = db\<lparr>fd_pending_savanna_lib_id := h\<rparr> \<and> num_from_id (fd_pending_savanna_lib_id db) \<le> num_from_id h"
    by (intro exI [of _ "fd_pending_savanna_lib_id db"]) simp
  have set: "\<exists>h. snd (set_pending_savanna_lib_id_impl db g) = db\<lparr>fd_pending_savanna_lib_id := h\<rparr> \<and> num_from_id (fd_pending_savanna_lib_id db) \<le> num_from_id h" for g
    using same by (auto simp: set_pending_savanna_lib_id_impl_def intro!: exI [of _ g])
  show ?thesis
  proof (cases y)
    case None
    then show ?thesis using same by (simp add: note_strong_claim_def y Let_def)
  next
    case (Some c)
    then show ?thesis using same set by (auto simp: note_strong_claim_def y Let_def rbind_Inr_iff)
  qed
qed

lemma get_block_in_tree:
  assumes "tree_inv db r" and "get_block_impl db h True = Some p"
  shows "in_tree db r p" and "bs_id p = h"
  using assms(2) index_find_Some [of "fd_index db" h p]
  by (auto simp: get_block_impl_def tree_invD(1) [OF assms(1)] in_tree_def split: if_splits)

lemma insert_tree:
  assumes tree: "tree_inv db r" and "numbered n" and p: "get_block_impl db (bs_previous n) True = Some p"
    and "\<not> block_exists_impl db (bs_id n)"
  shows "tree_inv (db\<lparr>fd_index := fd_index db @ [n]\<rparr>) r"
proof -
  note q = get_block_in_tree [OF tree p]
  have "unat (bs_block_num r) \<le> unat (bs_block_num p)" using in_tree_num [OF tree q(1)] by simp
  moreover have "num_from_id (bs_id p) = bs_block_num p"
    using q(1) tree_invD(2,3) [OF tree] by (auto simp: in_tree_def list_all_iff numbered_def)
  ultimately have "bs_id n \<noteq> bs_id r" using assms(2) tree_invD(2) [OF tree] q(2) by (auto simp: numbered_def)
  moreover have "bs_previous n = bs_id r \<or> bs_previous n \<in> bs_id ` set (fd_index db)" using q by (metis imageI in_tree_def)
  ultimately show ?thesis using assms by (auto simp: tree_inv_def block_exists_impl_def index_find_None)
qed

lemma add_result:
  assumes tree: "tree_inv db r" and "numbered n"
  shows "\<exists>x db'. add_impl validator db n ignore_duplicate validate = Some (x, db') \<and> tree_inv db' r \<and>
    num_from_id (fd_pending_savanna_lib_id db) \<le> num_from_id (fd_pending_savanna_lib_id db')"
proof -
  obtain x where x: "note_strong_claim db n = Some x"
    "\<And>db'. x = Inr db' \<Longrightarrow> \<exists>h. db' = db\<lparr>fd_pending_savanna_lib_id := h\<rparr> \<and> num_from_id (fd_pending_savanna_lib_id db) \<le> num_from_id h"
    using note_strong_claim_result [OF tree] by blast
  note root = tree_invD(1) [OF tree]
  show ?thesis
  proof (cases x)
    case (Inl e)
    with x(1) root tree show ?thesis by (simp add: add_impl_def)
  next
    case (Inr db1)
    with x(2) tree have db1: "tree_inv db1 r" "num_from_id (fd_pending_savanna_lib_id db) \<le> num_from_id (fd_pending_savanna_lib_id db1)"
      by (auto simp: tree_pending)
    have "tree_inv db2 r \<and> fd_pending_savanna_lib_id db2 = fd_pending_savanna_lib_id db1"
      if "get_block_impl db1 (bs_previous n) True = Some p" "index_insert db1 n ignore_duplicate = Inr (c, db2)" for p c db2
      using that insert_tree [OF db1(1) assms(2) that(1)] db1(1)
      by (auto simp: index_insert_def Let_def ensure_Inr_iff rbind_Inr_iff split: if_splits)
    then have step: "tree_inv db2 r \<and> fd_pending_savanna_lib_id db2 = fd_pending_savanna_lib_id db1"
      if "get_block_impl db1 (bs_previous n) True = Some p"
        "rbind (if validate then check_features validator p n else Inr ()) (\<lambda>_. index_insert db1 n ignore_duplicate) = Inr (c, db2)" for p c db2
      using that by (auto simp: rbind_Inr_iff)
    show ?thesis
    proof (cases "get_block_impl db1 (bs_previous n) True")
      case None
      with x(1) root Inr db1 show ?thesis by (simp add: add_impl_def)
    next
      case (Some p)
      show ?thesis
      proof (cases "rbind (if validate then check_features validator p n else Inr ()) (\<lambda>_. index_insert db1 n ignore_duplicate)")
        case (Inl e)
        with x(1) root \<open>x = Inr db1\<close> db1 Some show ?thesis by (simp add: add_impl_def)
      next
        case (Inr y)
        moreover obtain c db2 where "y = (c, db2)" by (cases y)
        ultimately show ?thesis using x(1) root \<open>x = Inr db1\<close> db1 Some step [OF Some, of c db2] by (simp add: add_impl_def)
      qed
    qed
  qed
qed

text \<open>The states that the operations reach, whatever blocks with consistent numbers are added.\<close>

inductive fork_db_reachable :: "fork_db \<Rightarrow> bool" where
  reset: "num_from_id (bs_id b) = bs_block_num b \<Longrightarrow> fork_db_reachable (reset_root_impl db b)"
| add: "fork_db_reachable db \<Longrightarrow> numbered n \<Longrightarrow> add_impl validator db n ignore_duplicate validate = Some (x, db') \<Longrightarrow> fork_db_reachable db'"
| remove: "fork_db_reachable db \<Longrightarrow> remove_impl db h = Some db' \<Longrightarrow> fork_db_reachable db'"
| remove_num: "fork_db_reachable db \<Longrightarrow> fork_db_reachable (remove_num_impl db num)"
| advance_root: "fork_db_reachable db \<Longrightarrow> advance_root_impl db h = Some (Inr db') \<Longrightarrow> fork_db_reachable db'"
| set_pending: "fork_db_reachable db \<Longrightarrow> fork_db_reachable (snd (set_pending_savanna_lib_id_impl db h))"

lemma advance_root_cases:
  assumes "tree_inv db r" and "advance_root_impl db h = Some (Inr db')"
  obtains n where "index_find (fd_index db) h = Some n" and "bs_validated n"
    and "db' = db\<lparr>fd_root := Some n, fd_index := filter (strictly_above db h) (fd_index db)\<rparr>"
  using assms(2) that by (auto simp: advance_root_eq [OF assms(1)] split: option.splits if_splits)

lemma reachable_tree: "fork_db_reachable db \<Longrightarrow> \<exists>r. tree_inv db r"
proof (induction rule: fork_db_reachable.induct)
  case (reset b db)
  then have "tree_inv (reset_root_impl db b) (set_valid b True)"
    by (simp add: tree_inv_def reset_root_impl_def set_valid_def bs_id_def bs_block_num_def)
  then show ?case ..
next
  case (add db n validator ignore_duplicate validate x db')
  then obtain r where "tree_inv db r" by blast
  from add_result [OF this add.hyps(2), of validator ignore_duplicate validate] add.hyps(3) show ?case by auto
next
  case (remove db h db')
  then obtain r where "tree_inv db r" by blast
  from remove_tree [OF this, of h] remove.hyps(2) show ?case by auto
next
  case (remove_num db num)
  then show ?case using remove_num_tree by blast
next
  case (advance_root db h db')
  then obtain r where r: "tree_inv db r" by blast
  from advance_root_cases [OF r advance_root.hyps(2)] advance_root_tree [OF r] show ?case by metis
next
  case (set_pending db h)
  then show ?case by (auto simp: set_pending_savanna_lib_id_impl_def tree_pending)
qed

text \<open>
  C13: The fork database stays a tree.  In every state that its operations reach, whatever blocks are
  added, the blocks have different identifiers, the branch of every block ends on the root without
  leaving the index, and every update returns: adding any block with consistent numbers, removing any
  block with all blocks built on it, and advancing the root to any identifier.  Adding a block never
  lowers the number of the pending irreversible block.
\<close>

theorem fork_db_stays_tree:
  assumes "fork_db_reachable db"
  shows "\<exists>r. fd_root db = Some r \<and> distinct (map bs_id (fd_index db)) \<and>
    (\<forall>b \<in> set (fd_index db). linked_to (bs_id b) (branch (fd_index db) (bs_id b)) (bs_id r) \<and>
      unat (bs_block_num b) = unat (bs_block_num r) + length (branch (fd_index db) (bs_id b))) \<and>
    (\<forall>h. remove_impl db h = Some (db\<lparr>fd_index := filter (\<lambda>b. h \<notin> set (anc_ids (fd_index db) (bs_id b))) (fd_index db)\<rparr>)) \<and>
    (\<forall>h. \<exists>x. advance_root_impl db h = Some x) \<and>
    (\<forall>validator n ignore_duplicate validate. numbered n \<longrightarrow> (\<exists>x db'. add_impl validator db n ignore_duplicate validate = Some (x, db') \<and>
      num_from_id (fd_pending_savanna_lib_id db) \<le> num_from_id (fd_pending_savanna_lib_id db')))"
proof -
  from reachable_tree [OF assms] obtain r where tree: "tree_inv db r" by blast
  have "linked_to (bs_id b) (path db b) (bs_id r) \<and> unat (bs_block_num b) = unat (bs_block_num r) + length (path db b)"
    if "b \<in> set (fd_index db)" for b
    using branch_linked [OF tree, of "bs_id b"] in_tree_num [OF tree, of b] that by (simp add: in_tree_def)
  moreover have "remove_impl db h = Some (db\<lparr>fd_index := filter (\<lambda>b. h \<notin> set (anc_ids (fd_index db) (bs_id b))) (fd_index db)\<rparr>)" for h
    using remove_impl_eq [OF tree_invD(3,4) [OF tree]] by (simp add: built_on_def)
  ultimately show ?thesis
    using tree_invD(1,4) [OF tree] advance_root_eq [OF tree] add_result [OF tree] by blast
qed

text \<open>
  C38: Advancing the root discards exactly the blocks that can no longer become irreversible.  In every
  state that the operations reach, the root advances exactly to a block of the index that is
  validated; then exactly the blocks whose branch passes through the new root stay, in their order,
  and everything else is removed.  For any other identifier the call fails.
\<close>

theorem advance_root_keeps_descendants:
  assumes "fork_db_reachable db"
  shows "advance_root_impl db h = Some (case index_find (fd_index db) h of
      Some n \<Rightarrow> if bs_validated n
        then Inr (db\<lparr>fd_root := Some n, fd_index := filter (\<lambda>b. h \<in> set (map bs_previous (branch (fd_index db) (bs_id b)))) (fd_index db)\<rparr>)
        else Inl Fork_database_exception
    | None \<Rightarrow> Inl Fork_database_exception)"
proof -
  from reachable_tree [OF assms] obtain r where "tree_inv db r" by blast
  from advance_root_eq [OF this] show ?thesis unfolding strictly_above_def [abs_def] .
qed

section \<open>The best branch\<close>

lemma best_less_irrefl: "\<not> best_less a a"
  by (simp add: best_less_def)

lemma best_less_trans: "best_less a b \<Longrightarrow> best_less b c \<Longrightarrow> best_less a c"
  by (auto simp: best_less_def)

lemma best_less_linear: "bs_id a \<noteq> bs_id b \<Longrightarrow> best_less a b \<or> best_less b a"
  by (auto simp: best_less_def)

definition best_in :: "block_state \<Rightarrow> block_state list \<Rightarrow> bool" where
  "best_in m bs \<longleftrightarrow> m \<in> set bs \<and> (\<forall>b \<in> set bs. b = m \<or> best_less b m)"

lemma best_in_unique: "best_in m bs \<Longrightarrow> best_in m' bs \<Longrightarrow> m = m'"
  unfolding best_in_def using best_less_trans best_less_irrefl by metis

lemma best_of_best: "distinct (map bs_id (b # bs)) \<Longrightarrow> best_in (best_of b bs) (b # bs)"
proof (induction bs arbitrary: b)
  case (Cons x xs)
  let ?m = "if best_less b x then x else b" and ?o = "if best_less b x then b else x"
  have "best_in (best_of ?m xs) (?m # xs)" using Cons.prems by (intro Cons.IH) auto
  moreover have "best_less ?o ?m" using best_less_linear [of b x] Cons.prems by auto
  moreover have "set (b # x # xs) = insert ?o (set (?m # xs))" by auto
  ultimately show ?case unfolding best_in_def using best_less_trans
    by (metis best_of.simps(2) insert_iff list.set_intros(1))
qed (simp add: best_in_def)

lemma head_best:
  assumes "distinct (map bs_id (fd_index db))" and "fd_index db \<noteq> []"
  shows "\<exists>m. head_impl db include_root = Some m \<and> best_in m (fd_index db)"
  using assms best_of_best [of "hd (fd_index db)" "tl (fd_index db)"] by (cases "fd_index db") (simp_all add: head_impl_def)

text \<open>
  C39: What adding a block reports is what happened to the head.  When a state that the operations reach
  accepts a new block, the index is extended by it, the head is the maximum of all blocks in the order of the best
  branch (latest certified block first, then the block's own time, then its identifier), and the result says
  that the head is the new block appended to the old head, that it is the new block on another branch, or
  that the head has not changed.  The old head is the root where the index was empty.
\<close>

theorem add_reports_best_branch:
  assumes "fork_db_reachable db" and "numbered n" and "fdb_add db n ignore_duplicate = Some (Inr x, db')" and "x \<noteq> Add_duplicate"
    and "head_impl db True = Some old"
  shows "\<exists>m. head_impl db' False = Some m \<and> fd_index db' = fd_index db @ [n] \<and> m \<in> set (fd_index db') \<and>
    (\<forall>b \<in> set (fd_index db'). b = m \<or> best_less b m) \<and>
    x = (if m = n then if bs_previous n = bs_id old then Appended_to_head else Fork_switch else Added) \<and>
    (m = n \<or> m = old)"
proof -
  from reachable_tree [OF assms(1)] obtain r where tree: "tree_inv db r" by blast
  obtain y where y: "note_strong_claim db n = Some y"
    "\<And>d. y = Inr d \<Longrightarrow> \<exists>h. d = db\<lparr>fd_pending_savanna_lib_id := h\<rparr>"
    using note_strong_claim_result [OF tree] by blast
  from assms(3) y obtain h where h: "y = Inr (db\<lparr>fd_pending_savanna_lib_id := h\<rparr>)"
    by (cases y) (auto simp: fdb_add_def add_impl_def tree_invD(1) [OF tree])
  let ?d = "db\<lparr>fd_pending_savanna_lib_id := h\<rparr>"
  from assms(3) y(1) h obtain p where p: "get_block_impl ?d (bs_previous n) True = Some p" and ins: "index_insert ?d n ignore_duplicate = Inr (x, db')"
    by (auto simp: fdb_add_def add_impl_def tree_invD(1) [OF tree] split: option.splits sum.splits prod.splits)
  have old: "head_impl ?d True = Some old" using assms(5) by (cases "fd_index db") (simp_all add: head_impl_def)
  from ins assms(4) have new: "\<not> block_exists_impl ?d (bs_id n)" and db': "db' = ?d\<lparr>fd_index := fd_index ?d @ [n]\<rparr>"
    and x: "x = (let new_head = map_option bs_id (head_impl db' False) = Some (bs_id n) in
      if new_head \<and> Some (bs_previous n) = map_option bs_id (head_impl ?d True) then Appended_to_head else if new_head then Fork_switch else Added)"
    by (auto simp: index_insert_def Let_def ensure_Inr_iff rbind_Inr_iff split: if_splits)
  have "tree_inv db' r" unfolding db' using insert_tree [OF _ assms(2) p new] tree by (simp add: tree_pending)
  note dist = tree_invD(4) [OF this]
  have idx: "fd_index db' = fd_index db @ [n]" by (simp add: db')
  obtain m where m: "head_impl db' False = Some m" "best_in m (fd_index db')" using head_best [OF dist] idx by auto
  have id: "bs_id m = bs_id n \<longleftrightarrow> m = n" using dist m(2) inj_onD [of bs_id "set (fd_index db')" m n] by (auto simp: idx best_in_def distinct_map)
  have "m = old" if "m \<noteq> n"
  proof -
    from that m(2) have ne: "m \<in> set (fd_index db)" by (auto simp: idx best_in_def)
    then obtain o' where "head_impl db True = Some o'" "best_in o' (fd_index db)" using head_best [OF tree_invD(4) [OF tree]] by fastforce
    moreover have "best_in m (fd_index db)" using m(2) ne by (auto simp: idx best_in_def)
    ultimately show ?thesis using best_in_unique assms(5) by fastforce
  qed
  with m idx id x old show ?thesis unfolding best_in_def by (simp add: Let_def)
qed

section \<open>Instances\<close>

definition sample_child :: block_state where
  "sample_child = sample_node (Sha256 0 0 0 1) 3 (bs_id sample_root)"

definition sample_empty_db :: fork_db where
  "sample_empty_db = reset_root_impl fdb_default sample_root"

lemma sample_empty_reachable: "fork_db_reachable sample_empty_db"
  unfolding sample_empty_db_def by (rule fork_db_reachable.reset) simp

lemma sample_child_numbered: "numbered sample_child"
  by (simp add: numbered_def sample_child_def)

lemma sample_child_added: "fdb_add sample_empty_db sample_child False = Some (Inr Appended_to_head, sample_empty_db\<lparr>fd_index := [sample_child]\<rparr>)"
proof -
  have "extract_qc_claim sample_child = Qc_claim 0 False"
    by (simp add: extract_qc_claim_def sample_child_def sample_node_def sample_genesis_def ext_find_def)
  moreover have "bs_latest_qc_block_timestamp sample_child = Inr 20"
    by (simp add: bs_latest_qc_block_timestamp_def sample_child_def sample_node_def sample_genesis_def create_core_for_genesis_block_def latest_qc_block_timestamp_def is_genesis_core_def)
  moreover have "bs_id (set_valid sample_root True) = bs_id sample_root" by (simp add: set_valid_def bs_id_def)
  ultimately show ?thesis
    by (simp add: fdb_add_def add_impl_def sample_empty_db_def reset_root_impl_def note_strong_claim_def index_insert_def get_block_impl_def
      block_exists_impl_def index_find_def head_impl_def sample_child_def)
qed

lemma sample_child_reachable: "fork_db_reachable (sample_empty_db\<lparr>fd_index := [sample_child]\<rparr>)"
  using fork_db_reachable.add [OF sample_empty_reachable sample_child_numbered] sample_child_added unfolding fdb_add_def by blast

theorem fork_db_stays_tree_witness:
  "linked_to (bs_id sample_child) (branch [sample_child] (bs_id sample_child)) (bs_id sample_root) \<and>
   (\<exists>x. advance_root_impl (sample_empty_db\<lparr>fd_index := [sample_child]\<rparr>) sha256_zero = Some x)"
proof -
  have "fd_root sample_empty_db = Some (set_valid sample_root True)" "bs_id (set_valid sample_root True) = bs_id sample_root"
    by (simp_all add: sample_empty_db_def reset_root_impl_def set_valid_def bs_id_def)
  with fork_db_stays_tree [OF sample_child_reachable] show ?thesis by fastforce
qed

theorem advance_root_keeps_descendants_witness:
  "\<exists>db'. advance_root_impl (sample_empty_db\<lparr>fd_index := [sample_child]\<rparr>) (bs_id sample_child) = Some (Inr db') \<and> fd_root db' = Some sample_child"
proof -
  have "bs_validated sample_child" "index_find [sample_child] (bs_id sample_child) = Some sample_child"
    by (simp_all add: sample_child_def sample_node_def index_find_def)
  with advance_root_keeps_descendants [OF sample_child_reachable, of "bs_id sample_child"] show ?thesis by simp
qed

theorem add_reports_best_branch_witness:
  "\<exists>m. head_impl (sample_empty_db\<lparr>fd_index := [sample_child]\<rparr>) False = Some m \<and> m = sample_child"
proof -
  have "head_impl sample_empty_db True = Some (set_valid sample_root True)"
    by (simp add: sample_empty_db_def reset_root_impl_def head_impl_def)
  from add_reports_best_branch [OF sample_empty_reachable sample_child_numbered sample_child_added _ this]
  show ?thesis by (auto split: if_splits)
qed

end
