(* ===== verification/Vote_Processor.thy ===== *)
theory Vote_Processor
  imports Fork_Database
begin

text \<open>
  The vote processor (\<open>vote_processor.hpp\<close>): votes from the network are aggregated into the state of the block they
  name; a vote whose block is not known yet is queued for later.  The number of votes per connection is
  limited.

  Block states are shared by pointers in the source: an update of the state of a block replaces its
  value in the fork database and in \<open>last_bsp\<close>.  The operations run one after the other; a task that
  the source posts to its thread pool is kept in \<open>vp_tasks\<close> until it runs.  The value of the clock is an input.
\<close>

section \<open>State\<close>

record queued_vote =
  qv_connection_id :: "32 word"
  qv_received :: int
  qv_msg :: vote_message

datatype vp_task = Process_vote "32 word" vote_message | Process_queued

type_synonym vote_signal_params = "32 word \<times> vote_result_t \<times> vote_message \<times> finalizer_authority option \<times> finalizer_authority option"

text \<open>The index lists the queued votes in the order of \<open>by_last_received\<close>; the missing entries of \<open>num_messages\<close> are 0.\<close>

record vote_processor_t =
  vp_index :: "queued_vote list"
  vp_last_bsp :: "block_state option"
  vp_num_messages :: "32 word \<Rightarrow> 16 word"
  vp_lib :: block_num_type
  vp_largest_known_block_num :: block_num_type
  vp_queued_votes :: "32 word"
  vp_stopped :: bool
  vp_tasks :: "vp_task list"
  vp_emitted :: "vote_signal_params list"

definition max_votes_per_connection :: "16 word" where
  "max_votes_per_connection = 2500"

text \<open>Microseconds.\<close>

definition too_old :: int where
  "too_old = 5000000"

definition vote_processor_make :: vote_processor_t where
  "vote_processor_make =
     \<lparr>vp_index = [], vp_last_bsp = None, vp_num_messages = (\<lambda>_. 0), vp_lib = 0, vp_largest_known_block_num = 0,
      vp_queued_votes = 0, vp_stopped = True, vp_tasks = [], vp_emitted = []\<rparr>"

definition qv_block_num :: "queued_vote \<Rightarrow> block_num_type" where
  "qv_block_num v = num_from_id (vm_block_id (qv_msg v))"

section \<open>Operations\<close>

definition vp_emit :: "32 word \<Rightarrow> vote_result_t \<Rightarrow> vote_message \<Rightarrow> finalizer_authority option \<Rightarrow> finalizer_authority option \<Rightarrow>
    vote_processor_t \<Rightarrow> vote_processor_t" where
  "vp_emit connection_id status msg active_auth pending_auth vp =
     (if connection_id \<noteq> 0 \<and> status \<noteq> Duplicate
      then vp\<lparr>vp_emitted := vp_emitted vp @ [(connection_id, status, msg, active_auth, pending_auth)]\<rparr> else vp)"

definition remove_connection :: "32 word \<Rightarrow> vote_processor_t \<Rightarrow> vote_processor_t" where
  "remove_connection connection_id vp = vp\<lparr>vp_index := filter (\<lambda>v. qv_connection_id v \<noteq> connection_id) (vp_index vp)\<rparr>"

definition remove_before_lib :: "vote_processor_t \<Rightarrow> vote_processor_t" where
  "remove_before_lib vp = vp\<lparr>vp_index := filter (\<lambda>v. vp_lib vp < qv_block_num v) (vp_index vp)\<rparr>"

definition remove_too_old :: "int \<Rightarrow> vote_processor_t \<Rightarrow> vote_processor_t" where
  "remove_too_old now vp = vp\<lparr>vp_index := filter (\<lambda>v. now - too_old < qv_received v) (vp_index vp)\<rparr>"

fun index_add :: "queued_vote \<Rightarrow> queued_vote list \<Rightarrow> queued_vote list" where
  "index_add v [] = [v]"
| "index_add v (x # xs) = (if qv_received v < qv_received x then v # x # xs else x # index_add v xs)"

text \<open>\<open>now1\<close> is the time of the vote, \<open>now2\<close> the one that \<open>remove_too_old\<close> reads.\<close>

definition queue_for_later :: "int \<Rightarrow> int \<Rightarrow> 32 word \<Rightarrow> vote_message \<Rightarrow> vote_processor_t \<Rightarrow> vote_processor_t" where
  "queue_for_later now1 now2 connection_id msg vp =
     (let vp1 = remove_too_old now2 (remove_before_lib vp) in
      vp1\<lparr>vp_index := index_add \<lparr>qv_connection_id = connection_id, qv_received = now1, qv_msg = msg\<rparr> (vp_index vp1)\<rparr>)"

text \<open>An update of a shared block state.\<close>

definition shared :: "block_state \<Rightarrow> block_state \<Rightarrow> block_state \<Rightarrow> block_state" where
  "shared old new b = (if b = old then new else b)"

definition share_db :: "block_state \<Rightarrow> block_state \<Rightarrow> fork_db \<Rightarrow> fork_db" where
  "share_db old new db = db\<lparr>fd_root := map_option (shared old new) (fd_root db), fd_index := map (shared old new) (fd_index db)\<rparr>"

definition share_last :: "block_state \<Rightarrow> block_state \<Rightarrow> vote_processor_t \<Rightarrow> vote_processor_t" where
  "share_last old new vp = vp\<lparr>vp_last_bsp := map_option (shared old new) (vp_last_bsp vp)\<rparr>"

text \<open>\<open>get_block\<close>; the block is fetched with \<open>fork_db.get_block\<close>.\<close>

definition vp_get_block :: "fork_db \<Rightarrow> block_id_type \<Rightarrow> vote_processor_t \<Rightarrow> block_state option \<times> vote_processor_t" where
  "vp_get_block db block_id vp =
     (let cached = (case vp_last_bsp vp of Some b \<Rightarrow> if bs_id b = block_id then Some b else None | None \<Rightarrow> None) in
      case cached of
        Some b \<Rightarrow> (Some b, vp)
      | None \<Rightarrow>
        (case get_block_impl db block_id False of
           None \<Rightarrow> (None, vp)
         | Some b \<Rightarrow> (Some b, vp\<lparr>vp_last_bsp := Some b, vp_largest_known_block_num := max (bs_block_num b) (vp_largest_known_block_num vp)\<rparr>)))"

text \<open>What is done with a vote for a known block, by both callers.\<close>

definition count_down :: "32 word \<Rightarrow> vote_processor_t \<Rightarrow> vote_processor_t" where
  "count_down connection_id vp =
     (let num = vp_num_messages vp connection_id in
      if num \<noteq> 0 then vp\<lparr>vp_num_messages := (vp_num_messages vp)(connection_id := num - 1)\<rparr> else vp)"

definition aggregate_known :: "bls_api \<Rightarrow> 32 word \<Rightarrow> vote_message \<Rightarrow> block_state \<Rightarrow> vote_processor_t \<times> fork_db \<Rightarrow> (vote_processor_t \<times> fork_db) res" where
  "aggregate_known bls connection_id msg b = (\<lambda>(vp, db).
     rbind (bs_aggregate_vote bls b msg) (\<lambda>(r, b').
     let vp1 = vp_emit connection_id (avr_result r) msg (avr_active_authority r) (avr_pending_authority r) (share_last b b' vp) in
     Inr (count_down connection_id vp1, share_db b b' db)))"

text \<open>
  The loop of \<open>process_any_queued_for_later\<close> takes the first vote of the index until the index is empty; the votes whose
  block is still unknown are collected and put back at the end.
\<close>

fun process_queue :: "bls_api \<Rightarrow> queued_vote list \<Rightarrow> queued_vote list \<Rightarrow> vote_processor_t \<times> fork_db \<Rightarrow> (queued_vote list \<times> vote_processor_t \<times> fork_db) res" where
  "process_queue bls unprocessed [] s = Inr (unprocessed, s)"
| "process_queue bls unprocessed (v # vs) (vp, db) =
     (case vp_get_block db (vm_block_id (qv_msg v)) (vp\<lparr>vp_index := vs\<rparr>) of
        (Some b, vp1) \<Rightarrow> rbind (aggregate_known bls (qv_connection_id v) (qv_msg v) b (vp1, db)) (process_queue bls unprocessed vs)
      | (None, vp1) \<Rightarrow> process_queue bls (unprocessed @ [v]) vs (vp1, db))"

definition process_any_queued_for_later :: "bls_api \<Rightarrow> int \<Rightarrow> vote_processor_t \<times> fork_db \<Rightarrow> (vote_processor_t \<times> fork_db) res" where
  "process_any_queued_for_later bls now = (\<lambda>(vp, db).
     if vp_index vp = [] then Inr (vp, db)
     else let vp1 = remove_before_lib (remove_too_old now vp) in
       if vp_stopped vp1 then Inr (vp1, db)
       else rbind (process_queue bls [] (vp_index vp1) (vp1, db)) (\<lambda>(unprocessed, vp2, db2).
         Inr (vp2\<lparr>vp_index := fold index_add unprocessed (vp_index vp2)\<rparr>, db2)))"

definition vp_start :: "nat \<Rightarrow> vote_processor_t \<Rightarrow> vote_processor_t" where
  "vp_start num_threads vp = (if num_threads = 0 then vp else vp\<lparr>vp_stopped := False\<rparr>)"

definition notify_lib :: "block_num_type \<Rightarrow> vote_processor_t \<Rightarrow> vote_processor_t" where
  "notify_lib block_num vp = vp\<lparr>vp_lib := block_num\<rparr>"

definition index_size :: "vote_processor_t \<Rightarrow> nat" where
  "index_size vp = length (vp_index vp)"

text \<open>\<open>async\<close> tells whether the work is posted to the thread pool.\<close>

definition notify_new_block :: "bls_api \<Rightarrow> bool \<Rightarrow> int \<Rightarrow> vote_processor_t \<times> fork_db \<Rightarrow> (vote_processor_t \<times> fork_db) res" where
  "notify_new_block bls async now = (\<lambda>(vp, db).
     if vp_stopped vp then Inr (vp, db)
     else if async then Inr (vp\<lparr>vp_tasks := vp_tasks vp @ [Process_queued]\<rparr>, db)
     else process_any_queued_for_later bls now (vp, db))"

text \<open>The task \<open>process_vote\<close>; \<open>count_message\<close> is its update of \<open>num_messages\<close>.\<close>

definition count_message :: "32 word \<Rightarrow> vote_processor_t \<Rightarrow> vote_processor_t" where
  "count_message connection_id vp =
     (let num = (if vp_queued_votes vp = 0 \<and> vp_index vp = [] then (\<lambda>_. 0) else vp_num_messages vp) in
      vp\<lparr>vp_num_messages := num(connection_id := num connection_id + 1)\<rparr>)"

definition process_vote :: "bls_api \<Rightarrow> int \<Rightarrow> int \<Rightarrow> 32 word \<Rightarrow> vote_message \<Rightarrow> vote_processor_t \<times> fork_db \<Rightarrow> (vote_processor_t \<times> fork_db) res" where
  "process_vote bls now1 now2 connection_id msg = (\<lambda>(vp, db).
     if vp_stopped vp then Inr (vp, db)
     else let vp1 = vp\<lparr>vp_queued_votes := vp_queued_votes vp - 1\<rparr> in
       if num_from_id (vm_block_id msg) \<le> vp_lib vp1 then Inr (vp1, db)
       else let vp2 = count_message connection_id vp1 in
         if max_votes_per_connection < vp_num_messages vp2 connection_id
         then Inr (vp_emit connection_id Max_exceeded msg None None (remove_connection connection_id vp2), db)
         else (case vp_get_block db (vm_block_id msg) vp2 of
           (None, vp3) \<Rightarrow> Inr (queue_for_later now1 now2 connection_id msg vp3, db)
         | (Some b, vp3) \<Rightarrow>
             rbind (aggregate_known bls connection_id msg b (vp3, db)) (process_any_queued_for_later bls now2)))"

definition process_vote_message :: "bls_api \<Rightarrow> bool \<Rightarrow> int \<Rightarrow> int \<Rightarrow> 32 word \<Rightarrow> vote_message \<Rightarrow> vote_processor_t \<times> fork_db \<Rightarrow>
    (vote_processor_t \<times> fork_db) res" where
  "process_vote_message bls async now1 now2 connection_id msg = (\<lambda>(vp, db).
     if vp_stopped vp then Inr (vp, db)
     else if num_from_id (vm_block_id msg) \<le> vp_lib vp then Inr (vp, db)
     else let vp1 = vp\<lparr>vp_queued_votes := vp_queued_votes vp + 1\<rparr> in
       if async then Inr (vp1\<lparr>vp_tasks := vp_tasks vp1 @ [Process_vote connection_id msg]\<rparr>, db)
       else process_vote bls now1 now2 connection_id msg (vp1, db))"

text \<open>A thread of the pool takes the next task.\<close>

definition run_task :: "bls_api \<Rightarrow> int \<Rightarrow> int \<Rightarrow> vote_processor_t \<times> fork_db \<Rightarrow> (vote_processor_t \<times> fork_db) res" where
  "run_task bls now1 now2 = (\<lambda>(vp, db).
     (case vp_tasks vp of
        [] \<Rightarrow> Inr (vp, db)
      | Process_vote connection_id msg # ts \<Rightarrow> process_vote bls now1 now2 connection_id msg (vp\<lparr>vp_tasks := ts\<rparr>, db)
      | Process_queued # ts \<Rightarrow> process_any_queued_for_later bls now1 (vp\<lparr>vp_tasks := ts\<rparr>, db)))"

end
