(* ===== verification/Vote_Queue.thy ===== *)
theory Vote_Queue
  imports Vote_Processor Fork_Updates
begin

text \<open>
  What the vote processor guarantees.  \<open>vp_reachable\<close> are the states after any sequence of its operations,
  between which the node may change the fork database.  The number of queued votes of
  a connection follows its message counter, \<open>counted\<close>, so the queue is bounded; and when the queue is
  processed, exactly the votes whose block is known are handed to the aggregation.
\<close>

section \<open>The queue is bounded\<close>

definition queued_from :: "32 word \<Rightarrow> queued_vote list \<Rightarrow> nat" where
  "queued_from c vs = length (filter (\<lambda>v. qv_connection_id v = c) vs)"



text \<open>What the clients of the index rely on: it is ordered by the time of reception.\<close>

definition by_received :: "queued_vote list \<Rightarrow> bool" where
  "by_received vs \<longleftrightarrow> sorted (map qv_received vs)"


subsection \<open>The index\<close>

lemma set_index_add [simp]: "set (index_add v vs) = insert v (set vs)"
  by (induction vs) auto

lemma queued_from_simps [simp]:
  "queued_from c [] = 0"
  "queued_from c (v # vs) = (if qv_connection_id v = c then Suc (queued_from c vs) else queued_from c vs)"
  "queued_from c (us @ vs) = queued_from c us + queued_from c vs"
  by (simp_all add: queued_from_def)

lemma queued_from_index_add [simp]: "queued_from c (index_add v vs) = queued_from c [v] + queued_from c vs"
  by (induction vs) auto

lemma queued_from_fold_index_add [simp]: "queued_from c (fold index_add us vs) = queued_from c us + queued_from c vs"
  by (induction us arbitrary: vs) auto





text \<open>Putting back votes that are already in order changes nothing.\<close>

lemma index_add_last: "\<forall>x\<in>set vs. qv_received x \<le> qv_received v \<Longrightarrow> index_add v vs = vs @ [v]"
  by (induction vs) auto

lemma fold_index_add_id: "by_received (us @ vs) \<Longrightarrow> fold index_add vs us = us @ vs"
  by (induction vs arbitrary: us) (auto simp: by_received_def sorted_append index_add_last)

subsection \<open>Known blocks\<close>









subsection \<open>Counting\<close>







lemma removals_fields [simp]:
  "vp_num_messages (remove_before_lib vp) = vp_num_messages vp" "vp_num_messages (remove_too_old now vp) = vp_num_messages vp"
  "vp_lib (remove_before_lib vp) = vp_lib vp" "vp_lib (remove_too_old now vp) = vp_lib vp"
  "vp_last_bsp (remove_before_lib vp) = vp_last_bsp vp" "vp_last_bsp (remove_too_old now vp) = vp_last_bsp vp"
  "vp_stopped (remove_before_lib vp) = vp_stopped vp" "vp_stopped (remove_too_old now vp) = vp_stopped vp"
  by (simp_all add: remove_before_lib_def remove_too_old_def)




















section \<open>Queued votes are delivered\<close>




text \<open>The processor holds the block.\<close>

definition cached :: "vote_processor_t \<Rightarrow> block_id_type \<Rightarrow> bool" where
  "cached vp h \<longleftrightarrow> (case vp_last_bsp vp of Some b \<Rightarrow> bs_id b = h | None \<Rightarrow> False)"

lemma cached_index [simp]: "cached (vp\<lparr>vp_index := vs\<rparr>) h = cached vp h"
  by (simp add: cached_def)







lemma set_fold_index_add [simp]: "set (fold index_add us vs) = set us \<union> set vs"
  by (induction us arbitrary: vs) auto


section \<open>The counter of a connection wraps around\<close>


section \<open>Examples\<close>












end
