(* ===== verification/Finalizer.thy ===== *)
theory Finalizer
  imports Block_State
begin

text \<open>
  The finalizers of a node (\<open>finalizer.hpp\<close>, \<open>finalizer.cpp\<close>): the voting rules with the safety
  information each finalizer keeps, and the safety file, which is written before votes are published.

  \<open>bls_sign\<close> is the signing function of the BLS library.  The file is its content, and the outcome of
  the calls to the file system during one save is an input.  \<open>crc\<close> is the checksum of the
  library as a function of all bytes processed since the last reset; a saved state of it is the
  list of these bytes.  Logging is left out.
\<close>

section \<open>Safety information and votes\<close>

record finalizer_safety_information =
  fsi_last_vote :: block_ref
  fsi_lock :: block_ref
  fsi_other_branch_latest_time :: block_timestamp_type

definition unset_fsi :: finalizer_safety_information where
  "unset_fsi = \<lparr>fsi_last_vote = block_ref_default, fsi_lock = block_ref_default, fsi_other_branch_latest_time = 0\<rparr>"

datatype vote_decision = No_vote | Strong_vote | Weak_vote

record vote_result =
  vr_decision :: vote_decision
  vr_safety_check :: bool
  vr_liveness_check :: bool
  vr_monotony_check :: bool

text \<open>\<open>decide_vote\<close>: the liveness and the safety check, the strength of the vote, and the whole rule.\<close>

definition lock_checks :: "finalizer_safety_information \<Rightarrow> block_state \<Rightarrow> (bool \<times> bool) res" where
  "lock_checks fsi b =
     (if \<not> ref_empty (fsi_lock fsi) then
        rbind (latest_qc_block_timestamp (bs_core b)) (\<lambda>t.
        let liveness_check = ref_timestamp (fsi_lock fsi) < t in
        if \<not> liveness_check then rbind (extends (bs_core b) (ref_block_id (fsi_lock fsi))) (\<lambda>safety_check. Inr (liveness_check, safety_check))
        else Inr (liveness_check, False))
      else Inr (False, False))"

definition vote_strength :: "finalizer_safety_information \<Rightarrow> block_state \<Rightarrow> block_timestamp_type \<Rightarrow>
    (vote_decision \<times> finalizer_safety_information) res" where
  "vote_strength fsi b t =
     (if ref_timestamp (fsi_last_vote fsi) \<le> t then Inr (Strong_vote, fsi)
      else rbind (extends (bs_core b) (ref_block_id (fsi_last_vote fsi))) (\<lambda>e.
        Inr (if e then (if fsi_other_branch_latest_time fsi \<le> t then Strong_vote else Weak_vote, fsi)
             else (Weak_vote, fsi\<lparr>fsi_other_branch_latest_time := ref_timestamp (fsi_last_vote fsi)\<rparr>))))"

definition strong_vote_lock :: "finalizer_safety_information \<Rightarrow> block_state \<Rightarrow> block_timestamp_type \<Rightarrow> finalizer_safety_information res" where
  "strong_vote_lock fsi b t =
     (let fsi1 = fsi\<lparr>fsi_other_branch_latest_time := 0\<rparr> in
      if ref_timestamp (fsi_lock fsi1) < t then
        rbind (latest_qc_claim (bs_core b)) (\<lambda>c.
        rbind (get_block_reference (bs_core b) (claim_block_num c)) (\<lambda>r. Inr (fsi1\<lparr>fsi_lock := r\<rparr>)))
      else Inr fsi1)"

definition decide_vote :: "finalizer_safety_information \<Rightarrow> block_state \<Rightarrow> (vote_result \<times> finalizer_safety_information) res" where
  "decide_vote fsi b =
     (let monotony_check = (ref_empty (fsi_last_vote fsi) \<or> ref_timestamp (fsi_last_vote fsi) < bs_timestamp b) in
      if \<not> monotony_check
      then Inr (\<lparr>vr_decision = No_vote, vr_safety_check = False, vr_liveness_check = False, vr_monotony_check = False\<rparr>, fsi)
      else rbind (lock_checks fsi b) (\<lambda>(liveness_check, safety_check).
        if liveness_check \<or> safety_check then
          rbind (latest_qc_block_timestamp (bs_core b)) (\<lambda>t.
          rbind (vote_strength fsi b t) (\<lambda>(decision, fsi1).
          rbind (if decision = Strong_vote then strong_vote_lock fsi1 b t else Inr fsi1) (\<lambda>fsi2.
          Inr (\<lparr>vr_decision = decision, vr_safety_check = safety_check, vr_liveness_check = liveness_check, vr_monotony_check = True\<rparr>,
               fsi2\<lparr>fsi_last_vote := bs_make_block_ref b\<rparr>))))
        else Inr (\<lparr>vr_decision = No_vote, vr_safety_check = safety_check, vr_liveness_check = liveness_check, vr_monotony_check = True\<rparr>, fsi)))"

definition maybe_update_fsi :: "finalizer_safety_information \<Rightarrow> block_state \<Rightarrow> (bool \<times> finalizer_safety_information) res" where
  "maybe_update_fsi fsi b =
     rbind (latest_qc_claim (bs_core b)) (\<lambda>c.
     rbind (get_block_reference (bs_core b) (claim_block_num c)) (\<lambda>r.
     Inr (if ref_timestamp (fsi_lock fsi) < ref_timestamp r \<and> ref_timestamp (fsi_last_vote fsi) < bs_timestamp b
          then (True, \<lparr>fsi_last_vote = bs_make_block_ref b, fsi_lock = r, fsi_other_branch_latest_time = 0\<rparr>)
          else (False, fsi))))"

record finalizer =
  fin_priv_key :: "64 word list"
  fin_fsi :: finalizer_safety_information

text \<open>A failure of the signing function is logged and dropped; the safety information is already updated then.\<close>

definition fin_maybe_vote :: "(64 word list \<Rightarrow> byte list \<Rightarrow> bls_signature res) \<Rightarrow> finalizer \<Rightarrow> bls_public_key \<Rightarrow> block_state \<Rightarrow> digest_type \<Rightarrow>
    (vote_message option \<times> finalizer) res" where
  "fin_maybe_vote bls_sign f pub_key b digest =
     rbind (decide_vote (fin_fsi f) b) (\<lambda>(r, fsi).
     let f' = f\<lparr>fin_fsi := fsi\<rparr>; decision = vr_decision r in
     if decision = Strong_vote \<or> decision = Weak_vote then
       (case bls_sign (fin_priv_key f) (if decision = Weak_vote then create_weak_digest digest else sha256_data digest) of
          Inl _ \<Rightarrow> Inr (None, f')
        | Inr s \<Rightarrow> Inr (Some \<lparr>vm_block_id = bs_id b, vm_strong = (decision = Strong_vote), vm_finalizer_key = pub_key, vm_sig = s\<rparr>, f'))
     else Inr (None, f'))"

definition has_voted_strong :: "finalizer_authority list \<Rightarrow> qc_sig_t \<Rightarrow> bls_public_key \<Rightarrow> bool res" where
  "has_voted_strong finalizers qc key =
     ensure (sig_is_strong qc) Assert_failed (
     case find_key key finalizers of
       None \<Rightarrow> Inr False
     | Some i \<Rightarrow> (case strong_votes qc of None \<Rightarrow> Inl Assert_failed | Some v \<Rightarrow> bs_test v i))"

section \<open>The safety file\<close>

definition fsi_magic :: "64 word" where
  "fsi_magic = 0x5AFE11115AFE1111"

definition current_safety_file_version :: "64 word" where
  "current_safety_file_version = 1"

definition pack_v0 :: "block_ref \<Rightarrow> byte list res" where
  "pack_v0 = pack_map (\<lambda>r. (ref_block_id r, ref_timestamp r, ref_finality_digest r)) (pack_pair pack_sha256 (pack_pair pack_u32 pack_sha256))"

text \<open>The generation numbers keep the value they have before the reference is read.\<close>

definition unpack_v0 :: "byte list \<Rightarrow> (block_ref \<times> byte list) res" where
  "unpack_v0 = unpack_map (\<lambda>(i, t, d). Inr (block_ref_default\<lparr>ref_block_id := i, ref_timestamp := t, ref_finality_digest := d\<rparr>))
     (unpack_pair unpack_sha256 (unpack_pair unpack_u32 unpack_sha256))"

definition pack_v1 :: "finalizer_safety_information \<Rightarrow> byte list res" where
  "pack_v1 = pack_map (\<lambda>f. (fsi_last_vote f, fsi_lock f, fsi_other_branch_latest_time f)) (pack_pair pack_v0 (pack_pair pack_v0 pack_u32))"

definition unpack_v1 :: "byte list \<Rightarrow> (finalizer_safety_information \<times> byte list) res" where
  "unpack_v1 = unpack_map (\<lambda>(v, l, t). Inr \<lparr>fsi_last_vote = v, fsi_lock = l, fsi_other_branch_latest_time = t\<rparr>)
     (unpack_pair unpack_v0 (unpack_pair unpack_v0 unpack_u32))"

text \<open>The maps are ordered by the bytes of the keys; an entry that is present is kept.\<close>

fun key_less :: "bls_public_key \<Rightarrow> bls_public_key \<Rightarrow> bool" where
  "key_less _ [] = False"
| "key_less [] (_ # _) = True"
| "key_less (a # as) (b # bs) = (a < b \<or> a = b \<and> key_less as bs)"

fun map_emplace :: "bls_public_key \<Rightarrow> 'a \<Rightarrow> (bls_public_key \<times> 'a) list \<Rightarrow> (bls_public_key \<times> 'a) list" where
  "map_emplace k v [] = [(k, v)]"
| "map_emplace k v ((k', v') # m) =
     (if k = k' then (k', v') # m else if key_less k k' then (k, v) # (k', v') # m else (k', v') # map_emplace k v m)"

record my_finalizers_t =
  mf_path_set :: bool
  mf_has_voted :: bool
  mf_open :: bool
  mf_file :: "byte list option"
  mf_finalizers :: "(bls_public_key \<times> finalizer) list"
  mf_inactive :: "(bls_public_key \<times> finalizer_safety_information) list"
  mf_default_fsi :: finalizer_safety_information
  mf_written_pos :: nat
  mf_inactive_crc :: "byte list"

definition my_finalizers_make :: "bool \<Rightarrow> byte list option \<Rightarrow> my_finalizers_t" where
  "my_finalizers_make path_set file =
     \<lparr>mf_path_set = path_set, mf_has_voted = False, mf_open = False, mf_file = file, mf_finalizers = [], mf_inactive = [],
      mf_default_fsi = unset_fsi, mf_written_pos = 0, mf_inactive_crc = []\<rparr>"

text \<open>
  The outcome of the file system calls of a save: all succeed, or the file is not opened, or writing the
  first part or the second part fails and leaves some content behind.
\<close>

datatype io_outcome = Io_ok | Io_open_error | Io_header_error "byte list" | Io_body_error "byte list"

definition overwrite :: "nat \<Rightarrow> byte list \<Rightarrow> byte list \<Rightarrow> byte list" where
  "overwrite pos new content = take pos (content @ replicate (pos - length content) 0) @ new @ drop (pos + length new) content"

definition pack_entries :: "(bls_public_key \<times> finalizer_safety_information) list \<Rightarrow> byte list res" where
  "pack_entries = pack_all (pack_pair pack_bls_public_key pack_v1)"

definition file_header :: "my_finalizers_t \<Rightarrow> byte list res" where
  "file_header m =
     rbind (pack_u64 fsi_magic) (\<lambda>magic.
     rbind (pack_u64 current_safety_file_version) (\<lambda>version.
     rbind (pack_u64 (of_nat (length (mf_finalizers m) + length (mf_inactive m)))) (\<lambda>size.
     rbind (pack_entries (mf_inactive m)) (\<lambda>inactive.
     Inr (magic @ version @ size @ inactive)))))"

definition file_body :: "(byte list \<Rightarrow> 32 word) \<Rightarrow> my_finalizers_t \<Rightarrow> byte list res" where
  "file_body crc m =
     rbind (pack_entries (map (\<lambda>(k, f). (k, fin_fsi f)) (mf_finalizers m))) (\<lambda>active.
     rbind (pack_u32 (crc (mf_inactive_crc m @ active))) (\<lambda>cs. Inr (active @ cs)))"

definition file_content :: "my_finalizers_t \<Rightarrow> byte list" where
  "file_content m = (case mf_file m of None \<Rightarrow> [] | Some c \<Rightarrow> c)"

text \<open>The two parts of a save return whether no exception was thrown.\<close>

definition save_header :: "io_outcome \<Rightarrow> my_finalizers_t \<Rightarrow> bool \<times> my_finalizers_t" where
  "save_header io m =
     (if mf_written_pos m = 0 then
        (case (io, file_header m) of
           (Io_header_error c, _) \<Rightarrow> (False, m\<lparr>mf_file := Some c\<rparr>)
         | (_, Inl _) \<Rightarrow> (False, m)
         | (_, Inr h) \<Rightarrow> (True, m\<lparr>mf_file := Some (overwrite 0 h (file_content m)), mf_written_pos := length h, mf_inactive_crc := h\<rparr>))
      else (case io of Io_header_error c \<Rightarrow> (False, m\<lparr>mf_file := Some c\<rparr>) | _ \<Rightarrow> (True, m)))"

definition save_body :: "(byte list \<Rightarrow> 32 word) \<Rightarrow> io_outcome \<Rightarrow> my_finalizers_t \<Rightarrow> bool \<times> my_finalizers_t" where
  "save_body crc io m =
     (case (io, file_body crc m) of
        (Io_body_error c, _) \<Rightarrow> (False, m\<lparr>mf_file := Some c\<rparr>)
      | (_, Inl _) \<Rightarrow> (False, m)
      | (_, Inr b) \<Rightarrow> (True, m\<lparr>mf_file := Some (overwrite (mf_written_pos m) b (file_content m))\<rparr>))"

definition save_finalizer_safety_info :: "(byte list \<Rightarrow> 32 word) \<Rightarrow> io_outcome \<Rightarrow> my_finalizers_t \<Rightarrow> bool \<times> my_finalizers_t" where
  "save_finalizer_safety_info crc io m =
     (if \<not> mf_open m \<and> (\<not> mf_path_set m \<or> io = Io_open_error) then (False, m)
      else let m1 = (if mf_open m then m else m\<lparr>mf_open := True, mf_file := Some []\<rparr>);
               (header_ok, m2) = save_header io m1 in
           if header_ok then save_body crc io m2 else (False, m2))"

text \<open>Loading: \<open>load_v0\<close> and \<open>load_v1\<close> return the map and the rest of the stream.\<close>

definition emplace_all :: "(bls_public_key \<times> 'a) list \<Rightarrow> (bls_public_key \<times> 'a) list" where
  "emplace_all es = fold (\<lambda>(k, v). map_emplace k v) es []"

definition load_v0 :: "(byte list \<Rightarrow> bool) \<Rightarrow> byte list \<Rightarrow> ((bls_public_key \<times> finalizer_safety_information) list \<times> byte list) res" where
  "load_v0 g1_ok s =
     rbind (unpack_u64 s) (\<lambda>(n, s1).
     rbind (unpack_n (unpack_pair (unpack_bls_public_key g1_ok)
       (unpack_map (\<lambda>(v, l, forked). Inr \<lparr>fsi_last_vote = v, fsi_lock = l,
          fsi_other_branch_latest_time = (if forked then ref_timestamp v else 0)\<rparr>)
        (unpack_pair unpack_v0 (unpack_pair unpack_v0 unpack_bool)))) (unat n) s1) (\<lambda>(es, s2).
     Inr (emplace_all es, s2)))"

definition load_v1 :: "(byte list \<Rightarrow> bool) \<Rightarrow> byte list \<Rightarrow> ((bls_public_key \<times> finalizer_safety_information) list \<times> byte list) res" where
  "load_v1 g1_ok s =
     rbind (unpack_u64 s) (\<lambda>(n, s1).
     rbind (unpack_n (unpack_pair (unpack_bls_public_key g1_ok) unpack_v1) (unat n) s1) (\<lambda>(es, s2).
     Inr (emplace_all es, s2)))"

definition load_file :: "(byte list \<Rightarrow> 32 word) \<Rightarrow> (byte list \<Rightarrow> bool) \<Rightarrow> byte list \<Rightarrow> (bls_public_key \<times> finalizer_safety_information) list res" where
  "load_file crc g1_ok s =
     rbind (unpack_u64 s) (\<lambda>(magic, s1).
     ensure (magic = fsi_magic) Finalizer_safety_exception (
     rbind (unpack_u64 s1) (\<lambda>(file_version, s2).
     ensure (file_version \<le> current_safety_file_version) Finalizer_safety_exception (
     if file_version = 0 then rbind (load_v0 g1_ok s2) (\<lambda>(r, _). Inr r)
     else rbind (load_v1 g1_ok s2) (\<lambda>(r, s3).
       rbind (unpack_u32 s3) (\<lambda>(cs, _).
       ensure (cs = crc (take (length s - length s3) s)) Finalizer_safety_exception (Inr r)))))))"

definition load_finalizer_safety_info :: "(byte list \<Rightarrow> 32 word) \<Rightarrow> (byte list \<Rightarrow> bool) \<Rightarrow> my_finalizers_t \<Rightarrow>
    (bls_public_key \<times> finalizer_safety_information) list res" where
  "load_finalizer_safety_info crc g1_ok m =
     ensure (mf_path_set m) Finalizer_safety_exception (
     ensure (\<not> mf_open m) Finalizer_safety_exception (
     case mf_file m of None \<Rightarrow> Inr [] | Some c \<Rightarrow> load_file crc g1_ok c))"

section \<open>The finalizers of a node\<close>

definition in_policy :: "finalizer_policy \<Rightarrow> bls_public_key \<Rightarrow> finalizer_authority option" where
  "in_policy p key = find (\<lambda>f. fa_public_key f = key) (fp_finalizers p)"

type_synonym vote_t = "vote_message \<times> finalizer_authority option \<times> finalizer_authority option"

text \<open>The first loop of \<open>maybe_vote\<close>, over the finalizers that are left.\<close>

fun accumulate_votes :: "(64 word list \<Rightarrow> byte list \<Rightarrow> bls_signature res) \<Rightarrow> block_state \<Rightarrow> (bls_public_key \<times> finalizer) list \<Rightarrow>
    (vote_t list \<times> (bls_public_key \<times> finalizer) list) res" where
  "accumulate_votes bls_sign b [] = Inr ([], [])"
| "accumulate_votes bls_sign b ((k, f) # fs) =
     (let active_auth = in_policy (bhs_active_finalizer_policy (bs_bhs b)) k;
          pending_auth = (case bhs_pending_finalizer_policy (bs_bhs b) of Some (_, p) \<Rightarrow> in_policy p k | None \<Rightarrow> None) in
      rbind (if active_auth \<noteq> None \<or> pending_auth \<noteq> None then fin_maybe_vote bls_sign f k b (bs_strong_digest b) else Inr (None, f)) (\<lambda>(v, f').
      rbind (accumulate_votes bls_sign b fs) (\<lambda>(vs, fs').
      Inr ((case v of Some m \<Rightarrow> [(m, active_auth, pending_auth)] | None \<Rightarrow> []) @ vs, (k, f') # fs'))))"

text \<open>\<open>mf_maybe_vote\<close> returns the votes that are published.\<close>

definition mf_maybe_vote :: "(64 word list \<Rightarrow> byte list \<Rightarrow> bls_signature res) \<Rightarrow> (byte list \<Rightarrow> 32 word) \<Rightarrow> io_outcome \<Rightarrow> my_finalizers_t \<Rightarrow> block_state \<Rightarrow>
    (vote_t list \<times> my_finalizers_t) res" where
  "mf_maybe_vote bls_sign crc io m b =
     (if mf_finalizers m = [] then Inr ([], m)
      else rbind (accumulate_votes bls_sign b (mf_finalizers m)) (\<lambda>(votes, fs).
        let m1 = m\<lparr>mf_finalizers := fs\<rparr> in
        if votes = [] then Inr ([], m1)
        else let (saved, m2) = save_finalizer_safety_info crc io (m1\<lparr>mf_has_voted := True\<rparr>) in
          Inr (if saved then votes else [], m2)))"

fun update_fsis :: "block_state \<Rightarrow> qc_t \<Rightarrow> (bls_public_key \<times> finalizer) list \<Rightarrow> (bool \<times> (bls_public_key \<times> finalizer) list) res" where
  "update_fsis b qc [] = Inr (False, [])"
| "update_fsis b qc ((k, f) # fs) =
     rbind (has_voted_strong (fp_finalizers (bhs_active_finalizer_policy (bs_bhs b))) (active_policy_sig qc) k) (\<lambda>a.
     rbind (if a then Inr True
            else case (bhs_pending_finalizer_policy (bs_bhs b), pending_policy_sig qc) of
              (Some (_, p), Some s) \<Rightarrow> has_voted_strong (fp_finalizers p) s k
            | (Some _, None) \<Rightarrow> Inl Assert_failed
            | (None, _) \<Rightarrow> Inr False) (\<lambda>v.
     rbind (if v then maybe_update_fsi (fin_fsi f) b else Inr (False, fin_fsi f)) (\<lambda>(u, fsi).
     rbind (update_fsis b qc fs) (\<lambda>(us, fs').
     Inr (u \<or> us, (k, f\<lparr>fin_fsi := fsi\<rparr>) # fs')))))"

definition mf_maybe_update_fsi :: "(byte list \<Rightarrow> 32 word) \<Rightarrow> io_outcome \<Rightarrow> my_finalizers_t \<Rightarrow> block_state \<Rightarrow> qc_t \<Rightarrow> my_finalizers_t res" where
  "mf_maybe_update_fsi crc io m b received_qc =
     (if mf_finalizers m = [] then Inr m
      else if mf_has_voted m then Inr m
      else ensure (bhs_pending_finalizer_policy (bs_bhs b) = None \<or> pending_policy_sig received_qc \<noteq> None) Invalid_qc_claim (
        rbind (update_fsis b received_qc (mf_finalizers m)) (\<lambda>(updated, fs).
        let m1 = m\<lparr>mf_finalizers := fs\<rparr> in
        Inr (if updated then snd (save_finalizer_safety_info crc io m1) else m1))))"

definition mf_size :: "my_finalizers_t \<Rightarrow> nat" where
  "mf_size m = length (mf_finalizers m)"

definition mf_empty :: "my_finalizers_t \<Rightarrow> bool" where
  "mf_empty m \<longleftrightarrow> mf_finalizers m = []"

definition mf_contains :: "my_finalizers_t \<Rightarrow> bls_public_key \<Rightarrow> bool" where
  "mf_contains m k \<longleftrightarrow> k \<in> fst ` set (mf_finalizers m)"

definition all_of_public_keys :: "my_finalizers_t \<Rightarrow> (bls_public_key \<Rightarrow> bool) \<Rightarrow> bool" where
  "all_of_public_keys m p \<longleftrightarrow> list_all (\<lambda>kv. p (fst kv)) (mf_finalizers m)"

definition any_of_public_keys :: "my_finalizers_t \<Rightarrow> (bls_public_key \<Rightarrow> bool) \<Rightarrow> bool" where
  "any_of_public_keys m p \<longleftrightarrow> list_ex (\<lambda>kv. p (fst kv)) (mf_finalizers m)"

text \<open>The keys are parsed by the BLS library from the strings of the configuration.\<close>

definition set_keys :: "(string \<Rightarrow> bls_public_key res) \<Rightarrow> (string \<Rightarrow> 64 word list res) \<Rightarrow> (byte list \<Rightarrow> 32 word) \<Rightarrow> (byte list \<Rightarrow> bool) \<Rightarrow>
    my_finalizers_t \<Rightarrow> (string \<times> string) list \<Rightarrow> my_finalizers_t res" where
  "set_keys parse_pub parse_priv crc g1_ok m finalizer_keys =
     (if finalizer_keys = [] then Inr m
      else ensure (mf_finalizers m = []) Assert_failed (
        rbind (load_finalizer_safety_info crc g1_ok m) (\<lambda>safety_info.
        rbind (fold_res (\<lambda>(pub_key_str, priv_key_str) (fs, ks).
            rbind (parse_pub pub_key_str) (\<lambda>k.
            rbind (parse_priv priv_key_str) (\<lambda>pk.
            let fsi = (case map_of safety_info k of Some x \<Rightarrow> x | None \<Rightarrow> mf_default_fsi m) in
            Inr (map_emplace k \<lparr>fin_priv_key = pk, fin_fsi = fsi\<rparr> fs, k # ks)))) finalizer_keys ([], [])) (\<lambda>(fs, ks).
        Inr (m\<lparr>mf_finalizers := fs, mf_inactive := filter (\<lambda>(k, _). k \<notin> set ks) safety_info\<rparr>)))))"

definition set_default_safety_information :: "my_finalizers_t \<Rightarrow> finalizer_safety_information \<Rightarrow> my_finalizers_t" where
  "set_default_safety_information m fsi =
     m\<lparr>mf_finalizers := map (\<lambda>(k, f). (k, if \<not> ref_empty (fsi_last_vote (fin_fsi f)) \<or> \<not> ref_empty (fsi_lock (fin_fsi f)) then f
          else f\<lparr>fin_fsi := fsi\<rparr>)) (mf_finalizers m),
       mf_default_fsi := fsi\<rparr>"

definition get_fsi :: "my_finalizers_t \<Rightarrow> bls_public_key \<Rightarrow> finalizer_safety_information res" where
  "get_fsi m k = (case map_of (mf_finalizers m) k of Some f \<Rightarrow> Inr (fin_fsi f) | None \<Rightarrow> Inl Out_of_range_exception)"

definition set_fsi :: "my_finalizers_t \<Rightarrow> bls_public_key \<Rightarrow> finalizer_safety_information \<Rightarrow> my_finalizers_t res" where
  "set_fsi m k fsi =
     ensure (k \<in> fst ` set (mf_finalizers m)) Assert_failed (
     Inr (m\<lparr>mf_finalizers := map (\<lambda>(k', f). (k', if k' = k then f\<lparr>fin_fsi := fsi\<rparr> else f)) (mf_finalizers m)\<rparr>))"

end
