(* ===== verification/Node.thy ===== *)
theory Node
  imports Vote_Processor Finalizer
begin

text \<open>
  How a node accepts a block (\<open>controller.cpp\<close>, \<open>verify_basic_block_invariants\<close> to \<open>consider_voting\<close>): the checks
  of a received block against the state of its parent, the verification of the quorum certificate it
  carries, the use of that certificate, the votes of the node's finalizers, which the vote processor also
  aggregates, and the insertion into the fork database, which lets the vote processor look at the queued votes.
  Block states are shared by pointers in the source; a certificate
  that is saved in a block state is therefore updated in the fork database and in the vote processor.

  The environment collects the libraries and callbacks that the modelled code calls.  The verification
  of a certificate runs in a thread of its own and its result is awaited before the block is used;
  voting is modelled in the order of the synchronous mode.  \<open>now\<close> is the clock that the vote processor reads.  The only
  errors of the aggregation are failed assertions; a node that fails one has no further state.
\<close>

record chain_env =
  env_sha :: "byte list \<Rightarrow> sha256"
  env_g1_ok :: "byte list \<Rightarrow> bool"
  env_g2_ok :: "byte list \<Rightarrow> bool"
  env_bls :: bls_api
  env_recover :: "signature_type \<Rightarrow> digest_type \<Rightarrow> public_key_type res"
  env_validator :: "block_timestamp_type \<Rightarrow> digest_type list \<Rightarrow> digest_type list \<Rightarrow> unit res"
  env_sign :: "64 word list \<Rightarrow> byte list \<Rightarrow> bls_signature res"
  env_crc :: "byte list \<Rightarrow> 32 word"

section \<open>Checks of a received block\<close>

text \<open>
  The claim of a block against the claim of its parent: \<open>Inr False\<close> when the claim is the same and
  nothing is left to prove, \<open>Inr True\<close> for a new claim, which needs a certificate.
\<close>

definition check_claim :: "qc_claim_t \<Rightarrow> qc_claim_t \<Rightarrow> block_num_type \<Rightarrow> bool \<Rightarrow> bool res" where
  "check_claim new_claim prev_claim prev_num qc_extension_present =
     ensure (claim_block_num prev_claim \<le> claim_block_num new_claim) Invalid_qc_claim (
     ensure (claim_block_num new_claim \<le> prev_num) Invalid_qc_claim (
     if claim_block_num new_claim = claim_block_num prev_claim then
       if is_strong_qc new_claim = is_strong_qc prev_claim
       then ensure (\<not> qc_extension_present) Invalid_qc_claim (Inr False)
       else ensure (is_strong_qc new_claim) Invalid_qc_claim (Inr True)
     else Inr True))"

definition check_proof :: "qc_claim_t \<Rightarrow> block_extension option \<Rightarrow> qc_t res" where
  "check_proof new_claim qc_ext =
     (case qc_ext of
        Some (Quorum_certificate qc) \<Rightarrow>
          ensure (qc_block_num qc = claim_block_num new_claim) Block_validate_exception (
          ensure (qc_is_strong qc = is_strong_qc new_claim) Block_validate_exception (Inr qc))
      | _ \<Rightarrow> Inl Block_validate_exception)"

definition verify_basic_proper_block_invariants :: "chain_env \<Rightarrow> signed_block \<Rightarrow> block_state \<Rightarrow> qc_t option res" where
  "verify_basic_proper_block_invariants env b prev =
     ensure (header_is_proper_svnn_block (sb_header b)) Assert_failed (
     rbind (validate_and_extract_extensions (env_g2_ok env) b) (\<lambda>block_exts.
     rbind (extract_header_extension (env_g1_ok env) finality_extension_id (sb_header b)) (\<lambda>finality_ext.
     let qc_ext = map_of block_exts quorum_certificate_eid in
     case finality_ext of
       Some (Finality f_ext) \<Rightarrow>
         ensure (\<not> header_is_legacy_block (bhs_header (bs_bhs prev))) Block_validate_exception (
         case ext_find finality_extension_id (bhs_header_exts (bs_bhs prev)) of
           Some (Finality prev_f_ext) \<Rightarrow>
             rbind (check_claim (fe_qc_claim f_ext) (fe_qc_claim prev_f_ext) (bs_block_num prev) (qc_ext \<noteq> None)) (\<lambda>is_new.
             if \<not> is_new then Inr None
             else rbind (check_proof (fe_qc_claim f_ext) qc_ext) (\<lambda>qc_proof.
               rbind (if bs_validated prev
                      then rbind (get_finality_mroot_claim prev (fe_qc_claim f_ext)) (\<lambda>computed.
                        ensure (computed = bh_action_mroot (sb_header b)) Block_validate_exception (Inr ()))
                      else Inr ()) (\<lambda>_. Inr (Some qc_proof))))
         | _ \<Rightarrow> Inl Assert_failed)
     | _ \<Rightarrow> Inl Block_validate_exception)))"

definition verify_legacy_block_invariants :: "chain_env \<Rightarrow> signed_block \<Rightarrow> block_state_legacy \<Rightarrow> unit res" where
  "verify_legacy_block_invariants env b prev =
     ensure (header_is_legacy_block (sb_header b)) Assert_failed (
     rbind (validate_and_extract_extensions (env_g2_ok env) b) (\<lambda>block_exts.
     ensure (map_of block_exts quorum_certificate_eid = None) Block_validate_exception (
     ensure (\<not> header_is_proper_svnn_block (sb_header b)) Block_validate_exception (
     ensure (header_is_legacy_block (bsl_header prev)) Block_validate_exception (Inr ())))))"

definition check_genesis_extension :: "block_num_type \<Rightarrow> finality_extension \<Rightarrow> unit res" where
  "check_genesis_extension block_num f_ext =
     ensure (fe_qc_claim f_ext = Qc_claim block_num False) Invalid_qc_claim (
     case fe_new_finalizer_policy_diff f_ext of
       None \<Rightarrow> Inl Block_validate_exception
     | Some d \<Rightarrow>
       (case fp_apply_diff \<lparr>fp_generation = 0, fp_threshold = 0, fp_finalizers = []\<rparr> d of
          Inl _ \<Rightarrow> Inl Block_validate_exception
        | Inr p \<Rightarrow> ensure (fp_generation p = 1) Block_validate_exception (Inr ())))"

definition verify_transition_block_invariants :: "chain_env \<Rightarrow> signed_block \<Rightarrow> block_state_legacy \<Rightarrow> unit res" where
  "verify_transition_block_invariants env b prev =
     ensure (\<not> header_is_legacy_block (sb_header b) \<and> \<not> header_is_proper_svnn_block (sb_header b)) Assert_failed (
     rbind (validate_and_extract_extensions (env_g2_ok env) b) (\<lambda>block_exts.
     ensure (map_of block_exts quorum_certificate_eid = None) Block_validate_exception (
     ensure (\<not> header_is_proper_svnn_block (bsl_header prev)) Block_validate_exception (
     rbind (extract_header_extension (env_g1_ok env) finality_extension_id (sb_header b)) (\<lambda>finality_ext.
     case finality_ext of
       Some (Finality f_ext) \<Rightarrow>
         ensure (fe_new_proposer_policy_diff f_ext = None) Block_validate_exception (
         case ext_find finality_extension_id (bsl_header_exts prev) of
           Some (Finality prev_f_ext) \<Rightarrow>
             ensure (fe_qc_claim f_ext = fe_qc_claim prev_f_ext) Invalid_qc_claim (
             ensure (fe_new_finalizer_policy_diff f_ext = None) Block_validate_exception (Inr ()))
         | Some _ \<Rightarrow> Inl Assert_failed
         | None \<Rightarrow> check_genesis_extension (header_block_num (sb_header b)) f_ext)
     | _ \<Rightarrow> Inl Assert_failed)))))"

text \<open>The two instances of \<open>verify_basic_block_invariants\<close>, by the type of the parent's state.\<close>

definition verify_basic_block_invariants_if :: "chain_env \<Rightarrow> signed_block \<Rightarrow> block_state \<Rightarrow> qc_t option res" where
  "verify_basic_block_invariants_if env b prev =
     ensure (header_is_proper_svnn_block (sb_header b)) Block_validate_exception (verify_basic_proper_block_invariants env b prev)"

definition verify_basic_block_invariants_legacy :: "chain_env \<Rightarrow> signed_block \<Rightarrow> block_state_legacy \<Rightarrow> unit res" where
  "verify_basic_block_invariants_legacy env b prev =
     ensure (\<not> header_is_proper_svnn_block (sb_header b)) Block_validate_exception (
     if header_is_legacy_block (sb_header b) then verify_legacy_block_invariants env b prev
     else verify_transition_block_invariants env b prev)"

definition calculate_trx_merkle :: "chain_env \<Rightarrow> signed_block \<Rightarrow> digest_type res" where
  "calculate_trx_merkle env b = calculate_merkle (env_sha env) (sb_transactions b)"

text \<open>The part of \<open>create_block_state_i\<close> that checks the block and builds its state.\<close>

definition checked_block :: "chain_env \<Rightarrow> block_id_type \<Rightarrow> signed_block \<Rightarrow> block_state \<Rightarrow> block_state res" where
  "checked_block env block_id b prev =
     rbind (verify_basic_block_invariants_if env b prev) (\<lambda>qc.
     rbind (calculate_trx_merkle env b) (\<lambda>trx_mroot.
     ensure (bh_transaction_mroot (sb_header b) = trx_mroot) Block_validate_exception (
     rbind (block_state_of_block (env_sha env) (env_g1_ok env) (env_g2_ok env) (env_bls env) (env_recover env) (env_validator env)
       (bs_bhs prev) b False) (\<lambda>bsp.
     ensure (block_id = bs_id bsp) Block_validate_exception (
     rbind (case qc of Some q \<Rightarrow> verify_qc (env_bls env) prev q | None \<Rightarrow> Inr ()) (\<lambda>_. Inr bsp))))))"

section \<open>The node\<close>

record node =
  nd_fork_db :: fork_db
  nd_finalizers :: my_finalizers_t
  nd_testing_allow_voting :: bool
  nd_votes :: "vote_t list"
  nd_vote_processor :: vote_processor_t
  nd_async_aggregation :: bool

text \<open>The certificate is saved in the state of the block it certifies, wherever the fork database has it.\<close>

definition replace_block :: "fork_db \<Rightarrow> block_state \<Rightarrow> fork_db" where
  "replace_block db b =
     (let upd = (\<lambda>x. if bs_id x = bs_id b then b else x) in
      db\<lparr>fd_root := map_option upd (fd_root db), fd_index := map upd (fd_index db)\<rparr>)"

definition integrate_received_qc_to_block :: "chain_env \<Rightarrow> io_outcome \<Rightarrow> node \<Rightarrow> block_state \<Rightarrow> (unit res \<times> node) option" where
  "integrate_received_qc_to_block env io nd b =
     (case bs_block b of
        None \<Rightarrow> Some (Inl Assert_failed, nd)
      | Some blk \<Rightarrow>
        if \<not> contains_extension quorum_certificate_eid blk then Some (Inr (), nd)
        else (case extract_extension (env_g2_ok env) quorum_certificate_eid blk of
          Inl e \<Rightarrow> Some (Inl e, nd)
        | Inr (Some (Quorum_certificate qc)) \<Rightarrow>
          (case search_on_branch_impl (nd_fork_db nd) (bs_previous b) (qc_block_num qc) True of
             None \<Rightarrow> None
           | Some None \<Rightarrow> Some (Inr (), nd)
           | Some (Some claimed) \<Rightarrow>
             Some (case bs_set_received_qc claimed qc of
                Inl e \<Rightarrow> (Inl e, nd)
              | Inr (_, claimed') \<Rightarrow>
                (let nd1 = nd\<lparr>nd_fork_db := replace_block (nd_fork_db nd) claimed',
                               nd_vote_processor := share_last claimed claimed' (nd_vote_processor nd)\<rparr> in
                 if qc_is_strong qc then
                   (case mf_maybe_update_fsi (env_crc env) io (nd_finalizers nd1) claimed' qc of
                      Inl e \<Rightarrow> (Inl e, nd1)
                    | Inr m \<Rightarrow> (Inr (), nd1\<lparr>nd_finalizers := m\<rparr>))
                 else (Inr (), nd1))))
        | Inr _ \<Rightarrow> Some (Inl Bad_optional_access, nd)))"

definition controller_process_vote_message :: "chain_env \<Rightarrow> int \<Rightarrow> 32 word \<Rightarrow> vote_message \<Rightarrow> node \<Rightarrow> node res" where
  "controller_process_vote_message env now connection_id vote nd =
     rbind (process_vote_message (env_bls env) (nd_async_aggregation nd) now now connection_id vote (nd_vote_processor nd, nd_fork_db nd))
       (\<lambda>(vp, db). Inr (nd\<lparr>nd_vote_processor := vp, nd_fork_db := db\<rparr>))"

text \<open>Published votes are collected in the order in which they are signalled; the node also processes them itself.\<close>

definition send_vote :: "chain_env \<Rightarrow> int \<Rightarrow> vote_t \<Rightarrow> node \<Rightarrow> node res" where
  "send_vote env now vote nd = controller_process_vote_message env now 0 (fst vote) (nd\<lparr>nd_votes := nd_votes nd @ [vote]\<rparr>)"

definition create_and_send_vote_msg :: "chain_env \<Rightarrow> io_outcome \<Rightarrow> int \<Rightarrow> node \<Rightarrow> block_state \<Rightarrow> unit res \<times> node" where
  "create_and_send_vote_msg env io now nd b =
     (case bs_block b of
        None \<Rightarrow> (Inl Assert_failed, nd)
      | Some blk \<Rightarrow>
        if \<not> header_is_proper_svnn_block (sb_header blk) then (Inr (), nd)
        else (case mf_maybe_vote (env_sign env) (env_crc env) io (nd_finalizers nd) b of
          Inl e \<Rightarrow> (Inl e, nd)
        | Inr (votes, m) \<Rightarrow>
          (case fold_res (send_vote env now) votes (nd\<lparr>nd_finalizers := m\<rparr>) of
             Inl e \<Rightarrow> (Inl e, nd\<lparr>nd_finalizers := m\<rparr>)
           | Inr nd' \<Rightarrow> (Inr (), nd'))))"

definition consider_voting :: "chain_env \<Rightarrow> io_outcome \<Rightarrow> int \<Rightarrow> bool \<Rightarrow> node \<Rightarrow> block_state \<Rightarrow> (unit res \<times> node) option" where
  "consider_voting env io now is_recent nd b =
     (if mf_empty (nd_finalizers nd) then Some (Inr (), nd)
      else (case latest_qc_claim (bs_core b) of
        Inl e \<Rightarrow> Some (Inl e, nd)
      | Inr c \<Rightarrow>
        if 0 < claim_block_num c \<and> (is_recent \<or> nd_testing_allow_voting nd) then
          (case get_block_reference (bs_core b) (claim_block_num c) of
             Inl e \<Rightarrow> Some (Inl e, nd)
           | Inr r \<Rightarrow>
             (case validated_block_exists_impl (nd_fork_db nd) (bs_previous b) (ref_block_id r) of
                None \<Rightarrow> None
              | Some (Inl e) \<Rightarrow> Some (Inl e, nd)
              | Some (Inr exists) \<Rightarrow> Some (if exists then create_and_send_vote_msg env io now nd b else (Inr (), nd))))
        else Some (Inr (), nd)))"

text \<open>
  \<open>create_block_state_i\<close> for a Savanna parent.  The inputs \<open>io1\<close> and \<open>io2\<close> are the outcomes of the two
  writes to the safety file.  The returned block state is the one that the database shares when it was added.
\<close>

definition create_block_state_i :: "chain_env \<Rightarrow> io_outcome \<Rightarrow> io_outcome \<Rightarrow> int \<Rightarrow> bool \<Rightarrow> node \<Rightarrow> block_id_type \<Rightarrow> signed_block \<Rightarrow> block_state \<Rightarrow>
    ((fork_db_add_t \<times> block_state) res \<times> node) option" where
  "create_block_state_i env io1 io2 now is_recent nd block_id b prev =
     (case checked_block env block_id b prev of
        Inl e \<Rightarrow> Some (Inl e, nd)
      | Inr bsp \<Rightarrow>
        (case integrate_received_qc_to_block env io1 nd bsp of
           None \<Rightarrow> None
         | Some (Inl e, nd1) \<Rightarrow> Some (Inl e, nd1)
         | Some (Inr _, nd1) \<Rightarrow>
           (case consider_voting env io2 now is_recent nd1 bsp of
              None \<Rightarrow> None
            | Some (Inl e, nd2) \<Rightarrow> Some (Inl e, nd2)
            | Some (Inr _, nd2) \<Rightarrow>
              (case fdb_add (nd_fork_db nd2) bsp True of
                 None \<Rightarrow> None
               | Some (Inl e, db) \<Rightarrow> Some (Inl e, nd2\<lparr>nd_fork_db := db\<rparr>)
               | Some (Inr r, db) \<Rightarrow>
                 Some (case notify_new_block (env_bls env) (nd_async_aggregation nd2) now (nd_vote_processor nd2, db) of
                    Inl e \<Rightarrow> (Inl e, nd2\<lparr>nd_fork_db := db\<rparr>)
                  | Inr (vp, db') \<Rightarrow>
                    (Inr (r, if r \<in> {Added, Appended_to_head, Fork_switch}
                             then (case get_block_impl db' block_id False of Some bsp' \<Rightarrow> bsp' | None \<Rightarrow> bsp) else bsp),
                     nd2\<lparr>nd_fork_db := db', nd_vote_processor := vp\<rparr>))))))"

record accepted_block_result =
  abr_add_result :: fork_db_add_t
  abr_block :: "block_state option"

definition create_block_handle :: "chain_env \<Rightarrow> io_outcome \<Rightarrow> io_outcome \<Rightarrow> int \<Rightarrow> bool \<Rightarrow> node \<Rightarrow> block_id_type \<Rightarrow> signed_block option \<Rightarrow>
    (accepted_block_result res \<times> node) option" where
  "create_block_handle env io1 io2 now is_recent nd block_id blk =
     (case blk of
        None \<Rightarrow> Some (Inl Block_validate_exception, nd)
      | Some b \<Rightarrow>
        if \<not> header_is_proper_svnn_block (sb_header b) then Some (Inr \<lparr>abr_add_result = Add_failure, abr_block = None\<rparr>, nd)
        else (case get_block_impl (nd_fork_db nd) block_id True of
          Some bsp \<Rightarrow> Some (Inr \<lparr>abr_add_result = Add_duplicate, abr_block = Some bsp\<rparr>, nd)
        | None \<Rightarrow>
          (case get_block_impl (nd_fork_db nd) (bh_previous (sb_header b)) True of
             None \<Rightarrow> Some (Inr \<lparr>abr_add_result = Add_failure, abr_block = None\<rparr>, nd)
           | Some prev \<Rightarrow>
             (case create_block_state_i env io1 io2 now is_recent nd block_id b prev of
                None \<Rightarrow> None
              | Some (Inl e, nd') \<Rightarrow> Some (Inl e, nd')
              | Some (Inr (r, bsp), nd') \<Rightarrow> Some (Inr \<lparr>abr_add_result = r, abr_block = Some bsp\<rparr>, nd')))))"

section \<open>Reports on votes\<close>

text \<open>The search on a branch may not end in a database that is not a tree; its result is then \<open>None\<close>.\<close>

definition fork_db_fetch_bsp_on_branch_by_num :: "node \<Rightarrow> block_id_type \<Rightarrow> block_num_type \<Rightarrow> block_state option option" where
  "fork_db_fetch_bsp_on_branch_by_num nd h block_num = search_on_branch_impl (nd_fork_db nd) h block_num True"

fun any_not_voted :: "block_state \<Rightarrow> bls_public_key list \<Rightarrow> bool res" where
  "any_not_voted b [] = Inr False"
| "any_not_voted b (k # ks) = rbind (bs_has_voted b k) (\<lambda>st. if st = Not_voted then Inr True else any_not_voted b ks)"

definition is_block_missing_finalizer_votes :: "node \<Rightarrow> block_state \<Rightarrow> bool res" where
  "is_block_missing_finalizer_votes nd b =
     (if mf_empty (nd_finalizers nd) then Inr False
      else (case bs_block b of
        Some blk \<Rightarrow>
          if header_is_proper_svnn_block (sb_header blk) then any_not_voted b (map fst (mf_finalizers (nd_finalizers nd))) else Inr False
      | None \<Rightarrow> Inr False))"

definition controller_active_finalizer_policy :: "node \<Rightarrow> block_id_type \<Rightarrow> finalizer_policy option" where
  "controller_active_finalizer_policy nd h = map_option (\<lambda>b. bhs_active_finalizer_policy (bs_bhs b)) (get_block_impl (nd_fork_db nd) h False)"

definition controller_vote_metrics :: "node \<Rightarrow> block_id_type \<Rightarrow> qc_t \<Rightarrow> qc_vote_metrics_t res option" where
  "controller_vote_metrics nd h qc =
     (case fork_db_fetch_bsp_on_branch_by_num nd h (qc_block_num qc) of
        None \<Rightarrow> None
      | Some None \<Rightarrow> Some (Inr \<lparr>met_strong_votes = (\<lambda>_. None), met_weak_votes = (\<lambda>_. None), met_missing_votes = (\<lambda>_. None),
          met_voted_for_block_timestamp = 0, met_voted_for_block_id = sha256_zero\<rparr>)
      | Some (Some b) \<Rightarrow> Some (rbind (vote_metrics (bs_aggregating_qc b) qc) (\<lambda>result.
          Inr (result\<lparr>met_voted_for_block_id := bs_id b, met_voted_for_block_timestamp := bs_timestamp b\<rparr>))))"

definition controller_missing_votes :: "node \<Rightarrow> block_id_type \<Rightarrow> qc_t \<Rightarrow> fin_auth_set_t res option" where
  "controller_missing_votes nd h qc =
     (case fork_db_fetch_bsp_on_branch_by_num nd h (qc_block_num qc) of
        None \<Rightarrow> None
      | Some None \<Rightarrow> Some (Inr (\<lambda>_. None))
      | Some (Some b) \<Rightarrow> Some (missing_votes (bs_aggregating_qc b) qc))"

end
