(* ===== verification/Acceptance.thy ===== *)
theory Acceptance
  imports Node Block_Validation
begin

text \<open>
  What the acceptance of blocks guarantees about the claims they make: along every chain of accepted
  blocks, each claim is the claim of the genesis block or is backed by a certificate that was verified
  against the policies and the digest of the claimed ancestor.
\<close>

section \<open>The claim of a header\<close>

definition header_claim :: "block_header_state \<Rightarrow> qc_claim_t" where
  "header_claim b = (case ext_find finality_extension_id (bhs_header_exts b) of Some (Finality fe) \<Rightarrow> fe_qc_claim fe | _ \<Rightarrow> Qc_claim 0 False)"

lemma extract_qc_claim_header: "extract_qc_claim s = header_claim (bs_bhs s)"
  by (simp add: extract_qc_claim_def header_claim_def)

text \<open>Extracting one extension reads the same value as extracting all of them.\<close>

lemma extract_one_loop:
  assumes "extract_loop g1_ok first lower es results = Inr exts"
  shows "\<exists>new. exts = results @ new \<and> extract_one g1_ok i es = Inr (map_of new i) \<and> (\<forall>e \<in> set new. lower \<le> fst e)"
  using assms
proof (induction es arbitrary: first lower results)
  case (Cons e es)
  obtain j data where e: "e = (j, data)" by (cases e)
  from Cons.prems obtain ext u where le: "lower \<le> j" and d: "decompose_extract g1_ok j data = Inr (Some (ext, u))"
    and rest: "extract_loop g1_ok False j es (results @ [(j, ext)]) = Inr exts"
    by (auto simp: e ensure_Inr_iff rbind_Inr_iff split: option.splits)
  from Cons.IH [OF rest] obtain new where new: "exts = (results @ [(j, ext)]) @ new" "extract_one g1_ok i es = Inr (map_of new i)"
    "\<forall>e \<in> set new. j \<le> fst e" by blast
  have none: "map_of new i = None" if "i < j" using new(3) that by (force simp: map_of_eq_None_iff)
  have "extract_one g1_ok i (e # es) = Inr (map_of ((j, ext) # new) i)"
    using d new(2) none by (auto simp: e)
  moreover have "\<forall>e \<in> set ((j, ext) # new). lower \<le> fst e" using le new(3) by auto
  ultimately show ?case using new(1) by (intro exI [of _ "(j, ext) # new"]) simp
qed simp

lemma received_claim:
  assumes "next_from_header sha g1_ok validator b h = Inr b'"
  obtains fe where "ext_find finality_extension_id (bhs_header_exts b') = Some (Finality fe)"
    and "extract_header_extension g1_ok finality_extension_id h = Inr (Some (Finality fe))"
    and "core_next (bhs_core b) (case make_block_ref sha b of Inr r \<Rightarrow> r) (fe_qc_claim fe) = Inr (bhs_core b')"
    and "bhs_timestamp b < bhs_timestamp b'"
proof -
  from assms obtain exts fs fe where ex: "validate_and_extract_header_extensions g1_ok h = Inr exts"
    and fe: "received_finality_extension exts = Inr fe" and fin: "finish_next sha b (fresh_state b h exts) fs fe = Inr b'"
    unfolding next_from_header_def rbind_Inr_iff ensure_Inr_iff by blast
  from fe have f: "ext_find finality_extension_id exts = Some (Finality fe)"
    by (auto simp: received_finality_extension_def split: option.splits block_header_extension.splits)
  from fin obtain parent where p: "make_block_ref sha b = Inr parent" "core_next (bhs_core b) parent (fe_qc_claim fe) = Inr (bhs_core b')"
    "bhs_header_exts b' = exts" "bhs_header b' = h" "bhs_timestamp b < bh_timestamp h" by (rule finish_nextD)
  from extract_one_loop [OF ex [unfolded validate_and_extract_header_extensions_def], of finality_extension_id] f
  have "extract_header_extension g1_ok finality_extension_id h = Inr (Some (Finality fe))"
    by (auto simp: extract_header_extension_def ext_find_def)
  with f p that show thesis by simp
qed

lemma chain_claim:
  assumes "header_chain sha g1_ok validator hs b" and "next_from_header sha g1_ok validator b h = Inr b'" and "unat (bhs_block_num b) + 1 < 2 ^ 32"
  shows "latest_qc_claim (bhs_core b') = Inr (header_claim b')"
proof -
  from assms(2) obtain fe where fe: "ext_find finality_extension_id (bhs_header_exts b') = Some (Finality fe)"
    "core_next (bhs_core b) (case make_block_ref sha b of Inr r \<Rightarrow> r) (fe_qc_claim fe) = Inr (bhs_core b')" by (rule received_claim)
  from header_chain_inv [OF assms(1)] obtain n0 where num: "chain_num sha n0 hs b" by blast
  then have win: "core_win (bhs_core b)" and cur: "source_block_num (last (links (bhs_core b))) = bhs_block_num b" by (simp_all add: chain_num_def)
  from core_next_ok [OF win fe(2)] assms(3) cur
  have pre: "next_pre (bhs_core b) (case make_block_ref sha b of Inr r \<Rightarrow> r) (fe_qc_claim fe)"
    and c: "bhs_core b' = next_core (bhs_core b) (case make_block_ref sha b of Inr r \<Rightarrow> r) (fe_qc_claim fe)" by simp_all
  have "links (bhs_core b') \<noteq> []" by (simp add: c next_core_def)
  then show ?thesis
    using next_core_hd_last(2) [OF win] pre c fe(1) by (cases "fe_qc_claim fe") (simp add: core_accessors next_pre_def header_claim_def)
qed

section \<open>Accepted chains\<close>

text \<open>
  The header states of a chain of accepted blocks.  A transition block repeats the claim of its parent.  A
  proper Savanna block is checked against the state \<open>p\<close> of its parent, whatever votes and certificates that state has
  gathered and whether or not it is validated.
\<close>

inductive accepted_chain :: "chain_env \<Rightarrow> block_header_state list \<Rightarrow> block_header_state \<Rightarrow> bool" for env where
  genesis: "genesis_state b \<Longrightarrow> header_claim b = Qc_claim (bhs_block_num b) False \<Longrightarrow> accepted_chain env [] b"
| transition: "accepted_chain env hs b \<Longrightarrow> next_from_header (env_sha env) (env_g1_ok env) (env_validator env) b h = Inr b' \<Longrightarrow>
    header_claim b' = header_claim b \<Longrightarrow> unat (bhs_block_num b) + 1 < 2 ^ 32 \<Longrightarrow> accepted_chain env (hs @ [b]) b'"
| received: "accepted_chain env hs (bs_bhs p) \<Longrightarrow> make_block_ref (env_sha env) (bs_bhs p) = Inr (bs_make_block_ref p) \<Longrightarrow>
    checked_block env block_id blk p = Inr s \<Longrightarrow> unat (bhs_block_num (bs_bhs p)) + 1 < 2 ^ 32 \<Longrightarrow>
    accepted_chain env (hs @ [bs_bhs p]) (bs_bhs s)"

text \<open>A certificate that is verified for a block: a quorum of each of its policies voted, and the signatures are for its digest.\<close>

definition certified_by :: "chain_env \<Rightarrow> qc_t \<Rightarrow> block_header_state \<Rightarrow> bool" where
  "certified_by env qc a \<longleftrightarrow> qc_block_num qc = bhs_block_num a \<and>
     sig_verified (active_policy_sig qc) (bhs_active_finalizer_policy a) \<and>
     (case (pending_policy_sig qc, pending_policy a) of
        (None, None) \<Rightarrow> True
      | (Some t, Some p) \<Rightarrow> sig_verified t p \<and> same_votes (bhs_active_finalizer_policy a) p (active_policy_sig qc) t
      | _ \<Rightarrow> False) \<and>
     (\<exists>digest. compute_finality_digest (env_sha env) a = Inr digest \<and>
       qc_verify_signatures (env_bls env) qc \<lparr>pol_finality_digest = digest, active_finalizer_policy = bhs_active_finalizer_policy a,
         pending_finalizer_policy = pending_policy a\<rparr> = Inr ())"

lemma checked_blockD:
  assumes "checked_block env block_id blk p = Inr s"
  obtains qc where "verify_basic_proper_block_invariants env blk p = Inr qc"
    and "next_from_header (env_sha env) (env_g1_ok env) (env_validator env) (bs_bhs p) (sb_header blk) = Inr (bs_bhs s)"
    and "make_block_ref (env_sha env) (bs_bhs s) = Inr (bs_make_block_ref s)" and "block_id = bs_id s"
    and "case qc of Some q \<Rightarrow> verify_qc (env_bls env) p q = Inr () | None \<Rightarrow> True"
proof -
  from assms obtain qc u where qc: "verify_basic_proper_block_invariants env blk p = Inr qc"
    and s: "block_state_of_block (env_sha env) (env_g1_ok env) (env_g2_ok env) (env_bls env) (env_recover env) (env_validator env) (bs_bhs p) blk False = Inr s"
    and bid: "block_id = bs_id s" and v: "(case qc of Some q \<Rightarrow> verify_qc (env_bls env) p q | None \<Rightarrow> Inr ()) = Inr u"
    unfolding checked_block_def verify_basic_block_invariants_if_def rbind_Inr_iff ensure_Inr_iff sum.inject by blast
  from s obtain bhs where n: "next_from_header (env_sha env) (env_g1_ok env) (env_validator env) (bs_bhs p) (sb_header blk) = Inr bhs"
    and i: "bs_init (env_sha env) (env_bls env) bhs (Some blk) None sha256_zero = Inr s"
    unfolding block_state_of_block_def rbind_Inr_iff by blast
  from i have b: "bs_bhs s = bhs" "compute_finality_digest (env_sha env) bhs = Inr (bs_strong_digest s)"
    by (auto simp: bs_init_def rbind_Inr_iff)
  then have "make_block_ref (env_sha env) (bs_bhs s) = Inr (bs_make_block_ref s)"
    by (simp add: make_block_ref_def bs_make_block_ref_def bs_id_def bs_timestamp_def)
  moreover have "case qc of Some q \<Rightarrow> verify_qc (env_bls env) p q = Inr () | None \<Rightarrow> True" using v by (cases qc) simp_all
  ultimately show thesis using that [OF qc] n b(1) bid by simp
qed

lemma check_claimD:
  assumes "check_claim new prev num present = Inr is_new"
  shows "claim_block_num prev \<le> claim_block_num new" and "claim_block_num new \<le> num" and "\<not> is_new \<Longrightarrow> new = prev"
  using assms by (cases new; cases prev; auto simp: check_claim_def ensure_Inr_iff split: if_splits)+

lemma check_proofD:
  "check_proof claim ext = Inr qc \<Longrightarrow> qc_block_num qc = claim_block_num claim \<and> qc_is_strong qc = is_strong_qc claim"
  by (auto simp: check_proof_def ensure_Inr_iff split: option.splits block_extension.splits)

lemma verify_basicD:
  assumes "verify_basic_proper_block_invariants env blk p = Inr qc"
  obtains fe pfe is_new ext where "extract_header_extension (env_g1_ok env) finality_extension_id (sb_header blk) = Inr (Some (Finality fe))"
    and "ext_find finality_extension_id (bhs_header_exts (bs_bhs p)) = Some (Finality pfe)"
    and "check_claim (fe_qc_claim fe) (fe_qc_claim pfe) (bs_block_num p) (ext \<noteq> None) = Inr is_new"
    and "\<not> is_new \<Longrightarrow> qc = None" and "is_new \<Longrightarrow> \<exists>q. qc = Some q \<and> check_proof (fe_qc_claim fe) ext = Inr q"
proof -
  from assms obtain exts fx where fx: "extract_header_extension (env_g1_ok env) finality_extension_id (sb_header blk) = Inr fx"
    and r: "(let qc_ext = map_of exts quorum_certificate_eid in case fx of
       Some (Finality f_ext) \<Rightarrow>
         ensure (\<not> header_is_legacy_block (bhs_header (bs_bhs p))) Block_validate_exception (
         case ext_find finality_extension_id (bhs_header_exts (bs_bhs p)) of
           Some (Finality prev_f_ext) \<Rightarrow>
             rbind (check_claim (fe_qc_claim f_ext) (fe_qc_claim prev_f_ext) (bs_block_num p) (qc_ext \<noteq> None)) (\<lambda>is_new.
             if \<not> is_new then Inr None
             else rbind (check_proof (fe_qc_claim f_ext) qc_ext) (\<lambda>qc_proof.
               rbind (if bs_validated p
                      then rbind (get_finality_mroot_claim p (fe_qc_claim f_ext)) (\<lambda>computed.
                        ensure (computed = bh_action_mroot (sb_header blk)) Block_validate_exception (Inr ()))
                      else Inr ()) (\<lambda>_. Inr (Some qc_proof))))
         | _ \<Rightarrow> Inl Assert_failed)
     | _ \<Rightarrow> Inl Block_validate_exception) = Inr qc"
    unfolding verify_basic_proper_block_invariants_def rbind_Inr_iff ensure_Inr_iff by blast
  from r obtain fe where fe: "fx = Some (Finality fe)" by (auto simp: Let_def split: option.splits block_header_extension.splits)
  from r fe obtain pfe where pfe: "ext_find finality_extension_id (bhs_header_exts (bs_bhs p)) = Some (Finality pfe)"
    by (auto simp: Let_def ensure_Inr_iff split: option.splits block_header_extension.splits)
  from r fe pfe obtain is_new where n: "check_claim (fe_qc_claim fe) (fe_qc_claim pfe) (bs_block_num p) (map_of exts quorum_certificate_eid \<noteq> None) = Inr is_new"
    by (auto simp: Let_def ensure_Inr_iff rbind_Inr_iff)
  show thesis
  proof (rule that [OF _ pfe n])
    show "\<not> is_new \<Longrightarrow> qc = None" using r fe pfe n by (auto simp: Let_def ensure_Inr_iff)
    show "is_new \<Longrightarrow> \<exists>q. qc = Some q \<and> check_proof (fe_qc_claim fe) (map_of exts quorum_certificate_eid) = Inr q"
      using r fe pfe n by (auto simp: Let_def ensure_Inr_iff rbind_Inr_iff)
  qed (simp add: fx fe)
qed

text \<open>What a checked block claims, and on what evidence.\<close>

lemma checked_block_claim:
  assumes "checked_block env block_id blk p = Inr s"
  shows "header_claim (bs_bhs s) = header_claim (bs_bhs p) \<or>
    (\<exists>q. verify_qc (env_bls env) p q = Inr () \<and> qc_block_num q = claim_block_num (header_claim (bs_bhs s)) \<and>
      qc_is_strong q = is_strong_qc (header_claim (bs_bhs s)) \<and>
      claim_block_num (header_claim (bs_bhs p)) \<le> qc_block_num q \<and> qc_block_num q \<le> bs_block_num p)"
proof -
  from assms obtain qc where v: "verify_basic_proper_block_invariants env blk p = Inr qc"
    and n: "next_from_header (env_sha env) (env_g1_ok env) (env_validator env) (bs_bhs p) (sb_header blk) = Inr (bs_bhs s)"
    and ok: "case qc of Some q \<Rightarrow> verify_qc (env_bls env) p q = Inr () | None \<Rightarrow> True" by (rule checked_blockD)
  from v obtain fe pfe is_new ext where e: "extract_header_extension (env_g1_ok env) finality_extension_id (sb_header blk) = Inr (Some (Finality fe))"
    "ext_find finality_extension_id (bhs_header_exts (bs_bhs p)) = Some (Finality pfe)"
    and c: "check_claim (fe_qc_claim fe) (fe_qc_claim pfe) (bs_block_num p) (ext \<noteq> None) = Inr is_new"
    and q: "is_new \<Longrightarrow> \<exists>q. qc = Some q \<and> check_proof (fe_qc_claim fe) ext = Inr q" by (rule verify_basicD) blast
  from n obtain fe' where "ext_find finality_extension_id (bhs_header_exts (bs_bhs s)) = Some (Finality fe')"
    "extract_header_extension (env_g1_ok env) finality_extension_id (sb_header blk) = Inr (Some (Finality fe'))" by (rule received_claim)
  with e(1) have cs: "header_claim (bs_bhs s) = fe_qc_claim fe" by (simp add: header_claim_def)
  have cp: "header_claim (bs_bhs p) = fe_qc_claim pfe" by (simp add: header_claim_def e(2))
  show ?thesis
  proof (cases is_new)
    case True
    with q obtain x where x: "qc = Some x" "check_proof (fe_qc_claim fe) ext = Inr x" by blast
    from check_proofD [OF x(2)] check_claimD(1,2) [OF c] ok x(1) show ?thesis by (auto simp: cs cp)
  qed (use check_claimD(3) [OF c] in \<open>simp add: cs cp\<close>)
qed

lemma accepted_header_chain:
  assumes "accepted_chain env hs b"
  shows "header_chain (env_sha env) (env_g1_ok env) (env_validator env) hs b" and "latest_qc_claim (bhs_core b) = Inr (header_claim b)"
proof -
  have "header_chain (env_sha env) (env_g1_ok env) (env_validator env) hs b \<and> latest_qc_claim (bhs_core b) = Inr (header_claim b)"
    using assms
  proof induction
    case (genesis b)
    then show ?case using header_chain.genesis [OF genesis(1)]
      by (auto simp: genesis_state_def create_core_for_genesis_block_def latest_qc_claim_def Let_def)
  next
    case (transition hs b h b')
    then show ?case using header_chain.received chain_claim by blast
  next
    case (received hs p block_id blk s)
    from received(3) obtain qc where "next_from_header (env_sha env) (env_g1_ok env) (env_validator env) (bs_bhs p) (sb_header blk) = Inr (bs_bhs s)"
      by (rule checked_blockD)
    with received show ?case using header_chain.received chain_claim by blast
  qed
  then show "header_chain (env_sha env) (env_g1_ok env) (env_validator env) hs b" "latest_qc_claim (bhs_core b) = Inr (header_claim b)" by blast+
qed

text \<open>The last claim of an accepted chain whose policies are well formed.\<close>

definition policies_wf :: "block_header_state \<Rightarrow> bool" where
  "policies_wf a \<longleftrightarrow> policy_wf (bhs_active_finalizer_policy a) \<and> pred_option policy_wf (pending_policy a)"

definition claim_backed :: "chain_env \<Rightarrow> block_header_state list \<Rightarrow> qc_claim_t \<Rightarrow> bool" where
  "claim_backed env hs q \<longleftrightarrow> (\<exists>a \<in> set hs. \<exists>qc. certified_by env qc a \<and> claim_block_num q = bhs_block_num a \<and> qc_is_strong qc = is_strong_qc q)"

lemma claim_backed_mono: "claim_backed env hs q \<Longrightarrow> set hs \<subseteq> set hs' \<Longrightarrow> claim_backed env hs' q"
  unfolding claim_backed_def by blast

lemma verified_claim_backed:
  assumes acc: "accepted_chain env hs (bs_bhs p)" and ref: "make_block_ref (env_sha env) (bs_bhs p) = Inr (bs_make_block_ref p)"
    and wf: "\<forall>a \<in> set (hs @ [bs_bhs p]). policies_wf a"
    and v: "verify_qc (env_bls env) p q = Inr ()" and le: "claim_block_num (header_claim (bs_bhs p)) \<le> qc_block_num q" "qc_block_num q \<le> bs_block_num p"
  shows "claim_backed env (hs @ [bs_bhs p]) (Qc_claim (qc_block_num q) (qc_is_strong q))"
proof -
  note hc = accepted_header_chain [OF acc]
  from header_chain_inv [OF hc(1)] obtain n0 where num: "chain_num (env_sha env) n0 hs (bs_bhs p)" by blast
  then have win: "core_win (bs_core p)" by (simp add: chain_num_def)
  then have "header_claim (bs_bhs p) = Qc_claim (claim_num (bs_bhs p)) (is_link_strong (last (links (bs_core p))))"
    using hc(2) core_winD(1) [OF win] by (simp add: core_accessors claim_num_def)
  then have "lib_of (bs_bhs p) \<le> qc_block_num q" using lib_le_claim [OF win] le(1) by simp
  then obtain a where a: "a \<in> set (hs @ [bs_bhs p])" "bhs_block_num a = qc_block_num q"
    using chain_member [OF num, of "qc_block_num q"] le(2) num by (auto simp: chain_num_def bs_block_num_def word_le_nat_alt)
  have pw: "policy_wf (bhs_active_finalizer_policy a)" "pred_option policy_wf (pending_policy a)"
    using wf a(1) unfolding policies_wf_def by blast+
  have "claim_block_num (header_claim (bs_bhs p)) \<le> bhs_block_num a" using le(1) a(2) by simp
  from verify_qc_iff [OF hc(1) ref a(1) a(2) [symmetric] hc(2) this pw, of "env_bls env"] v a(2)
  have "certified_by env q a" unfolding certified_by_def by metis
  then show ?thesis unfolding claim_backed_def using a by (metis qc_claim_t.sel)
qed

lemma accepted_last_claim:
  assumes "accepted_chain env hs b" and "\<forall>a \<in> set hs. policies_wf a"
  shows "header_claim b = Qc_claim (bhs_block_num (hd (hs @ [b]))) False \<or> claim_backed env hs (header_claim b)"
  using assms
proof induction
  case (transition hs b h b')
  then have "header_claim b = Qc_claim (bhs_block_num (hd (hs @ [b]))) False \<or> claim_backed env hs (header_claim b)" by simp
  moreover have "hd ((hs @ [b]) @ [b']) = hd (hs @ [b])" by (cases hs) simp_all
  ultimately show ?case using transition(3) claim_backed_mono [of env hs "header_claim b" "hs @ [b]"] by auto
next
  case (received hs p block_id blk s)
  let ?b = "bs_bhs p" and ?b' = "bs_bhs s"
  have hd: "hd ((hs @ [?b]) @ [?b']) = hd (hs @ [?b])" by (cases hs) simp_all
  from checked_block_claim [OF received(3)] show ?case
  proof
    assume "header_claim ?b' = header_claim ?b"
    then show ?case using received hd claim_backed_mono [of env hs "header_claim ?b" "hs @ [?b]"] by auto
  next
    assume "\<exists>q. verify_qc (env_bls env) p q = Inr () \<and> qc_block_num q = claim_block_num (header_claim ?b') \<and>
      qc_is_strong q = is_strong_qc (header_claim ?b') \<and> claim_block_num (header_claim ?b) \<le> qc_block_num q \<and> qc_block_num q \<le> bs_block_num p"
    then obtain q where q: "verify_qc (env_bls env) p q = Inr ()" "qc_block_num q = claim_block_num (header_claim ?b')"
      "qc_is_strong q = is_strong_qc (header_claim ?b')" "claim_block_num (header_claim ?b) \<le> qc_block_num q" "qc_block_num q \<le> bs_block_num p" by blast
    from verified_claim_backed [OF received(1,2) received.prems q(1,4,5)] q(2,3) show ?case by simp
  qed
qed simp

lemma take_nth_snoc: "i < length xs \<Longrightarrow> take i (xs @ [y]) = take i xs \<and> (xs @ [y]) ! i = xs ! i"
  by (simp add: nth_append)

lemma accepted_prefix:
  assumes "accepted_chain env hs b" and "i < length (hs @ [b])"
  shows "accepted_chain env (take i (hs @ [b])) ((hs @ [b]) ! i)"
  using assms
proof induction
  case (transition hs b h b')
  show ?case
  proof (cases "i < length (hs @ [b])")
    case True
    with transition.IH take_nth_snoc [OF True, of b'] show ?thesis by metis
  next
    case False
    with transition.prems have "i = length (hs @ [b])" by simp
    with accepted_chain.transition [OF transition(1-4)] show ?thesis by (simp add: nth_append)
  qed
next
  case (received hs p block_id blk s)
  show ?case
  proof (cases "i < length (hs @ [bs_bhs p])")
    case True
    with received.IH take_nth_snoc [OF True, of "bs_bhs s"] show ?thesis by metis
  next
    case False
    with received.prems have "i = length (hs @ [bs_bhs p])" by simp
    with accepted_chain.received [OF received(1-4)] show ?thesis by (simp add: nth_append)
  qed
qed (simp add: accepted_chain.genesis)

text \<open>
  C2: Every claim of an accepted chain is proved.  In a chain of blocks that the node accepted one after
  the other, with well-formed finalizer policies, each block claims the genesis block, weakly, or a
  block before it in the same chain for which a certificate of the claimed strength was verified:
  a quorum of every policy of the claimed block voted and the signatures are valid for its
  finality digest.  The claim is the one that the finality core of the block records.
\<close>

theorem accepted_claims_certified:
  assumes "accepted_chain env hs b" and "\<forall>a \<in> set (hs @ [b]). policies_wf a" and "i < length (hs @ [b])" and "c = (hs @ [b]) ! i"
  shows "latest_qc_claim (bhs_core c) = Inr (header_claim c) \<and>
    (header_claim c = Qc_claim (bhs_block_num (hd (hs @ [b]))) False \<or>
     (\<exists>a \<in> set (take i (hs @ [b])). \<exists>qc. certified_by env qc a \<and> claim_block_num (header_claim c) = bhs_block_num a \<and>
        qc_is_strong qc = is_strong_qc (header_claim c)))"
proof -
  have acc: "accepted_chain env (take i (hs @ [b])) c" using accepted_prefix [OF assms(1,3)] assms(4) by simp
  have hd: "hd (take i (hs @ [b]) @ [c]) = hd (hs @ [b])" using assms(3,4) by (cases "i = 0") (simp_all add: hd_conv_nth hd_append hd_take nth_append del: take_append)
  have "\<forall>a \<in> set (take i (hs @ [b])). policies_wf a" using assms(2) by (meson in_set_takeD)
  from accepted_last_claim [OF acc this] hd accepted_header_chain(2) [OF acc] show ?thesis unfolding claim_backed_def by simp
qed

section \<open>A concrete acceptance\<close>

text \<open>A genesis block with four finalizers, and a block on it that carries a strong certificate of three of them.\<close>

definition sample_env :: chain_env where
  "sample_env = \<lparr>env_sha = sample_sha, env_g1_ok = (\<lambda>_. True), env_g2_ok = (\<lambda>_. True), env_bls = sample_bls_api,
     env_recover = (\<lambda>_ _. Inr (PUB_K1 [1])), env_validator = (\<lambda>_ _ _. Inr ()), env_sign = (\<lambda>_ _. Inr []), env_crc = (\<lambda>_. 0)\<rparr>"

definition sample_claim_ext :: finality_extension where
  "sample_claim_ext = \<lparr>fe_qc_claim = Qc_claim 2 False, fe_new_finalizer_policy_diff = None, fe_new_proposer_policy_diff = None\<rparr>"

definition sample_parent :: block_header_state where
  "sample_parent = sample_voted_genesis\<lparr>bhs_header := sample_legacy_header,
     bhs_header_exts := [(finality_extension_id, Finality sample_claim_ext)],
     bhs_active_proposer_policy := \<lparr>proposal_time = 0, proposer_schedule = \<lparr>sched_version = 1,
       sched_producers = [\<lparr>pa_producer_name = 7, pa_authority = Block_signing_authority_v0 1 [\<lparr>kw_key = PUB_K1 [1], kw_weight = 1\<rparr>]\<rparr>]\<rparr>\<rparr>\<rparr>"

definition sample_strong_qc :: qc_t where
  "sample_strong_qc = \<lparr>qc_block_num = 2, active_policy_sig = \<lparr>strong_votes = Some (sample_votes 0x7), weak_votes = None, qs_sig = replicate 192 0\<rparr>,
     pending_policy_sig = None\<rparr>"

definition sample_signed_block :: "block_state \<Rightarrow> signed_block res" where
  "sample_signed_block p =
     rbind (next_from_input sample_sha (bs_bhs p) (sample_input (bs_bhs p) None (Qc_claim 2 True))) (\<lambda>b.
     rbind (integrate_qc [] (Some sample_strong_qc)) (\<lambda>exts.
     Inr \<lparr>sb_header = bhs_header b, sb_producer_signature = SIG_K1 (replicate 65 0), sb_transactions = [], sb_block_extensions = exts\<rparr>))"

definition sample_acceptance :: "(block_state \<times> block_state) res" where
  "sample_acceptance =
     rbind (bs_init sample_sha sample_bls_api sample_parent None None sha256_zero) (\<lambda>p.
     rbind (sample_signed_block p) (\<lambda>blk.
     rbind (calculate_id sample_sha (sb_header blk)) (\<lambda>block_id.
     rbind (checked_block sample_env block_id blk p) (\<lambda>s. Inr (p, s)))))"

lemma sample_acceptance_run:
  "case sample_acceptance of Inl _ \<Rightarrow> False | Inr (p, s) \<Rightarrow> header_claim (bs_bhs s) = Qc_claim 2 True \<and>
     bhs_active_finalizer_policy (bs_bhs s) = sample_policy \<and> bhs_pending_finalizer_policy (bs_bhs s) = None"
  by code_simp

lemma sample_parent_num: "bhs_block_num sample_parent = 2"
  by (simp add: sample_parent_def sample_voted_genesis_def sample_legacy_header_def sample_genesis_def bhs_block_num_def)

lemma sample_parent_genesis: "genesis_state sample_parent" "header_claim sample_parent = Qc_claim 2 False"
  by (simp_all add: genesis_state_def sample_parent_num header_claim_def ext_find_def sample_claim_ext_def)
    (simp_all add: sample_parent_def sample_voted_genesis_def sample_legacy_header_def sample_genesis_def sample_policy_def
      ext_find_def sample_claim_ext_def)

lemma sample_accepted:
  obtains p s :: block_state where "accepted_chain sample_env [bs_bhs p] (bs_bhs s)" and "header_claim (bs_bhs s) = Qc_claim 2 True"
    and "\<forall>a \<in> set ([bs_bhs p] @ [bs_bhs s]). policies_wf a"
proof -
  obtain p s where run: "sample_acceptance = Inr (p, s)" and f: "header_claim (bs_bhs s) = Qc_claim 2 True"
    "bhs_active_finalizer_policy (bs_bhs s) = sample_policy" "bhs_pending_finalizer_policy (bs_bhs s) = None"
    using sample_acceptance_run by (auto simp: case_evaluated)
  from run obtain blk i where p: "bs_init sample_sha sample_bls_api sample_parent None None sha256_zero = Inr p"
    and c: "checked_block sample_env i blk p = Inr s" unfolding sample_acceptance_def rbind_Inr_iff by blast
  from p have b: "bs_bhs p = sample_parent" "compute_finality_digest sample_sha sample_parent = Inr (bs_strong_digest p)"
    by (auto simp: bs_init_def rbind_Inr_iff)
  have ref: "make_block_ref (env_sha sample_env) (bs_bhs p) = Inr (bs_make_block_ref p)"
    using b by (simp add: make_block_ref_def bs_make_block_ref_def bs_id_def bs_timestamp_def sample_env_def)
  note num = sample_parent_num
  have "accepted_chain sample_env [] (bs_bhs p)" using b(1) num sample_parent_genesis by (intro accepted_chain.genesis) simp_all
  from accepted_chain.received [OF this ref c] have acc: "accepted_chain sample_env [bs_bhs p] (bs_bhs s)" using b(1) num by simp
  have "policies_wf (bs_bhs p)" "policies_wf (bs_bhs s)"
    using f sample_policy_wf by (simp_all add: policies_wf_def pending_policy_def b(1))
      (simp_all add: sample_parent_def sample_voted_genesis_def sample_genesis_def sample_policy_wf)
  with that [OF acc f(1)] show thesis by simp
qed

theorem accepted_claims_certified_witness:
  "\<exists>a qc. certified_by sample_env qc a \<and> bhs_block_num a = 2 \<and> qc_is_strong qc"
proof -
  obtain p s :: block_state where a: "accepted_chain sample_env [bs_bhs p] (bs_bhs s)" "header_claim (bs_bhs s) = Qc_claim 2 True"
    "\<forall>a \<in> set ([bs_bhs p] @ [bs_bhs s]). policies_wf a" using sample_accepted .
  from accepted_claims_certified [OF a(1,3), of 1 "bs_bhs s"] a(2) show ?thesis by auto
qed

end
