(* ===== verification/Voting.thy ===== *)
theory Voting
  imports Finalizer Acceptance
begin

text \<open>
  The voting rules of a finalizer over a sequence of blocks: \<open>vote_run\<close> presents blocks one after the
  other to \<open>decide_vote\<close> and collects the votes.  Votes move forward in time, the lock never moves
  back, and a finalizer always votes for a block whose certificate is newer than its lock.
\<close>

section \<open>One decision\<close>

definition can_vote :: "finalizer_safety_information \<Rightarrow> block_state \<Rightarrow> block_timestamp_type \<Rightarrow> bool" where
  "can_vote fsi b t \<longleftrightarrow> (ref_empty (fsi_last_vote fsi) \<or> ref_timestamp (fsi_last_vote fsi) < bs_timestamp b) \<and> \<not> ref_empty (fsi_lock fsi) \<and>
     (ref_timestamp (fsi_lock fsi) < t \<or> extends (bs_core b) (ref_block_id (fsi_lock fsi)) = Inr True)"

definition strong_ok :: "finalizer_safety_information \<Rightarrow> block_state \<Rightarrow> block_timestamp_type \<Rightarrow> bool" where
  "strong_ok fsi b t \<longleftrightarrow> ref_timestamp (fsi_last_vote fsi) \<le> t \<or>
     extends (bs_core b) (ref_block_id (fsi_last_vote fsi)) = Inr True \<and> fsi_other_branch_latest_time fsi \<le> t"

text \<open>The safety information after a vote, by its strength.\<close>

definition after_vote :: "finalizer_safety_information \<Rightarrow> block_state \<Rightarrow> block_timestamp_type \<Rightarrow> bool \<Rightarrow> finalizer_safety_information \<Rightarrow> bool" where
  "after_vote fsi b t strong fsi' \<longleftrightarrow> fsi_last_vote fsi' = bs_make_block_ref b \<and>
     (if strong then
        fsi_other_branch_latest_time fsi' = 0 \<and>
        (if ref_timestamp (fsi_lock fsi) < t
         then \<exists>c. latest_qc_claim (bs_core b) = Inr c \<and> get_block_reference (bs_core b) (claim_block_num c) = Inr (fsi_lock fsi')
         else fsi_lock fsi' = fsi_lock fsi)
      else fsi_lock fsi' = fsi_lock fsi \<and> fsi_other_branch_latest_time fsi' =
        (if extends (bs_core b) (ref_block_id (fsi_last_vote fsi)) = Inr True then fsi_other_branch_latest_time fsi
         else ref_timestamp (fsi_last_vote fsi)))"

lemma decide_vote_cases:
  assumes "decide_vote fsi b = Inr (r, fsi')"
  obtains (none) "vr_decision r = No_vote" "fsi' = fsi"
    | (vote) t strong where "latest_qc_block_timestamp (bs_core b) = Inr t" and "can_vote fsi b t"
      and "vr_decision r = (if strong then Strong_vote else Weak_vote)" and "strong \<longleftrightarrow> strong_ok fsi b t" and "after_vote fsi b t strong fsi'"
proof (cases "vr_decision r = No_vote")
  case True
  then have "fsi' = fsi"
    using assms by (auto simp: decide_vote_def Let_def rbind_Inr_iff vote_strength_def split: if_splits prod.splits)
  with True none show thesis by blast
next
  case False
  let ?L = "fsi_lock fsi" and ?V = "fsi_last_vote fsi"
  from assms False obtain l sc where mono: "ref_empty ?V \<or> ref_timestamp ?V < bs_timestamp b"
    and chk: "lock_checks fsi b = Inr (l, sc)" "l \<or> sc"
    by (auto simp: decide_vote_def Let_def rbind_Inr_iff split: if_splits prod.splits)
  from assms False mono chk obtain t d fsi1 fsi2 where t: "latest_qc_block_timestamp (bs_core b) = Inr t"
    and d: "vote_strength fsi b t = Inr (d, fsi1)" and f2: "(if d = Strong_vote then strong_vote_lock fsi1 b t else Inr fsi1) = Inr fsi2"
    and r: "vr_decision r = d" "fsi' = fsi2\<lparr>fsi_last_vote := bs_make_block_ref b\<rparr>"
    by (auto simp: decide_vote_def Let_def rbind_Inr_iff split: if_splits prod.splits)
  have can: "can_vote fsi b t"
    using mono chk t by (auto simp: can_vote_def lock_checks_def Let_def rbind_Inr_iff split: if_splits)
  have ds: "d = (if strong_ok fsi b t then Strong_vote else Weak_vote)"
    using d by (auto simp: vote_strength_def strong_ok_def rbind_Inr_iff split: if_splits)
  have "after_vote fsi b t (strong_ok fsi b t) fsi'"
  proof (cases "strong_ok fsi b t")
    case True
    with d have "fsi1 = fsi" by (auto simp: vote_strength_def strong_ok_def rbind_Inr_iff split: if_splits)
    with f2 r True ds show ?thesis by (auto simp: after_vote_def strong_vote_lock_def Let_def rbind_Inr_iff split: if_splits)
  next
    case False
    with d f2 ds r show ?thesis by (auto simp: after_vote_def vote_strength_def strong_ok_def rbind_Inr_iff split: if_splits)
  qed
  with vote [OF t can, of "strong_ok fsi b t"] r ds show thesis by blast
qed

section \<open>A sequence of blocks\<close>

fun vote_run :: "finalizer_safety_information \<Rightarrow> block_state list \<Rightarrow> ((block_state \<times> bool) list \<times> finalizer_safety_information) res" where
  "vote_run fsi [] = Inr ([], fsi)"
| "vote_run fsi (b # bs) =
     rbind (decide_vote fsi b) (\<lambda>(r, fsi1).
     rbind (vote_run fsi1 bs) (\<lambda>(vs, fsi2).
     Inr ((if vr_decision r = No_vote then [] else [(b, vr_decision r = Strong_vote)]) @ vs, fsi2)))"

text \<open>An invariant of the votes cast so far and the safety information carries over a run.\<close>

lemma vote_run_induct:
  assumes run: "vote_run fsi bs = Inr (vs, fsi')" and start: "I us fsi"
    and step: "\<And>us fsi b t strong fsi'. I us fsi \<Longrightarrow> b \<in> set bs \<Longrightarrow> latest_qc_block_timestamp (bs_core b) = Inr t \<Longrightarrow> can_vote fsi b t \<Longrightarrow>
      strong = strong_ok fsi b t \<Longrightarrow> after_vote fsi b t strong fsi' \<Longrightarrow> I (us @ [(b, strong)]) fsi'"
  shows "I (us @ vs) fsi'"
  using run start step
proof (induction bs arbitrary: us fsi vs)
  case (Cons b bs)
  from Cons.prems(1) obtain r fsi1 vs1 where d: "decide_vote fsi b = Inr (r, fsi1)" and run: "vote_run fsi1 bs = Inr (vs1, fsi')"
    and vs: "vs = (if vr_decision r = No_vote then [] else [(b, vr_decision r = Strong_vote)]) @ vs1"
    by (auto simp: rbind_Inr_iff)
  from d show ?case
  proof (cases rule: decide_vote_cases)
    case none
    with Cons.IH [OF run, of us] Cons.prems(2,3) vs show ?thesis by simp
  next
    case (vote t strong)
    from Cons.prems(3) [OF Cons.prems(2) _ vote(1,2,4,5)] have "I (us @ [(b, strong)]) fsi1" by simp
    with Cons.IH [OF run this] Cons.prems(3) vs vote(3) show ?thesis by (cases strong) simp_all
  qed
qed simp

lemma lock_after_vote:
  assumes "latest_qc_block_timestamp (bs_core b) = Inr t" and "after_vote fsi b t strong fsi'"
  shows "ref_timestamp (fsi_lock fsi) \<le> ref_timestamp (fsi_lock fsi')" and "strong \<Longrightarrow> t \<le> ref_timestamp (fsi_lock fsi')"
proof -
  have "ref_timestamp r = t" if "latest_qc_claim (bs_core b) = Inr c" "get_block_reference (bs_core b) (claim_block_num c) = Inr r" for c r
    using that assms(1)
    by (auto simp: latest_qc_block_timestamp_def latest_qc_claim_def is_genesis_core_def get_block_reference_def rbind_Inr_iff ensure_Inr_iff split: if_splits)
  with assms(2) show "ref_timestamp (fsi_lock fsi) \<le> ref_timestamp (fsi_lock fsi')" "strong \<Longrightarrow> t \<le> ref_timestamp (fsi_lock fsi')"
    by (auto simp: after_vote_def split: if_splits)
qed

text \<open>
  C5: Votes move forward and locks hold.  Over every sequence of blocks presented to a finalizer, the
  blocks it votes for have strictly increasing timestamps, all later than its last vote
  before; the timestamp of its lock never decreases; and after the run the lock is at least as
  recent as the certified block claimed by every block it voted strong for.
\<close>

theorem votes_move_forward:
  assumes "vote_run fsi bs = Inr (vs, fsi')" and "\<forall>b \<in> set bs. \<not> sha256_empty (bs_id b)"
  shows "sorted_wrt (<) (map (\<lambda>(b, _). bs_timestamp b) vs) \<and>
    (\<forall>(b, strong) \<in> set vs. (\<not> ref_empty (fsi_last_vote fsi) \<longrightarrow> ref_timestamp (fsi_last_vote fsi) < bs_timestamp b) \<and>
       (\<exists>t. latest_qc_block_timestamp (bs_core b) = Inr t \<and> (strong \<longrightarrow> t \<le> ref_timestamp (fsi_lock fsi')))) \<and>
    ref_timestamp (fsi_lock fsi) \<le> ref_timestamp (fsi_lock fsi')"
proof -
  let ?I = "\<lambda>us f. sorted_wrt (<) (map (\<lambda>(b, _). bs_timestamp b) us) \<and>
    (\<forall>(b, strong) \<in> set us. \<not> sha256_empty (bs_id b) \<and> (\<not> ref_empty (fsi_last_vote fsi) \<longrightarrow> ref_timestamp (fsi_last_vote fsi) < bs_timestamp b) \<and>
       (\<exists>t. latest_qc_block_timestamp (bs_core b) = Inr t \<and> (strong \<longrightarrow> t \<le> ref_timestamp (fsi_lock f)))) \<and>
    ref_timestamp (fsi_lock fsi) \<le> ref_timestamp (fsi_lock f) \<and>
    fsi_last_vote f = (if us = [] then fsi_last_vote fsi else bs_make_block_ref (fst (last us)))"
  have "?I ([] @ vs) fsi'"
  proof (rule vote_run_induct [OF assms(1)])
    fix us f b t strong f'
    assume I: "?I us f" and b: "b \<in> set bs" and t: "latest_qc_block_timestamp (bs_core b) = Inr t"
      and can: "can_vote f b t" and aft: "after_vote f b t strong f'"
    note lock = lock_after_vote [OF t aft]
    have ref: "ref_timestamp (bs_make_block_ref x) = bs_timestamp x" "ref_empty (bs_make_block_ref x) = sha256_empty (bs_id x)" for x :: block_state
      by (simp_all add: bs_make_block_ref_def ref_empty_def)
    have top: "(\<forall>x \<in> set us. bs_timestamp (fst x) < bs_timestamp b) \<and> (\<not> ref_empty (fsi_last_vote fsi) \<longrightarrow> ref_timestamp (fsi_last_vote fsi) < bs_timestamp b)"
    proof (cases us rule: rev_cases)
      case Nil
      with I can show ?thesis by (auto simp: can_vote_def)
    next
      case (snoc ys y)
      from I snoc ref have "bs_timestamp (fst y) < bs_timestamp b" using can by (auto simp: can_vote_def)
      with I snoc show ?thesis by (force simp: sorted_wrt_append)
    qed
    have srt: "sorted_wrt (<) (map (\<lambda>(b, _). bs_timestamp b) (us @ [(b, strong)]))"
      using I top by (auto simp: sorted_wrt_append)
    show "?I (us @ [(b, strong)]) f'"
      using srt I top t lock aft assms(2) b by (fastforce simp: after_vote_def)
  qed simp
  then show ?thesis by auto
qed

end
