(* ===== verification/Savanna.thy ===== *)
theory Savanna
  imports Voting "HOL-Library.Sublist"
begin

text \<open>
  Safety of finality.  The locale \<open>savanna\<close> is what the argument needs of blocks, certificates
  and votes; it is interpreted on networks of nodes whose blocks pass the acceptance checks and
  whose honest finalizers follow \<open>decide_vote\<close>.
\<close>

section \<open>The argument\<close>

text \<open>
  \<open>B\<close>: the blocks, with their ancestor order, timestamps and claimed blocks; \<open>H\<close>: the honest
  finalizers with their votes, where \<open>True\<close> marks a strong vote; \<open>cert x s\<close>: there is a certificate for \<open>x\<close>, a strong one if \<open>s\<close>.
\<close>

locale savanna =
  fixes B :: "'b set" and anc :: "'b \<Rightarrow> 'b \<Rightarrow> bool" and ts :: "'b \<Rightarrow> nat" and claim :: "'b \<Rightarrow> 'b"
    and H :: "'v set" and votes :: "'v \<Rightarrow> ('b \<times> bool) set" and cert :: "'b \<Rightarrow> bool \<Rightarrow> bool"
  assumes anc_trans: "anc x y \<Longrightarrow> anc y z \<Longrightarrow> anc x z"
    and anc_comparable: "anc x z \<Longrightarrow> anc y z \<Longrightarrow> anc x y \<or> anc y x"
    and anc_ts: "x \<in> B \<Longrightarrow> y \<in> B \<Longrightarrow> anc x y \<Longrightarrow> x = y \<or> ts x < ts y"
    and claim_anc: "x \<in> B \<Longrightarrow> claim x \<in> B \<and> anc (claim x) x"
    and claim_self: "x \<in> B \<Longrightarrow> claim x = x \<Longrightarrow> y \<in> B \<Longrightarrow> anc x y"
    and claim_cert: "x \<in> B \<Longrightarrow> (\<exists>s. cert (claim x) s) \<or> (\<forall>y \<in> B. anc (claim x) y)"
    and cert_block: "cert x s \<Longrightarrow> x \<in> B"
    and quorum: "cert x s \<Longrightarrow> cert y s' \<Longrightarrow> \<exists>v \<in> H. (\<exists>q. (x, q) \<in> votes v \<and> (s \<longrightarrow> q)) \<and> (\<exists>q. (y, q) \<in> votes v \<and> (s' \<longrightarrow> q))"
    and one_vote: "v \<in> H \<Longrightarrow> (x, q) \<in> votes v \<Longrightarrow> (y, q') \<in> votes v \<Longrightarrow> ts x = ts y \<Longrightarrow> x = y"
    and strong_rule: "v \<in> H \<Longrightarrow> (x, q) \<in> votes v \<Longrightarrow> (c, True) \<in> votes v \<Longrightarrow> ts x < ts c \<Longrightarrow> anc x c \<or> ts x \<le> ts (claim c)"
    and lock_rule: "v \<in> H \<Longrightarrow> (c, True) \<in> votes v \<Longrightarrow> (x, q) \<in> votes v \<Longrightarrow> ts c < ts x \<Longrightarrow>
      \<exists>l \<in> B. ts (claim c) \<le> ts l \<and> ((\<exists>s. cert l s) \<or> anc (claim c) l) \<and> (ts l < ts (claim x) \<or> l \<noteq> x \<and> anc l x)"
begin

definition final :: "'b \<Rightarrow> bool" where
  "final f \<longleftrightarrow> (\<exists>c. cert c True \<and> claim c = f)"

text \<open>Once \<open>c\<close> has a strong certificate, no block beside the block it claims is certified any more.\<close>

lemma strong_certificate_locks:
  assumes c: "cert c True"
  shows "cert x s \<Longrightarrow> ts (claim c) \<le> ts x \<Longrightarrow> anc (claim c) x"
proof (induction "ts x" arbitrary: x s rule: less_induct)
  case less
  note x = cert_block [OF less.prems(1)] and cb = cert_block [OF c]
  note f = claim_anc [OF cb] and y = claim_anc [OF x]
  from quorum [OF c less.prems(1)] obtain v q where v: "v \<in> H" "(c, True) \<in> votes v" "(x, q) \<in> votes v" by auto
  consider "ts x < ts c" | "ts x = ts c" | "ts c < ts x" by linarith
  then show ?case
  proof cases
    case 1
    from strong_rule [OF v(1,3,2) 1] show ?thesis
    proof
      assume "anc x c"
      with anc_comparable [of "claim c" c x] f anc_ts [OF x, of "claim c"] less.prems(2) show ?thesis by auto
    next
      assume "ts x \<le> ts (claim c)"
      with less.prems(2) have eq: "ts x = ts (claim c)" by simp
      from claim_cert [OF cb] show ?thesis
      proof
        assume "\<exists>s. cert (claim c) s"
        then obtain s' where "cert (claim c) s'" ..
        from quorum [OF less.prems(1) this] one_vote eq have "x = claim c" by metis
        with anc_comparable [OF conjunct2 [OF f] conjunct2 [OF f]] show ?thesis by simp
      qed (use x in blast)
    qed
  next
    case 2
    with one_vote [OF v(1,3,2)] f show ?thesis by simp
  next
    case 3
    from lock_rule [OF v(1-3) 3] obtain l where l: "l \<in> B" "ts (claim c) \<le> ts l" "(\<exists>s. cert l s) \<or> anc (claim c) l"
      "ts l < ts (claim x) \<or> l \<noteq> x \<and> anc l x" by blast
    from l(4) show ?thesis
    proof
      assume lt: "ts l < ts (claim x)"
      have nb: "\<not> anc (claim x) (claim c)" using anc_ts [of "claim x" "claim c"] y f l(2) lt by fastforce
      with claim_cert [OF x] f obtain s' where "cert (claim x) s'" by blast
      moreover have "claim x \<noteq> x" using claim_self [OF x] nb f by metis
      with anc_ts [of "claim x" x] y x have "ts (claim x) < ts x" by auto
      ultimately have "anc (claim c) (claim x)" using less.hyps l(2) lt by simp
      with y anc_trans show ?thesis by blast
    next
      assume lx: "l \<noteq> x \<and> anc l x"
      with anc_ts [OF l(1) x] have "ts l < ts x" by blast
      with l(2,3) less.hyps have "anc (claim c) l" by blast
      with lx anc_trans show ?thesis by blast
    qed
  qed
qed

theorem final_comparable: "final f \<Longrightarrow> final g \<Longrightarrow> anc f g \<or> anc g f"
proof -
  have "ts f \<le> ts g \<Longrightarrow> anc f g \<or> anc g f" if "final f" "final g" for f g
  proof -
    assume le: "ts f \<le> ts g"
    from that obtain c d where c: "cert c True" "claim c = f" and d: "cert d True" "claim d = g" by (auto simp: final_def)
    from claim_cert [OF cert_block [OF d(1)]] claim_anc [OF cert_block [OF c(1)]] strong_certificate_locks [OF c(1)] c(2) d(2) le
    show ?thesis by blast
  qed
  then show "final f \<Longrightarrow> final g \<Longrightarrow> anc f g \<or> anc g f" by (meson linear)
qed

end

end
