(* ===== verification/Chain_Positions.thy ===== *)
theory Chain_Positions
  imports Header_Chain "HOL-Library.Sublist"
begin

text \<open>
  A block together with its ancestors is a position: the list of header states from the genesis block
  to the block.  An ancestor of a position is a prefix of it.  The theory describes what the
  finality core of a position says about its prefixes: the claimed block, the blocks it extends, and the
  last final block.
\<close>

definition is_chain :: "(byte list \<Rightarrow> sha256) \<Rightarrow> (byte list \<Rightarrow> bool) \<Rightarrow>
    (block_timestamp_type \<Rightarrow> digest_type list \<Rightarrow> digest_type list \<Rightarrow> unit res) \<Rightarrow> block_header_state list \<Rightarrow> bool" where
  "is_chain sha g1_ok validator ss \<longleftrightarrow> ss \<noteq> [] \<and> header_chain sha g1_ok validator (butlast ss) (last ss)"

definition first_num :: "block_header_state list \<Rightarrow> nat" where
  "first_num ss = unat (bhs_block_num (hd ss))"

definition at_num :: "block_header_state list \<Rightarrow> block_num_type \<Rightarrow> block_header_state list" where
  "at_num ss n = take (unat n - first_num ss + 1) ss"

abbreviation claim_pos :: "block_header_state list \<Rightarrow> block_header_state list" where
  "claim_pos ss \<equiv> at_num ss (claim_num (last ss))"

definition pos_ts :: "block_header_state list \<Rightarrow> nat" where
  "pos_ts ss = unat (bhs_timestamp (last ss))"

lemma chain_nums:
  assumes "is_chain sha g1_ok validator ss"
  shows "chain_num sha (first_num ss) (butlast ss) (last ss)" and "i < length ss \<Longrightarrow> unat (bhs_block_num (ss ! i)) = first_num ss + i"
proof -
  from assms have ne: "ss \<noteq> []" and hc: "header_chain sha g1_ok validator (butlast ss) (last ss)" by (simp_all add: is_chain_def)
  from header_chain_inv [OF hc] obtain n0 where num: "chain_num sha n0 (butlast ss) (last ss)" by blast
  with ne have nums: "map (\<lambda>a. unat (bhs_block_num a)) ss = [n0 ..< n0 + length ss]" unfolding chain_num_def by simp
  note nth = consecutive_nth [OF nums]
  from nth [of 0] ne have "n0 = first_num ss" by (simp add: first_num_def hd_conv_nth)
  with num nth show "chain_num sha (first_num ss) (butlast ss) (last ss)"
    and "i < length ss \<Longrightarrow> unat (bhs_block_num (ss ! i)) = first_num ss + i" by simp_all
qed

lemma chain_times:
  assumes "header_chain sha g1_ok validator hs b"
  shows "sorted_wrt (<) (map (\<lambda>a. unat (bhs_timestamp a)) (hs @ [b]))"
  using assms
proof (induction rule: header_chain_induct)
  case (step hs b fe b')
  from step.hyps(2) obtain h exts fs where "finish_next sha b (fresh_state b h exts) fs fe = Inr b'" unfolding chain_step_def by blast
  then have "bhs_timestamp b < bhs_timestamp b'" by (rule finish_nextD) simp
  with step.IH show ?case by (force simp: sorted_wrt_append word_less_nat_alt)
qed simp

text \<open>Positions and their prefixes.\<close>

lemma chain_at_num:
  assumes "is_chain sha g1_ok validator ss" and "first_num ss \<le> unat n" and "n \<le> bhs_block_num (last ss)"
  shows "prefix (at_num ss n) ss" and "at_num ss n \<noteq> []" and "bhs_block_num (last (at_num ss n)) = n"
    and "length (at_num ss n) = unat n - first_num ss + 1"
    and "n < bhs_block_num (last ss) \<Longrightarrow> last (at_num ss n) \<in> set (butlast ss)"
proof -
  from assms(1) have ne: "ss \<noteq> []" by (simp add: is_chain_def)
  have "unat (bhs_block_num (last ss)) = first_num ss + (length ss - 1)"
    using chain_nums(2) [OF assms(1), of "length ss - 1"] ne by (simp add: last_conv_nth)
  with assms(2,3) ne have lt: "unat n - first_num ss < length ss" by (cases "length ss") (simp_all add: word_le_nat_alt)
  then have l: "length (at_num ss n) = unat n - first_num ss + 1" by (simp add: at_num_def)
  then show "length (at_num ss n) = unat n - first_num ss + 1" .
  show "prefix (at_num ss n) ss" by (simp add: at_num_def take_is_prefix)
  show nn: "at_num ss n \<noteq> []" using l by auto
  have la: "last (at_num ss n) = ss ! (unat n - first_num ss)" using l nn lt by (simp add: last_conv_nth at_num_def)
  with chain_nums(2) [OF assms(1) lt] assms(2) show "bhs_block_num (last (at_num ss n)) = n" by (simp add: word_unat_eq_iff)
  assume "n < bhs_block_num (last ss)"
  with \<open>unat (bhs_block_num (last ss)) = _\<close> have "unat n - first_num ss < length (butlast ss)" using ne assms(2) by (simp add: word_less_nat_alt)
  then show "last (at_num ss n) \<in> set (butlast ss)" unfolding la by (metis nth_butlast nth_mem)
qed

lemma header_chain_claim:
  assumes "header_chain sha g1_ok validator hs b"
  shows "claim_num b \<le> bhs_block_num b \<and> (hs \<noteq> [] \<longrightarrow> claim_num b < bhs_block_num b)"
  using assms
proof (induction rule: header_chain_induct)
  case (genesis b)
  then show ?case by (simp add: genesis_state_def claim_num_def create_core_for_genesis_block_def Let_def)
next
  case (step hs b fe b')
  from header_chain_inv [OF step.hyps(1)] obtain n0 where num: "chain_num sha n0 hs b" by blast
  from chain_step_core [OF num step.hyps(2)] have "claim_num b' \<le> bhs_block_num b" "unat (bhs_block_num b') = unat (bhs_block_num b) + 1" by blast+
  then show ?case by (simp add: word_le_nat_alt word_less_nat_alt)
qed

lemma chain_claim_range:
  assumes "is_chain sha g1_ok validator ss"
  shows "first_num ss \<le> unat (claim_num (last ss))" and "claim_num (last ss) \<le> bhs_block_num (last ss)"
    and "first_num ss \<le> unat (lib_of (last ss))" and "lib_of (last ss) \<le> claim_num (last ss)"
    and "length ss \<noteq> 1 \<Longrightarrow> claim_num (last ss) < bhs_block_num (last ss)"
proof -
  from assms have ne: "ss \<noteq> []" and hc: "header_chain sha g1_ok validator (butlast ss) (last ss)" by (simp_all add: is_chain_def)
  note num = chain_nums(1) [OF assms]
  from num show lib: "first_num ss \<le> unat (lib_of (last ss))" by (simp add: chain_num_def)
  from num show le: "lib_of (last ss) \<le> claim_num (last ss)" using lib_le_claim by (simp add: chain_num_def)
  with lib show "first_num ss \<le> unat (claim_num (last ss))" by (simp add: word_le_nat_alt)
  from header_chain_claim [OF hc] show "claim_num (last ss) \<le> bhs_block_num (last ss)" by simp
  show "length ss \<noteq> 1 \<Longrightarrow> claim_num (last ss) < bhs_block_num (last ss)"
    using header_chain_claim [OF hc] ne by (cases ss) auto
qed

lemma chain_claim_pos:
  assumes "is_chain sha g1_ok validator ss"
  shows "prefix (claim_pos ss) ss" and "claim_pos ss \<noteq> []" and "bhs_block_num (last (claim_pos ss)) = claim_num (last ss)"
    and "length ss \<noteq> 1 \<Longrightarrow> last (claim_pos ss) \<in> set (butlast ss)" and "length ss \<noteq> 1 \<Longrightarrow> claim_pos ss \<noteq> ss"
    and "length ss = 1 \<Longrightarrow> claim_pos ss = ss"
proof -
  note r = chain_claim_range [OF assms]
  note c = chain_at_num [OF assms r(1,2)]
  from c r(5) show "prefix (claim_pos ss) ss" "claim_pos ss \<noteq> []" "bhs_block_num (last (claim_pos ss)) = claim_num (last ss)"
    "length ss \<noteq> 1 \<Longrightarrow> last (claim_pos ss) \<in> set (butlast ss)" by simp_all
  show "length ss \<noteq> 1 \<Longrightarrow> claim_pos ss \<noteq> ss" using r(5) c(3) by force
  show "length ss = 1 \<Longrightarrow> claim_pos ss = ss" by (simp add: at_num_def)
qed

section \<open>What the core says about a position\<close>

lemma chain_claim_ref:
  assumes "is_chain sha g1_ok validator ss" and "length ss \<noteq> 1"
  shows "\<exists>r. make_block_ref sha (last (claim_pos ss)) = Inr r \<and> get_block_reference (bhs_core (last ss)) (claim_num (last ss)) = Inr r"
  using chain_lookup [OF chain_nums(1) [OF assms(1)] chain_claim_pos(4) [OF assms]]
    chain_claim_pos(3) [OF assms(1)] chain_claim_range(4) [OF assms(1)] by simp

lemma chain_core:
  assumes "is_chain sha g1_ok validator ss"
  shows "core_win (bhs_core (last ss))" and "links (bhs_core (last ss)) \<noteq> []"
    and "current_block_num (bhs_core (last ss)) = Inr (bhs_block_num (last ss))"
    and "last_final_block_num (bhs_core (last ss)) = Inr (lib_of (last ss))"
    and "latest_qc_claim (bhs_core (last ss)) = Inr (Qc_claim (claim_num (last ss)) (is_link_strong (last (links (bhs_core (last ss))))))"
  using chain_nums(1) [OF assms] core_winD(1) [of "bhs_core (last ss)"]
  by (simp_all add: chain_num_def core_accessors lib_of_def claim_num_def)

lemma make_block_refD: "make_block_ref sha a = Inr r \<Longrightarrow> ref_block_id r = bhs_block_id a \<and> ref_timestamp r = bhs_timestamp a"
  by (auto simp: make_block_ref_def rbind_Inr_iff)

lemma chain_claim_time:
  assumes "is_chain sha g1_ok validator ss"
  shows "latest_qc_block_timestamp (bhs_core (last ss)) = Inr (bhs_timestamp (last (claim_pos ss)))"
proof (cases "length ss = 1")
  case True
  then obtain b where ss: "ss = [b]" by (cases ss) auto
  from assms have "header_chain sha g1_ok validator [] b" by (simp add: is_chain_def ss)
  then have "genesis_state b" by cases simp_all
  then show ?thesis
    by (simp add: ss at_num_def genesis_state_def create_core_for_genesis_block_def latest_qc_block_timestamp_def is_genesis_core_def Let_def)
next
  case False
  obtain r where r: "make_block_ref sha (last (claim_pos ss)) = Inr r" "get_block_reference (bhs_core (last ss)) (claim_num (last ss)) = Inr r"
    using chain_claim_ref [OF assms False] by blast
  have "\<not> is_genesis_core (bhs_core (last ss))"
    using chain_nums(1) [OF assms] chain_claim_pos(4) [OF assms False] chain_core(1) [OF assms] r(2)
    by (auto simp: is_genesis_core_def get_block_reference_def rbind_Inr_iff ensure_Inr_iff)
  with r chain_core(2) [OF assms] make_block_refD [OF r(1)] show ?thesis
    by (simp add: latest_qc_block_timestamp_def claim_num_def)
qed

lemma chain_extends:
  assumes "is_chain sha g1_ok validator ss" and "extends (bhs_core (last ss)) bid = Inr True"
  shows "\<exists>p. prefix p ss \<and> p \<noteq> ss \<and> p \<noteq> [] \<and> bhs_block_id (last p) = bid"
proof -
  let ?n = "num_from_id bid"
  from assms(2) chain_core(3,4) [OF assms(1)] have n: "lib_of (last ss) \<le> ?n" "?n < bhs_block_num (last ss)"
    "\<exists>r. get_block_reference (bhs_core (last ss)) ?n = Inr r \<and> ref_block_id r = bid"
    by (auto simp: extends_def Let_def rbind_Inr_iff split: if_splits)
  from n(1,2) chain_claim_range(3) [OF assms(1)] have le: "first_num ss \<le> unat ?n" "?n \<le> bhs_block_num (last ss)"
    by (simp_all add: word_le_nat_alt word_less_nat_alt)
  note p = chain_at_num [OF assms(1) le]
  obtain r where r: "make_block_ref sha (last (at_num ss ?n)) = Inr r" "get_block_reference (bhs_core (last ss)) ?n = Inr r"
    using chain_lookup [OF chain_nums(1) [OF assms(1)] p(5) [OF n(2)]] p(3) n(1) by auto
  from n(3) r make_block_refD [OF r(1)] have "bhs_block_id (last (at_num ss ?n)) = bid" by auto
  moreover have "at_num ss ?n \<noteq> ss" using p(3) n(2) by force
  ultimately show ?thesis using p(1,2) by blast
qed

text \<open>The last final block: the genesis block, or the block claimed by a strongly claimed block.\<close>

definition claims_strongly :: "block_header_state \<Rightarrow> bool" where
  "claims_strongly b \<longleftrightarrow> is_link_strong (last (links (bhs_core b)))"

lemma header_chain_lib_origin:
  assumes "header_chain sha g1_ok validator hs b"
  shows "(\<forall>l \<in> set (links (bhs_core b)). \<exists>a \<in> set (hs @ [b]). source_block_num l = bhs_block_num a \<and> target_block_num l = claim_num a) \<and>
    (lib_of b = bhs_block_num (hd (hs @ [b])) \<or>
     (\<exists>c \<in> set (hs @ [b]). claims_strongly c \<and> (\<exists>m \<in> set (hs @ [b]). bhs_block_num m = claim_num c \<and> claim_num m = lib_of b)))"
  using assms
proof (induction rule: header_chain_induct)
  case (genesis b)
  then show ?case by (simp add: genesis_state_def claim_num_def lib_of_def create_core_for_genesis_block_def Let_def)
next
  case (step hs b fe b')
  let ?c = "bhs_core b" and ?q = "fe_qc_claim fe"
  from header_chain_inv [OF step.hyps(1)] obtain n0 where num: "chain_num sha n0 hs b" by blast
  then have win: "core_win ?c" and cur: "source_block_num (last (links ?c)) = bhs_block_num b" by (simp_all add: chain_num_def)
  from chain_step_core [OF num step.hyps(2)] obtain parent where pre: "next_pre ?c parent ?q" and c': "bhs_core b' = next_core ?c parent ?q"
    and n': "unat (bhs_block_num b') = unat (bhs_block_num b) + 1" and src': "source_block_num (last (links (bhs_core b'))) = bhs_block_num b'"
    and cl: "claim_num b' = claim_block_num ?q" by blast
  from pre have q: "claim_ok ?c ?q" by (simp add: next_pre_def)
  note hl = next_core_hd_last [OF win q, of parent] and B = claimed_link_bounds [OF win q]
  have mem: "claimed_link ?c ?q \<in> set (links ?c)" using claim_okD(3) [OF win q] by (simp add: claimed_link_def)
  have links: "set (links (bhs_core b')) \<subseteq> insert (last (links (bhs_core b'))) (set (links ?c))"
    using set_drop_subset [of "new_front_index ?c ?q" "links ?c"] by (auto simp: c' next_core_def)
  have lib: "lib_of b' = target_block_num (claimed_link ?c ?q)" by (simp add: lib_of_def c' hl)
  have "\<exists>a \<in> set ((hs @ [b]) @ [b']). source_block_num l = bhs_block_num a \<and> target_block_num l = claim_num a" if "l \<in> set (links (bhs_core b'))" for l
    using that links step.IH src' by (cases "l = last (links (bhs_core b'))") (auto simp: claim_num_def)
  moreover have "lib_of b' = bhs_block_num (hd ((hs @ [b]) @ [b'])) \<or> (\<exists>c \<in> set ((hs @ [b]) @ [b']). claims_strongly c \<and>
      (\<exists>m \<in> set ((hs @ [b]) @ [b']). bhs_block_num m = claim_num c \<and> claim_num m = lib_of b'))"
  proof (cases "is_strong_qc ?q")
    case True
    with B(3,4) have "src_num (claimed_link ?c ?q) = unat (claim_block_num ?q)" by (simp add: new_front_index_def)
    then have "source_block_num (claimed_link ?c ?q) = claim_num b'" by (simp add: cl word_unat_eq_iff)
    with step.IH mem obtain a where "a \<in> set (hs @ [b])" "bhs_block_num a = claim_num b'" "claim_num a = lib_of b'" unfolding lib by metis
    moreover have "claims_strongly b'" using True by (simp add: claims_strongly_def c' hl)
    ultimately show ?thesis by auto
  next
    case False
    then have "claimed_link ?c ?q = hd (links ?c)" using core_winD(1) [OF win] by (simp add: claimed_link_def new_front_index_def hd_conv_nth)
    then have "lib_of b' = lib_of b" unfolding lib by (simp add: lib_of_def)
    moreover have "hd ((hs @ [b]) @ [b']) = hd (hs @ [b])" by (cases hs) simp_all
    ultimately show ?thesis using step.IH by (metis UnCI set_append)
  qed
  ultimately show ?case by blast
qed

section \<open>Order\<close>

lemma prefix_last: "prefix p ss \<Longrightarrow> p \<noteq> [] \<Longrightarrow> last p = ss ! (length p - 1) \<and> length p - 1 < length ss \<and> hd p = hd ss"
  by (cases "length p") (auto simp: prefix_def last_conv_nth nth_append hd_append)

lemma chain_prefix_ts:
  assumes "is_chain sha g1_ok validator ss" and "prefix p ss" and "p \<noteq> []" and "p \<noteq> ss"
  shows "pos_ts p < pos_ts ss"
proof -
  from assms(1) have ne: "ss \<noteq> []" and hc: "header_chain sha g1_ok validator (butlast ss) (last ss)" by (simp_all add: is_chain_def)
  from chain_times [OF hc] ne have srt: "sorted_wrt (<) (map (\<lambda>a. unat (bhs_timestamp a)) ss)" by simp
  have "length p < length ss" using assms(2,4) by (auto simp: prefix_def)
  moreover have "last ss = ss ! (length ss - 1)" using ne by (rule last_conv_nth)
  ultimately show ?thesis
    using sorted_wrt_nth_less [OF srt, of "length p - 1" "length ss - 1"] prefix_last [OF assms(2,3)] assms(3)
    by (cases "length p") (simp_all add: pos_ts_def)
qed

lemma header_chain_claims_sorted:
  assumes "header_chain sha g1_ok validator hs b"
  shows "sorted (map (\<lambda>a. unat (claim_num a)) (hs @ [b]))"
  using assms
proof (induction rule: header_chain_induct)
  case (step hs b fe b')
  from header_chain_inv [OF step.hyps(1)] obtain n0 where num: "chain_num sha n0 hs b" by blast
  from chain_step_core [OF num step.hyps(2)] have "claim_num b \<le> claim_num b'" by blast
  with step.IH show ?case by (force simp: sorted_append word_le_nat_alt)
qed simp

lemma chain_claim_mono:
  assumes "is_chain sha g1_ok validator ss" and "prefix p ss" and "p \<noteq> []"
  shows "prefix (claim_pos p) (claim_pos ss)"
proof -
  from assms(1) have ne: "ss \<noteq> []" and hc: "header_chain sha g1_ok validator (butlast ss) (last ss)" by (simp_all add: is_chain_def)
  note p = prefix_last [OF assms(2,3)]
  from header_chain_claims_sorted [OF hc] ne have "sorted (map (\<lambda>a. unat (claim_num a)) ss)" by simp
  from sorted_nth_mono [OF this, of "length p - 1" "length ss - 1"] p ne
  have le: "unat (claim_num (last p)) \<le> unat (claim_num (last ss))" by (cases "length ss") (simp_all add: last_conv_nth)
  from assms(2) obtain zs where ss: "ss = p @ zs" by (auto simp: prefix_def)
  have fn: "first_num p = first_num ss" using p by (simp add: first_num_def)
  have "prefix (take i p) (take j (p @ zs))" if "i \<le> j" for i j
    using that by (metis take_append prefix_order.trans prefixI take_is_prefix take_take min.absorb1 append_take_drop_id)
  with le show ?thesis unfolding at_num_def fn ss by simp
qed

end
