(* ===== verification/Sample_Network.thy ===== *)
theory Sample_Network
  imports Voting
begin

text \<open>
  A concrete network: a genesis block, three blocks on it, and four finalizers that are all honest and vote
  for the first two; the third block carries the certificate that makes the first one final.
\<close>

definition sum_sha :: "byte list \<Rightarrow> sha256" where
  "sum_sha bs = Sha256 (word_of_int (sum_list (map uint bs))) 0 0 1"

text \<open>Only strong certificates for one of the digests \<open>D\<close> verify.\<close>

definition sample_net_env :: "digest_type list \<Rightarrow> chain_env" where
  "sample_net_env D = sample_env\<lparr>env_sha := sum_sha,
     env_bls := sample_bls_api\<lparr>api_aggregate_verify := (\<lambda>_ msgs _. msgs \<in> set (map (\<lambda>d. [sha256_data d]) D))\<rparr>\<rparr>"

definition sample_net_input :: "block_header_state \<Rightarrow> block_num_type \<Rightarrow> bool \<Rightarrow> block_header_state_input" where
  "sample_net_input b n strong = (sample_input b None (Qc_claim n strong))
     \<lparr>bi_finality_mroot_claim := if n = 2 then sha256_zero else Sha256 1 1 1 1\<rparr>"

definition sample_net_block :: "block_state \<Rightarrow> block_num_type \<Rightarrow> bool \<Rightarrow> signed_block res" where
  "sample_net_block p n strong =
     rbind (next_from_input sum_sha (bs_bhs p) (sample_net_input (bs_bhs p) n strong)) (\<lambda>b.
     rbind (integrate_qc [] (if strong then Some (sample_strong_qc\<lparr>qc_block_num := n\<rparr>) else None)) (\<lambda>exts.
     Inr \<lparr>sb_header = bhs_header b, sb_producer_signature = SIG_K1 (replicate 65 0), sb_transactions = [], sb_block_extensions = exts\<rparr>))"

definition sample_net_accept :: "chain_env \<Rightarrow> block_state \<Rightarrow> block_num_type \<Rightarrow> bool \<Rightarrow> block_state res" where
  "sample_net_accept env p n strong =
     rbind (sample_net_block p n strong) (\<lambda>blk.
     rbind (calculate_id sum_sha (sb_header blk)) (\<lambda>block_id.
     checked_block env block_id blk p))"

definition sample_digests :: "digest_type list res" where
  "sample_digests =
     rbind (next_from_input sum_sha sample_parent (sample_net_input sample_parent 2 False)) (\<lambda>b.
     rbind (compute_finality_digest sum_sha b) (\<lambda>db.
     rbind (next_from_input sum_sha b (sample_net_input b 3 True)) (\<lambda>c.
     rbind (compute_finality_digest sum_sha c) (\<lambda>dc. Inr [db, dc]))))"

definition sample_net_run :: "(digest_type list \<times> block_state \<times> block_state \<times> block_state \<times> block_state) res" where
  "sample_net_run =
     rbind sample_digests (\<lambda>D.
     rbind (bs_init sum_sha sample_bls_api sample_parent None None sha256_zero) (\<lambda>g.
     rbind (sample_net_accept (sample_net_env D) g 2 False) (\<lambda>b.
     rbind (sample_net_accept (sample_net_env D) b 3 True) (\<lambda>c.
     rbind (sample_net_accept (sample_net_env D) c 4 True) (\<lambda>d.
     Inr (D, g, b, c, d))))))"

definition sample_fsi :: "block_state \<Rightarrow> finalizer_safety_information" where
  "sample_fsi g = unset_fsi\<lparr>fsi_lock := bs_make_block_ref g\<rparr>"

lemma sample_net_runs:
  "case sample_net_run of Inl _ \<Rightarrow> False | Inr (D, g, b, c, d) \<Rightarrow>
     D = [bs_strong_digest b, bs_strong_digest c] \<and> distinct (map bs_strong_digest [g, b, c, d]) \<and> distinct (map bs_id [g, b, c, d]) \<and>
     list_all (\<lambda>s. \<not> sha256_empty (bs_id s) \<and> bhs_active_finalizer_policy (bs_bhs s) = sample_policy \<and>
       bhs_pending_finalizer_policy (bs_bhs s) = None) [g, b, c, d] \<and> map bs_block_num [g, b, c, d] = [2, 3, 4, 5] \<and>
     last_final_block_num (bs_core c) = Inr 2 \<and> last_final_block_num (bs_core d) = Inr 3 \<and>
     (case vote_run (sample_fsi g) [b, c] of Inl _ \<Rightarrow> False | Inr (vs, _) \<Rightarrow> map snd vs = [True, True])"
  by code_simp

theorem votes_move_forward_witness:
  "\<exists>fsi bs vs fsi'. vote_run fsi bs = Inr (vs, fsi') \<and> length vs = 2 \<and> sorted_wrt (<) (map (\<lambda>(b, _). bs_timestamp b) vs)"
proof -
  obtain D g b c d where run: "sample_net_run = Inr (D, g, b, c, d)" using sample_net_runs by (auto split: sum.splits)
  note ev = sample_net_runs [unfolded run sum.case prod.case]
  from ev obtain vs f where v: "vote_run (sample_fsi g) [b, c] = Inr (vs, f)" "map snd vs = [True, True]" by (auto split: sum.splits simp del: vote_run.simps)
  from ev have "\<forall>b \<in> set [b, c]. \<not> sha256_empty (bs_id b)" unfolding list_all_iff by (simp del: vote_run.simps)
  from votes_move_forward [OF v(1) this] have "sorted_wrt (<) (map (\<lambda>(b, _). bs_timestamp b) vs)" by blast
  moreover have "length vs = 2" using arg_cong [OF v(2), of length] by simp
  ultimately show ?thesis using v(1) by blast
qed

end
