(* ===== verification/Network.thy ===== *)
theory Network
  imports Savanna Chain_Positions Sample_Network
begin

text \<open>
  Networks of nodes.  A network is the set of all blocks that any node ever accepted, each with its
  chain from the genesis block, and the histories of the honest finalizers: the blocks presented to
  them, in order.  The theory shows that the honest finalizers follow the rules that the locale
  \<open>savanna\<close> asks for, interprets the locale, and concludes that final blocks never conflict.
\<close>

section \<open>Networks\<close>

record network =
  net_env :: chain_env
  net_policy :: finalizer_policy
  net_blocks :: "block_header_state list set"
  net_honest :: "nat set"
  net_runs :: "nat \<Rightarrow> finalizer_safety_information \<times> block_state list"

definition accepted_pos :: "chain_env \<Rightarrow> block_header_state list \<Rightarrow> bool" where
  "accepted_pos env ss \<longleftrightarrow> ss \<noteq> [] \<and> accepted_chain env (butlast ss) (last ss)"

text \<open>
  The blocks: every node accepted the chain of each of them; they start from one genesis block, belong to
  a period in which the finalizer policy does not change, and have distinct, non-empty ids.
\<close>

definition blocks_ok :: "network \<Rightarrow> bool" where
  "blocks_ok N \<longleftrightarrow> inj_on (\<lambda>ss. bhs_block_id (last ss)) (net_blocks N) \<and>
     (\<forall>ss \<in> net_blocks N. accepted_pos (net_env N) ss \<and> \<not> sha256_empty (bhs_block_id (last ss)) \<and>
        bhs_active_finalizer_policy (last ss) = net_policy N \<and> bhs_pending_finalizer_policy (last ss) = None \<and>
        (\<forall>p. prefix p ss \<longrightarrow> p \<noteq> [] \<longrightarrow> p \<in> net_blocks N) \<and> (\<forall>tt \<in> net_blocks N. hd tt = hd ss))"

text \<open>An honest finalizer starts with a lock on a known block and is only shown states of known blocks.\<close>

definition run_ok :: "network \<Rightarrow> nat \<Rightarrow> bool" where
  "run_ok N i \<longleftrightarrow>
     (\<exists>ss \<in> net_blocks N. ref_block_id (fsi_lock (fst (net_runs N i))) = bhs_block_id (last ss) \<and>
        ref_timestamp (fsi_lock (fst (net_runs N i))) = bhs_timestamp (last ss)) \<and>
     (\<forall>b \<in> set (snd (net_runs N i)). \<exists>ss \<in> net_blocks N. bs_bhs b = last ss)"

definition finalizer_votes :: "network \<Rightarrow> nat \<Rightarrow> (block_header_state list \<times> bool) set" where
  "finalizer_votes N i = {(ss, q). ss \<in> net_blocks N \<and>
     (\<exists>vs fsi b. vote_run (fst (net_runs N i)) (snd (net_runs N i)) = Inr (vs, fsi) \<and> (b, q) \<in> set vs \<and> bs_bhs b = last ss)}"

text \<open>Signatures are not forged: a certificate that verifies has an honest finalizer's vote only if the finalizer cast it.\<close>

definition unforged :: "network \<Rightarrow> bool" where
  "unforged N \<longleftrightarrow> (\<forall>ss \<in> net_blocks N. \<forall>qc. certified_by (net_env N) qc (last ss) \<longrightarrow> (\<forall>i \<in> net_honest N.
     (i \<in> voters (strong_votes (active_policy_sig qc)) \<longrightarrow> (ss, True) \<in> finalizer_votes N i) \<and>
     (i \<in> voters (weak_votes (active_policy_sig qc)) \<longrightarrow> (ss, False) \<in> finalizer_votes N i)))"

text \<open>Two quorums overlap in more than the weight of the finalizers that are not honest.\<close>

definition honest_overlap :: "network \<Rightarrow> bool" where
  "honest_overlap N \<longleftrightarrow> policy_wf (net_policy N) \<and>
     total_weight (net_policy N) + weight_of (net_policy N) (- net_honest N) < 2 * unat (fp_threshold (net_policy N))"

definition net_ok :: "network \<Rightarrow> bool" where
  "net_ok N \<longleftrightarrow> blocks_ok N \<and> (\<forall>i \<in> net_honest N. run_ok N i) \<and> unforged N \<and> honest_overlap N"

abbreviation net_chain :: "network \<Rightarrow> block_header_state list \<Rightarrow> bool" where
  "net_chain N \<equiv> is_chain (env_sha (net_env N)) (env_g1_ok (net_env N)) (env_validator (net_env N))"

definition certified :: "network \<Rightarrow> block_header_state list \<Rightarrow> bool \<Rightarrow> bool" where
  "certified N ss s \<longleftrightarrow> net_ok N \<and> ss \<in> net_blocks N \<and> (\<exists>qc. certified_by (net_env N) qc (last ss) \<and> qc_is_strong qc = s)"

section \<open>Positions of a network\<close>

lemma pos_accepted:
  assumes "blocks_ok N" and "ss \<in> net_blocks N"
  shows "ss \<noteq> []" and "accepted_chain (net_env N) (butlast ss) (last ss)" and "net_chain N ss"
  using assms accepted_header_chain(1) unfolding blocks_ok_def accepted_pos_def is_chain_def by blast+

lemma pos_prefix: "blocks_ok N \<Longrightarrow> ss \<in> net_blocks N \<Longrightarrow> prefix p ss \<Longrightarrow> p \<noteq> [] \<Longrightarrow> p \<in> net_blocks N"
  unfolding blocks_ok_def by blast

lemma pos_inj: "blocks_ok N \<Longrightarrow> x \<in> net_blocks N \<Longrightarrow> y \<in> net_blocks N \<Longrightarrow> bhs_block_id (last x) = bhs_block_id (last y) \<Longrightarrow> x = y"
  unfolding blocks_ok_def by (blast dest: inj_onD)

lemma pos_genesis:
  assumes "blocks_ok N" and "x \<in> net_blocks N" and "y \<in> net_blocks N"
  shows "prefix [hd x] y"
proof -
  have "hd y = hd x" using assms unfolding blocks_ok_def by blast
  with pos_accepted(1) [OF assms(1,3)] show ?thesis by (cases y) simp_all
qed

lemma pos_ts_less: "blocks_ok N \<Longrightarrow> y \<in> net_blocks N \<Longrightarrow> prefix x y \<Longrightarrow> x \<noteq> [] \<Longrightarrow> x = y \<or> pos_ts x < pos_ts y"
  using chain_prefix_ts pos_accepted(3) by blast

lemma pos_claim:
  assumes "blocks_ok N" and "x \<in> net_blocks N"
  shows "claim_pos x \<in> net_blocks N" and "prefix (claim_pos x) x" and "claim_pos x \<noteq> []"
  using chain_claim_pos(1,2) [OF pos_accepted(3) [OF assms]] pos_prefix [OF assms] by blast+

text \<open>A block whose claim is its own number is the genesis block.\<close>

lemma pos_claim_self:
  assumes "blocks_ok N" and "x \<in> net_blocks N" and "claim_pos x = x" and "y \<in> net_blocks N"
  shows "prefix x y"
proof -
  have "length x = 1" using chain_claim_pos(5) [OF pos_accepted(3) [OF assms(1,2)]] assms(3) by blast
  then have "x = [hd x]" by (cases x) simp_all
  with pos_genesis [OF assms(1,2,4)] show ?thesis by metis
qed

lemma pos_at:
  assumes "net_chain N ss" and "a \<in> set ss" and "bhs_block_num a = n"
  shows "last (at_num ss n) = a" and "at_num ss n \<noteq> []"
proof -
  from assms(2) obtain i where i: "i < length ss" "ss ! i = a" by (auto simp: in_set_conv_nth)
  from chain_nums(2) [OF assms(1) i(1)] i(2) assms(3) have "unat n = first_num ss + i" by simp
  with i show "last (at_num ss n) = a" "at_num ss n \<noteq> []" by (auto simp: at_num_def take_Suc_conv_app_nth)
qed

text \<open>The claim of a block: the genesis block, or a certified one.\<close>

lemma pos_claim_backed:
  assumes ok: "net_ok N" and x: "x \<in> net_blocks N"
  shows "claim_pos x = [hd x] \<and> \<not> claims_strongly (last x) \<or> certified N (claim_pos x) (claims_strongly (last x))"
proof -
  from ok have b: "blocks_ok N" and pw: "policy_wf (net_policy N)" by (simp_all add: net_ok_def honest_overlap_def)
  note acc = pos_accepted [OF b x]
  have mem: "take n x \<in> net_blocks N" if "0 < n" for n using pos_prefix [OF b x, of "take n x"] acc(1) that take_is_prefix by auto
  have "\<forall>a \<in> set (butlast x). policies_wf a"
  proof
    fix a assume "a \<in> set (butlast x)"
    then obtain i where i: "i < length x" "x ! i = a" by (metis in_set_butlastD in_set_conv_nth)
    then have "last (take (Suc i) x) = a" by (simp add: take_Suc_conv_app_nth)
    with mem [of "Suc i"] b pw show "policies_wf a" unfolding blocks_ok_def policies_wf_def pending_policy_def by force
  qed
  from accepted_last_claim [OF acc(2) this] acc(1)
  have cl: "header_claim (last x) = Qc_claim (bhs_block_num (hd x)) False \<or> claim_backed (net_env N) (butlast x) (header_claim (last x))" by simp
  have hc: "header_claim (last x) = Qc_claim (claim_num (last x)) (claims_strongly (last x))"
    using chain_core(5) [OF acc(3)] accepted_header_chain(2) [OF acc(2)] by (simp add: claims_strongly_def)
  from cl show ?thesis
  proof
    assume "header_claim (last x) = Qc_claim (bhs_block_num (hd x)) False"
    with hc have "claim_num (last x) = bhs_block_num (hd x)" "\<not> claims_strongly (last x)" by simp_all
    moreover from this(1) have "claim_pos x = [hd x]" using acc(1) by (cases x) (simp_all add: at_num_def first_num_def)
    ultimately show ?thesis by simp
  next
    assume "claim_backed (net_env N) (butlast x) (header_claim (last x))"
    then obtain a qc where a: "a \<in> set (butlast x)" "certified_by (net_env N) qc a" "claim_num (last x) = bhs_block_num a" "qc_is_strong qc = claims_strongly (last x)"
      unfolding claim_backed_def hc by auto
    from pos_at(1) [OF acc(3) in_set_butlastD [OF a(1)]] a(3) have "last (claim_pos x) = a" by simp
    with a(2,4) ok pos_claim(1) [OF b x] show ?thesis unfolding certified_def by blast
  qed
qed

section \<open>Honest finalizers\<close>

definition refers :: "network \<Rightarrow> block_ref \<Rightarrow> block_header_state list \<Rightarrow> bool" where
  "refers N r ss \<longleftrightarrow> ss \<in> net_blocks N \<and> ref_block_id r = bhs_block_id (last ss) \<and> ref_timestamp r = bhs_timestamp (last ss)"

text \<open>What a vote for \<open>y\<close> owes to an earlier vote for \<open>x\<close>.\<close>

definition lock_respected :: "network \<Rightarrow> block_header_state list \<Rightarrow> block_header_state list \<Rightarrow> bool" where
  "lock_respected N c l \<longleftrightarrow> pos_ts (claim_pos c) \<le> pos_ts l \<and> ((\<exists>s. certified N l s) \<or> prefix (claim_pos c) l)"

definition vote_follows :: "network \<Rightarrow> block_header_state list \<times> bool \<Rightarrow> block_header_state list \<times> bool \<Rightarrow> bool" where
  "vote_follows N x y \<longleftrightarrow> pos_ts (fst x) < pos_ts (fst y) \<and>
     (snd y \<longrightarrow> prefix (fst x) (fst y) \<or> pos_ts (fst x) \<le> pos_ts (claim_pos (fst y))) \<and>
     (snd x \<longrightarrow> (\<exists>l \<in> net_blocks N. lock_respected N (fst x) l \<and> (pos_ts l < pos_ts (claim_pos (fst y)) \<or> l \<noteq> fst y \<and> prefix l (fst y))))"

text \<open>The votes cast so far, as positions, and the safety information.\<close>

definition last_vote_ok :: "network \<Rightarrow> (block_header_state list \<times> bool) list \<Rightarrow> finalizer_safety_information \<Rightarrow> bool" where
  "last_vote_ok N xs f \<longleftrightarrow> (xs \<noteq> [] \<longrightarrow> refers N (fsi_last_vote f) (fst (last xs)) \<and>
     (\<forall>x \<in> set xs. prefix (fst x) (fst (last xs)) \<or>
        pos_ts (fst x) \<le> max (unat (fsi_other_branch_latest_time f)) (pos_ts (claim_pos (fst (last xs))))))"

definition lock_ok :: "network \<Rightarrow> (block_header_state list \<times> bool) list \<Rightarrow> finalizer_safety_information \<Rightarrow> bool" where
  "lock_ok N xs f \<longleftrightarrow> (\<exists>l. refers N (fsi_lock f) l \<and> (\<forall>x \<in> set xs. snd x \<longrightarrow> lock_respected N (fst x) l))"

definition run_inv :: "network \<Rightarrow> (block_header_state list \<times> bool) list \<Rightarrow> finalizer_safety_information \<Rightarrow> bool" where
  "run_inv N xs f \<longleftrightarrow> fst ` set xs \<subseteq> net_blocks N \<and> sorted_wrt (vote_follows N) xs \<and> last_vote_ok N xs f \<and> lock_ok N xs f"

lemma extends_refers:
  assumes "blocks_ok N" and "y \<in> net_blocks N" and "bs_bhs b = last y" and "refers N r x" and "extends (bs_core b) (ref_block_id r) = Inr True"
  shows "prefix x y" and "x \<noteq> y"
proof -
  from chain_extends [OF pos_accepted(3) [OF assms(1,2)]] assms(3,5) obtain p where p: "prefix p y" "p \<noteq> y" "p \<noteq> []" "bhs_block_id (last p) = ref_block_id r"
    by auto
  moreover have "p = x" using pos_inj [OF assms(1) pos_prefix [OF assms(1,2) p(1,3)]] p(4) assms(4) by (simp add: refers_def)
  ultimately show "prefix x y" "x \<noteq> y" by auto
qed

lemma vote_time:
  assumes "blocks_ok N" and "y \<in> net_blocks N" and "bs_bhs b = last y" and "latest_qc_block_timestamp (bs_core b) = Inr t"
  shows "unat t = pos_ts (claim_pos y)"
  using chain_claim_time [OF pos_accepted(3) [OF assms(1,2)]] assms(3,4) by (simp add: pos_ts_def)

text \<open>The vote for a next block keeps each part of the invariant.\<close>

lemma vote_later:
  assumes ok: "blocks_ok N" and inv: "run_inv N xs f" and b: "bs_bhs b = last y" and can: "can_vote f b t" and x: "x \<in> set xs"
  shows "pos_ts (fst x) \<le> unat (ref_timestamp (fsi_last_vote f))" and "pos_ts (fst x) < pos_ts y"
proof -
  from x have ne: "xs \<noteq> []" by auto
  with inv have L: "refers N (fsi_last_vote f) (fst (last xs))" and srt: "sorted_wrt (vote_follows N) xs"
    by (simp_all add: run_inv_def last_vote_ok_def)
  from L ok have "\<not> ref_empty (fsi_last_vote f)" unfolding refers_def blocks_ok_def ref_empty_def by metis
  with can b have lt: "ref_timestamp (fsi_last_vote f) < bhs_timestamp (last y)" by (simp add: can_vote_def bs_timestamp_def)
  from srt ne x have "x = last xs \<or> vote_follows N x (last xs)"
    by (cases xs rule: rev_cases) (auto simp: sorted_wrt_append)
  then have "pos_ts (fst x) \<le> pos_ts (fst (last xs))" by (auto simp: vote_follows_def)
  with L lt show "pos_ts (fst x) \<le> unat (ref_timestamp (fsi_last_vote f))" "pos_ts (fst x) < pos_ts y"
    by (simp_all add: refers_def pos_ts_def word_less_nat_alt)
qed

lemma branch_covered:
  assumes ok: "blocks_ok N" and inv: "run_inv N xs f" and y: "y \<in> net_blocks N" and b: "bs_bhs b = last y" and x: "x \<in> set xs"
    and ext: "extends (bs_core b) (ref_block_id (fsi_last_vote f)) = Inr True"
  shows "prefix (fst x) y \<or> pos_ts (fst x) \<le> max (unat (fsi_other_branch_latest_time f)) (pos_ts (claim_pos y))"
proof -
  let ?L = "fst (last xs)"
  from x inv have L: "refers N (fsi_last_vote f) ?L"
    and c: "prefix (fst x) ?L \<or> pos_ts (fst x) \<le> max (unat (fsi_other_branch_latest_time f)) (pos_ts (claim_pos ?L))"
    by (auto simp: run_inv_def last_vote_ok_def)
  from L have Lb: "?L \<in> net_blocks N" by (simp add: refers_def)
  note Ly = extends_refers(1) [OF ok y b L ext]
  have "prefix (claim_pos ?L) (claim_pos y)" using chain_claim_mono [OF pos_accepted(3) [OF ok y] Ly pos_accepted(1) [OF ok Lb]] .
  from pos_ts_less [OF ok pos_claim(1) [OF ok y] this pos_claim(3) [OF ok Lb]]
  have le: "pos_ts (claim_pos ?L) \<le> pos_ts (claim_pos y)" by (elim disjE) simp_all
  from c show ?thesis
  proof
    assume "prefix (fst x) ?L"
    from prefix_order.trans [OF this Ly] show ?thesis ..
  next
    assume "pos_ts (fst x) \<le> max (unat (fsi_other_branch_latest_time f)) (pos_ts (claim_pos ?L))"
    with le show ?thesis by linarith
  qed
qed

lemma vote_last_ok:
  assumes ok: "blocks_ok N" and inv: "run_inv N xs f" and y: "y \<in> net_blocks N" and b: "bs_bhs b = last y"
    and t: "latest_qc_block_timestamp (bs_core b) = Inr t" and can: "can_vote f b t" and aft: "after_vote f b t (strong_ok f b t) f'" and x: "x \<in> set xs"
  shows "strong_ok f b t \<Longrightarrow> prefix (fst x) y \<or> pos_ts (fst x) \<le> pos_ts (claim_pos y)"
    and "prefix (fst x) y \<or> pos_ts (fst x) \<le> max (unat (fsi_other_branch_latest_time f')) (pos_ts (claim_pos y))"
proof -
  note tt = vote_time [OF ok y b t] and later = vote_later(1) [OF ok inv b can x] and cov = branch_covered [OF ok inv y b x]
  show strong: "prefix (fst x) y \<or> pos_ts (fst x) \<le> pos_ts (claim_pos y)" if "strong_ok f b t"
    using that later cov tt by (auto simp: strong_ok_def word_le_nat_alt)
  show "prefix (fst x) y \<or> pos_ts (fst x) \<le> max (unat (fsi_other_branch_latest_time f')) (pos_ts (claim_pos y))"
  proof (cases "strong_ok f b t")
    case True
    with strong show ?thesis by auto
  next
    case False
    with aft later cov show ?thesis by (auto simp: after_vote_def split: if_splits)
  qed
qed

text \<open>The lock after the vote, and the reason why the vote was allowed.\<close>

lemma vote_lock_reason:
  assumes ok: "blocks_ok N" and y: "y \<in> net_blocks N" and b: "bs_bhs b = last y"
    and t: "latest_qc_block_timestamp (bs_core b) = Inr t" and can: "can_vote f b t" and l: "refers N (fsi_lock f) l"
  shows "pos_ts l < pos_ts (claim_pos y) \<or> l \<noteq> y \<and> prefix l y"
proof -
  from can consider "ref_timestamp (fsi_lock f) < t" | "extends (bs_core b) (ref_block_id (fsi_lock f)) = Inr True" by (auto simp: can_vote_def)
  then show ?thesis
  proof cases
    case 1
    with l vote_time [OF ok y b t] show ?thesis by (simp add: refers_def pos_ts_def word_less_nat_alt)
  next
    case 2
    with extends_refers [OF ok y b l] show ?thesis by blast
  qed
qed

lemma strong_vote_lock_moves:
  assumes ok: "net_ok N" and y: "y \<in> net_blocks N" and b: "bs_bhs b = last y" and l: "refers N (fsi_lock f) l"
    and lt: "pos_ts l < pos_ts (claim_pos y)" and q: "latest_qc_claim (bs_core b) = Inr c" "get_block_reference (bs_core b) (claim_block_num c) = Inr (fsi_lock f')"
  shows "refers N (fsi_lock f') (claim_pos y)" and "\<exists>s. certified N (claim_pos y) s"
proof -
  from ok have bo: "blocks_ok N" by (simp add: net_ok_def)
  note ch = pos_accepted(3) [OF bo y] and cl = pos_claim [OF bo y]
  from l have lb: "l \<in> net_blocks N" by (simp add: refers_def)
  have ng: "\<not> prefix (claim_pos y) l" using pos_ts_less [OF bo lb _ cl(3)] lt by fastforce
  then have "claim_pos y \<noteq> [hd y]" using pos_genesis [OF bo y lb] by metis
  with pos_claim_backed [OF ok y] show "\<exists>s. certified N (claim_pos y) s" by blast
  have "length y \<noteq> 1" using chain_claim_pos(6) [OF ch] pos_claim_self [OF bo y _ lb] ng by metis
  with chain_claim_ref [OF ch] chain_core(5) [OF ch] q b have "make_block_ref (env_sha (net_env N)) (last (claim_pos y)) = Inr (fsi_lock f')" by auto
  from make_block_refD [OF this] cl(1) show "refers N (fsi_lock f') (claim_pos y)" by (simp add: refers_def)
qed

lemma vote_lock_ok:
  assumes ok: "net_ok N" and inv: "run_inv N xs f" and y: "y \<in> net_blocks N" and b: "bs_bhs b = last y"
    and t: "latest_qc_block_timestamp (bs_core b) = Inr t" and can: "can_vote f b t" and aft: "after_vote f b t s f'"
  shows "lock_ok N (xs @ [(y, s)]) f'"
proof -
  from ok have bo: "blocks_ok N" by (simp add: net_ok_def)
  note tt = vote_time [OF bo y b t] and cl = pos_claim [OF bo y]
  from inv obtain l where l: "refers N (fsi_lock f) l" and old: "\<forall>x \<in> set xs. snd x \<longrightarrow> lock_respected N (fst x) l"
    unfolding run_inv_def lock_ok_def by blast
  have lts: "unat (ref_timestamp (fsi_lock f)) = pos_ts l" and lb: "l \<in> net_blocks N" using l by (simp_all add: refers_def pos_ts_def)
  show ?thesis
  proof (cases "s \<and> pos_ts l < pos_ts (claim_pos y)")
    case True
    with aft tt lts obtain c where "latest_qc_claim (bs_core b) = Inr c" "get_block_reference (bs_core b) (claim_block_num c) = Inr (fsi_lock f')"
      by (auto simp: after_vote_def word_less_nat_alt)
    from strong_vote_lock_moves [OF ok y b l _ this] True
    have m: "refers N (fsi_lock f') (claim_pos y)" "\<exists>s. certified N (claim_pos y) s" by blast+
    have "\<forall>x \<in> set (xs @ [(y, s)]). snd x \<longrightarrow> lock_respected N (fst x) (claim_pos y)"
      using old True m(2) unfolding lock_respected_def by fastforce
    with m(1) show ?thesis unfolding lock_ok_def by blast
  next
    case False
    with aft tt lts have same: "fsi_lock f' = fsi_lock f" by (auto simp: after_vote_def word_less_nat_alt split: if_splits)
    have "lock_respected N y l" if s
    proof -
      from False that have le: "pos_ts (claim_pos y) \<le> pos_ts l" by simp
      with vote_lock_reason [OF bo y b t can l] have "prefix l y" by auto
      then have "prefix l (claim_pos y) \<or> prefix (claim_pos y) l" using cl(2) prefix_same_cases by blast
      then have "prefix (claim_pos y) l" using pos_ts_less [OF bo cl(1) _ pos_accepted(1) [OF bo lb]] le by fastforce
      with le show ?thesis by (simp add: lock_respected_def)
    qed
    with old l same show ?thesis unfolding lock_ok_def by auto
  qed
qed

lemma run_inv_step:
  assumes ok: "net_ok N" and inv: "run_inv N xs f" and y: "y \<in> net_blocks N" and b: "bs_bhs b = last y"
    and t: "latest_qc_block_timestamp (bs_core b) = Inr t" and can: "can_vote f b t" and s: "s = strong_ok f b t" and aft: "after_vote f b t s f'"
  shows "run_inv N (xs @ [(y, s)]) f'"
proof -
  from ok have bo: "blocks_ok N" by (simp add: net_ok_def)
  note last = vote_last_ok [OF bo inv y b t can aft [unfolded s]]
  from inv obtain l where l: "refers N (fsi_lock f) l" and lo: "\<forall>x \<in> set xs. snd x \<longrightarrow> lock_respected N (fst x) l"
    and old: "fst ` set xs \<subseteq> net_blocks N" "sorted_wrt (vote_follows N) xs"
    unfolding run_inv_def lock_ok_def by blast
  have "vote_follows N x (y, s)" if "x \<in> set xs" for x
    using vote_later(2) [OF bo inv b can that] last(1) [OF that] s lo that l vote_lock_reason [OF bo y b t can l]
    unfolding vote_follows_def refers_def fst_conv snd_conv by blast
  then have srt: "sorted_wrt (vote_follows N) (xs @ [(y, s)])" using old by (simp add: sorted_wrt_append)
  have "refers N (fsi_last_vote f') y" using aft y b by (simp add: after_vote_def refers_def bs_make_block_ref_def bs_id_def bs_timestamp_def)
  then have "last_vote_ok N (xs @ [(y, s)]) f'" using last(2) by (auto simp: last_vote_ok_def)
  with srt old(1) y vote_lock_ok [OF ok inv y b t can aft] show ?thesis by (simp add: run_inv_def)
qed

lemma honest_run_inv:
  assumes ok: "net_ok N" and i: "i \<in> net_honest N" and run: "vote_run (fst (net_runs N i)) (snd (net_runs N i)) = Inr (vs, f)"
  shows "\<exists>xs. map (\<lambda>(b, q). (bs_bhs b, q)) vs = map (\<lambda>(x, q). (last x, q)) xs \<and> run_inv N xs f"
proof -
  let ?I = "\<lambda>(us :: (block_state \<times> bool) list) f. \<exists>xs. map (\<lambda>(b, q). (bs_bhs b, q)) us = map (\<lambda>(x, q). (last x, q)) xs \<and> run_inv N xs f"
  from ok i have r: "run_ok N i" by (simp add: net_ok_def)
  have "?I ([] @ vs) f"
  proof (rule vote_run_induct [OF run])
    show "?I [] (fst (net_runs N i))"
      using r by (auto simp: run_ok_def run_inv_def last_vote_ok_def lock_ok_def refers_def)
  next
    fix us f b t strong f'
    assume I: "?I us f" and b: "b \<in> set (snd (net_runs N i))" and t: "latest_qc_block_timestamp (bs_core b) = Inr t"
      and can: "can_vote f b t" and s: "strong = strong_ok f b t" and aft: "after_vote f b t strong f'"
    from r b obtain y where y: "y \<in> net_blocks N" "bs_bhs b = last y" unfolding run_ok_def by blast
    from I obtain xs where xs: "map (\<lambda>(b, q). (bs_bhs b, q)) us = map (\<lambda>(x, q). (last x, q)) xs" "run_inv N xs f" by blast
    from run_inv_step [OF ok xs(2) y t can s aft] xs(1) y(2) show "?I (us @ [(b, strong)]) f'"
      by (intro exI [of _ "xs @ [(y, strong)]"]) simp
  qed
  then show ?thesis by simp
qed

lemma honest_votes_ordered:
  assumes ok: "net_ok N" and i: "i \<in> net_honest N" and "x \<in> finalizer_votes N i" and "y \<in> finalizer_votes N i"
  shows "x = y \<or> vote_follows N x y \<or> vote_follows N y x"
proof -
  from ok have bo: "blocks_ok N" by (simp add: net_ok_def)
  from assms(3) obtain vs f where run: "vote_run (fst (net_runs N i)) (snd (net_runs N i)) = Inr (vs, f)" by (auto simp: finalizer_votes_def)
  from honest_run_inv [OF ok i run] obtain xs where xs: "map (\<lambda>(b, q). (bs_bhs b, q)) vs = map (\<lambda>(x, q). (last x, q)) xs" "run_inv N xs f" by blast
  from xs(2) have srt: "sorted_wrt (vote_follows N) xs" and sub: "fst ` set xs \<subseteq> net_blocks N" by (simp_all add: run_inv_def)
  have mem: "z \<in> set xs" if z: "z \<in> finalizer_votes N i" for z
  proof -
    from z run obtain p q b where p: "z = (p, q)" "p \<in> net_blocks N" "(b, q) \<in> set vs" "bs_bhs b = last p" by (auto simp: finalizer_votes_def)
    then have "(last p, q) \<in> set (map (\<lambda>(x, q). (last x, q)) xs)" unfolding xs(1) [symmetric] by force
    then obtain p' where p': "(p', q) \<in> set xs" "last p' = last p" by auto
    with pos_inj [OF bo p(2), of p'] sub p(1) show ?thesis by force
  qed
  from mem assms(3,4) obtain j k where "j < length xs" "k < length xs" "x = xs ! j" "y = xs ! k" by (metis in_set_conv_nth)
  with srt show ?thesis by (metis linorder_neqE_nat sorted_wrt_nth_less)
qed

section \<open>Final blocks never conflict\<close>

lemma certificate_voters:
  assumes "certified N x s"
  obtains V where "unat (fp_threshold (net_policy N)) \<le> weight_of (net_policy N) V"
    and "\<And>i. i \<in> V \<Longrightarrow> i \<in> net_honest N \<Longrightarrow> \<exists>q. (x, q) \<in> finalizer_votes N i \<and> (s \<longrightarrow> q)"
proof -
  from assms obtain qc where ok: "net_ok N" and x: "x \<in> net_blocks N" and qc: "certified_by (net_env N) qc (last x)" "qc_is_strong qc = s"
    by (auto simp: certified_def)
  from ok x have pol: "bhs_active_finalizer_policy (last x) = net_policy N" and pw: "policy_wf (net_policy N)"
    by (simp_all add: net_ok_def blocks_ok_def honest_overlap_def)
  let ?s = "active_policy_sig qc"
  from qc(1) pol have "sig_verified ?s (net_policy N)" by (simp add: certified_by_def)
  with sig_verified_iff [OF pw] have w: "unat (fp_threshold (net_policy N)) \<le> weight_of (net_policy N) (sig_voters ?s)" by (simp add: quorum_ok_def)
  show thesis
  proof (rule that [OF w])
    fix i assume i: "i \<in> sig_voters ?s" "i \<in> net_honest N"
    from ok qc(1) x i(2) have u: "i \<in> voters (strong_votes ?s) \<Longrightarrow> (x, True) \<in> finalizer_votes N i" "i \<in> voters (weak_votes ?s) \<Longrightarrow> (x, False) \<in> finalizer_votes N i"
      unfolding net_ok_def unforged_def by blast+
    have "s \<Longrightarrow> i \<notin> voters (weak_votes ?s)" using qc(2) by (auto simp: qc_is_strong_def sig_is_strong_def)
    with i(1) u show "\<exists>q. (x, q) \<in> finalizer_votes N i \<and> (s \<longrightarrow> q)" unfolding sig_voters_def by blast
  qed
qed

lemma certificates_share_honest:
  assumes "certified N x s" and "certified N y s'"
  shows "\<exists>i \<in> net_honest N. (\<exists>q. (x, q) \<in> finalizer_votes N i \<and> (s \<longrightarrow> q)) \<and> (\<exists>q. (y, q) \<in> finalizer_votes N i \<and> (s' \<longrightarrow> q))"
proof -
  let ?p = "net_policy N"
  from assms(1) have ov: "total_weight ?p + weight_of ?p (- net_honest N) < 2 * unat (fp_threshold ?p)"
    by (simp add: certified_def net_ok_def honest_overlap_def)
  obtain V where V: "unat (fp_threshold ?p) \<le> weight_of ?p V" "\<And>i. i \<in> V \<Longrightarrow> i \<in> net_honest N \<Longrightarrow> \<exists>q. (x, q) \<in> finalizer_votes N i \<and> (s \<longrightarrow> q)"
    using certificate_voters [OF assms(1)] by blast
  obtain W where W: "unat (fp_threshold ?p) \<le> weight_of ?p W" "\<And>i. i \<in> W \<Longrightarrow> i \<in> net_honest N \<Longrightarrow> \<exists>q. (y, q) \<in> finalizer_votes N i \<and> (s' \<longrightarrow> q)"
    using certificate_voters [OF assms(2)] by blast
  have "\<not> V \<inter> W \<subseteq> - net_honest N"
  proof
    assume sub: "V \<inter> W \<subseteq> - net_honest N"
    have "weight_of ?p (V \<inter> W) \<le> weight_of ?p (- net_honest N)" unfolding weight_of_def using sub by (intro sum_mono2) auto
    with weight_of_Un_Int [of ?p V W] weight_of_le_total [of ?p "V \<union> W"] V(1) W(1) ov show False by linarith
  qed
  with V(2) W(2) show ?thesis by blast
qed

definition ok_blocks :: "network \<Rightarrow> block_header_state list set" where
  "ok_blocks N = (if net_ok N then net_blocks N else {})"

definition ok_honest :: "network \<Rightarrow> nat set" where
  "ok_honest N = (if net_ok N then net_honest N else {})"

lemma ok_members: "x \<in> ok_blocks N \<longleftrightarrow> net_ok N \<and> x \<in> net_blocks N" "i \<in> ok_honest N \<longleftrightarrow> net_ok N \<and> i \<in> net_honest N"
  by (simp_all add: ok_blocks_def ok_honest_def)

interpretation network: savanna "ok_blocks N" prefix pos_ts claim_pos "ok_honest N" "finalizer_votes N" "certified N" for N
proof
  have bo: "net_ok N \<Longrightarrow> blocks_ok N" by (simp add: net_ok_def)
  show "prefix x z" if "prefix x y" "prefix y z" for x y z :: "block_header_state list" using that by (rule prefix_order.trans)
  show "prefix x y \<or> prefix y x" if "prefix x z" "prefix y z" for x y z :: "block_header_state list" using that by (rule prefix_same_cases)
  show "x = y \<or> pos_ts x < pos_ts y" if "x \<in> ok_blocks N" "y \<in> ok_blocks N" "prefix x y" for x y
    using that pos_ts_less [OF bo] pos_accepted(1) [OF bo] by (simp add: ok_members)
  show "claim_pos x \<in> ok_blocks N \<and> prefix (claim_pos x) x" if "x \<in> ok_blocks N" for x
    using that pos_claim [OF bo] by (simp add: ok_members)
  show "prefix x y" if "x \<in> ok_blocks N" "claim_pos x = x" "y \<in> ok_blocks N" for x y
    using that pos_claim_self [OF bo] by (simp add: ok_members)
  show "(\<exists>s. certified N (claim_pos x) s) \<or> (\<forall>y \<in> ok_blocks N. prefix (claim_pos x) y)" if "x \<in> ok_blocks N" for x
  proof -
    from that have "net_ok N" "x \<in> net_blocks N" by (simp_all add: ok_members)
    with pos_claim_backed [of N x] pos_genesis [OF bo, of x] show ?thesis by (auto simp: ok_members)
  qed
  show "x \<in> ok_blocks N" if "certified N x s" for x s using that by (simp add: ok_members certified_def)
  show "\<exists>v \<in> ok_honest N. (\<exists>q. (x, q) \<in> finalizer_votes N v \<and> (s \<longrightarrow> q)) \<and> (\<exists>q. (y, q) \<in> finalizer_votes N v \<and> (s' \<longrightarrow> q))"
    if "certified N x s" "certified N y s'" for x y s s'
    using certificates_share_honest [OF that] that(1) by (simp add: ok_honest_def certified_def)
  fix v x q y q'
  assume v: "v \<in> ok_honest N" and x: "(x, q) \<in> finalizer_votes N v"
  then have ord: "(y, q') \<in> finalizer_votes N v \<Longrightarrow> (x, q) = (y, q') \<or> vote_follows N (x, q) (y, q') \<or> vote_follows N (y, q') (x, q)" for y q'
    using honest_votes_ordered unfolding ok_members by blast
  show "x = y" if "(y, q') \<in> finalizer_votes N v" "pos_ts x = pos_ts y"
    using ord [OF that(1)] that(2) by (auto simp: vote_follows_def)
  show "prefix x c \<or> pos_ts x \<le> pos_ts (claim_pos c)" if "(c, True) \<in> finalizer_votes N v" "pos_ts x < pos_ts c" for c
    using ord [OF that(1)] that(2) by (auto simp: vote_follows_def)
  show "\<exists>l \<in> ok_blocks N. pos_ts (claim_pos c) \<le> pos_ts l \<and> ((\<exists>s. certified N l s) \<or> prefix (claim_pos c) l) \<and> (pos_ts l < pos_ts (claim_pos x) \<or> l \<noteq> x \<and> prefix l x)"
    if "(c, True) \<in> finalizer_votes N v" "pos_ts c < pos_ts x" for c
    using ord [OF that(1)] that(2) v by (auto simp: vote_follows_def lock_respected_def ok_members)
qed

text \<open>The last final block of a position is the genesis block or final in the sense of the locale.\<close>

lemma at_num_prefix: "prefix p ss \<Longrightarrow> p \<noteq> [] \<Longrightarrow> unat n - first_num ss < length p \<Longrightarrow> at_num p n = at_num ss n"
  by (auto simp: prefix_def at_num_def first_num_def)

lemma last_final_position:
  assumes ok: "net_ok N" and x: "x \<in> net_blocks N"
  shows "at_num x (lib_of (last x)) = [hd x] \<or> network.final N (at_num x (lib_of (last x)))"
proof -
  from ok have bo: "blocks_ok N" by (simp add: net_ok_def)
  note ch = pos_accepted(3) [OF bo x] and ne = pos_accepted(1) [OF bo x]
  from ne have bl: "butlast x @ [last x] = x" by simp
  from header_chain_lib_origin [of "env_sha (net_env N)" "env_g1_ok (net_env N)" "env_validator (net_env N)" "butlast x" "last x"] ch bl
  consider "lib_of (last x) = bhs_block_num (hd x)"
    | c m where "c \<in> set x" "claims_strongly c" "m \<in> set x" "bhs_block_num m = claim_num c" "claim_num m = lib_of (last x)"
    unfolding is_chain_def by auto
  then show ?thesis
  proof cases
    case 1
    with ne show ?thesis by (cases x) (simp_all add: at_num_def first_num_def)
  next
    case (2 c m)
    have at: "\<exists>p \<in> net_blocks N. prefix p x \<and> last p = a \<and> p = at_num x (bhs_block_num a)" if "a \<in> set x" for a
      using pos_at [OF ch that refl] pos_prefix [OF bo x _ pos_at(2) [OF ch that refl]] by (auto simp: at_num_def take_is_prefix)
    have claim: "claim_pos p = at_num x (claim_num a)" if "p \<in> net_blocks N" "prefix p x" "last p = a" for p a
    proof -
      note pc = pos_accepted [OF bo that(1)]
      have "first_num p = first_num x" using that(2) pc(1) by (auto simp: prefix_def first_num_def)
      moreover have "length (claim_pos p) \<le> length p" using pos_claim(2) [OF bo that(1)] by (rule prefix_length_le)
      ultimately have "unat (claim_num a) - first_num x < length p"
        using chain_at_num(4) [OF pc(3) chain_claim_range(1,2) [OF pc(3)]] that(3) by simp
      with at_num_prefix [OF that(2) pc(1)] that(3) show ?thesis by simp
    qed
    from at [OF 2(1)] obtain p where p: "p \<in> net_blocks N" "prefix p x" "last p = c" by blast
    from at [OF 2(3)] obtain k where k: "k \<in> net_blocks N" "prefix k x" "last k = m" "k = at_num x (bhs_block_num m)" by blast
    have "claim_pos p = k" using claim [OF p] k(4) 2(4) by simp
    with pos_claim_backed [OF ok p(1)] 2(2) p(3) have "certified N k True" by auto
    moreover have "claim_pos k = at_num x (lib_of (last x))" using claim [OF k(1-3)] 2(5) by simp
    ultimately show ?thesis unfolding network.final_def by blast
  qed
qed

text \<open>
  C1: Final blocks never conflict.  Consider any set of blocks accepted by the nodes of a network
  from one genesis block in a period with one finalizer policy, whatever order they arrived in and whatever
  forks they form.  Let the finalizers that may behave arbitrarily weigh less than the overlap of two
  quorums, and let the others vote by \<open>decide_vote\<close>, with signatures that nobody forges.  Then the
  last final blocks of any two chains lie on one chain: the one is an ancestor of the other.
\<close>

theorem final_blocks_never_conflict:
  assumes "net_ok N" and "x \<in> net_blocks N" and "y \<in> net_blocks N"
    and "last_final_block_num (bhs_core (last x)) = Inr n" and "last_final_block_num (bhs_core (last y)) = Inr m"
  shows "prefix (at_num x n) (at_num y m) \<or> prefix (at_num y m) (at_num x n)"
proof -
  from assms(1) have bo: "blocks_ok N" by (simp add: net_ok_def)
  have lib: "n = lib_of (last x)" "m = lib_of (last y)"
    using chain_core(4) [OF pos_accepted(3) [OF bo assms(2)]] chain_core(4) [OF pos_accepted(3) [OF bo assms(3)]] assms(4,5) by simp_all
  have gen: "prefix [hd a] (at_num b k)" if "a \<in> net_blocks N" "b \<in> net_blocks N" for a b k
    using pos_genesis [OF bo that] pos_accepted(1) [OF bo that(2)] by (cases b) (auto simp: at_num_def)
  from last_final_position [OF assms(1,2)] show ?thesis
  proof
    assume "at_num x (lib_of (last x)) = [hd x]"
    with gen [OF assms(2,3)] show ?thesis by (simp add: lib)
  next
    assume fx: "network.final N (at_num x (lib_of (last x)))"
    from last_final_position [OF assms(1,3)] show ?thesis
    proof
      assume "at_num y (lib_of (last y)) = [hd y]"
      with gen [OF assms(3,2)] show ?thesis by (simp add: lib)
    next
      assume "network.final N (at_num y (lib_of (last y)))"
      with network.final_comparable [OF fx] show ?thesis by (simp add: lib)
    qed
  qed
qed

section \<open>A concrete network\<close>

definition sample_network :: "digest_type list \<Rightarrow> block_state \<Rightarrow> block_state \<Rightarrow> block_state \<Rightarrow> block_state \<Rightarrow> network" where
  "sample_network D g b c d =
     \<lparr>net_env = sample_net_env D, net_policy = sample_policy,
      net_blocks = {[bs_bhs g], map bs_bhs [g, b], map bs_bhs [g, b, c], map bs_bhs [g, b, c, d]},
      net_honest = {..< 4}, net_runs = (\<lambda>_. (sample_fsi g, [b, c]))\<rparr>"

lemma vote_run_blocks: "vote_run f bs = Inr (vs, f') \<Longrightarrow> subseq (map fst vs) bs"
proof (induction bs arbitrary: f vs)
  case (Cons b bs)
  from Cons.prems obtain r f1 us where "decide_vote f b = Inr (r, f1)" and us: "vote_run f1 bs = Inr (us, f')"
    and vs: "vs = (if vr_decision r = No_vote then [] else [(b, vr_decision r = Strong_vote)]) @ us" by (auto simp: rbind_Inr_iff)
  from Cons.IH [OF us] vs list_emb_Cons [of "(=)" "map fst us" bs b] show ?case by simp
qed simp

lemma sample_net_step:
  assumes "accepted_chain env hs (bs_bhs p)" and "make_block_ref (env_sha env) (bs_bhs p) = Inr (bs_make_block_ref p)"
    and "unat (bs_block_num p) + 1 < 2 ^ 32" and "sample_net_accept env p n strong = Inr q"
  shows "accepted_chain env (hs @ [bs_bhs p]) (bs_bhs q)" and "make_block_ref (env_sha env) (bs_bhs q) = Inr (bs_make_block_ref q)"
proof -
  from assms(4) obtain blk i where c: "checked_block env i blk p = Inr q" unfolding sample_net_accept_def rbind_Inr_iff by blast
  from accepted_chain.received [OF assms(1,2) c] assms(3) show "accepted_chain env (hs @ [bs_bhs p]) (bs_bhs q)" by (simp add: bs_block_num_def)
  from c show "make_block_ref (env_sha env) (bs_bhs q) = Inr (bs_make_block_ref q)" by (rule checked_blockD)
qed

text \<open>The certificates that verify in the sample environment.\<close>

lemma sample_net_certified:
  assumes "certified_by (sample_net_env D) qc a"
  shows "weak_votes (active_policy_sig qc) = None" and "\<exists>d \<in> set D. compute_finality_digest sum_sha a = Inr d"
proof -
  from assms obtain digest u where dig: "compute_finality_digest sum_sha a = Inr digest"
    and v: "sig_verify_signatures (env_bls (sample_net_env D)) (active_policy_sig qc) (bhs_active_finalizer_policy a) digest (create_weak_digest digest) = Inr u"
    by (auto simp: certified_by_def qc_verify_signatures_def Let_def rbind_Inr_iff sample_net_env_def)
  have len: "length (create_weak_digest digest) \<noteq> length (sha256_data d)" for d by (simp add: create_weak_digest_def weak_bls_sig_postfix_def)
  then have ne: "create_weak_digest digest \<noteq> sha256_data d" for d by metis
  show "weak_votes (active_policy_sig qc) = None" and "\<exists>d \<in> set D. compute_finality_digest sum_sha a = Inr d"
    using v dig ne by (auto simp: sig_verify_signatures_def rbind_Inr_iff ensure_Inr_iff sample_net_env_def split: option.splits)
qed

lemma sample_net_chain:
  assumes bs: "bs_init sum_sha sample_bls_api sample_parent None None sha256_zero = Inr g"
    and acc: "sample_net_accept (sample_net_env D) g 2 False = Inr b" "sample_net_accept (sample_net_env D) b 3 True = Inr c"
      "sample_net_accept (sample_net_env D) c 4 True = Inr d"
    and num: "bs_block_num g = 2" "bs_block_num b = 3" "bs_block_num c = 4"
  shows "accepted_chain (sample_net_env D) [] (bs_bhs g)" and "accepted_chain (sample_net_env D) [bs_bhs g] (bs_bhs b)"
    and "accepted_chain (sample_net_env D) [bs_bhs g, bs_bhs b] (bs_bhs c)" and "accepted_chain (sample_net_env D) [bs_bhs g, bs_bhs b, bs_bhs c] (bs_bhs d)"
    and "\<And>s. s \<in> {g, b, c, d} \<Longrightarrow> compute_finality_digest sum_sha (bs_bhs s) = Inr (bs_strong_digest s)"
proof -
  let ?E = "sample_net_env D"
  from bs have gb: "bs_bhs g = sample_parent" "compute_finality_digest sum_sha sample_parent = Inr (bs_strong_digest g)"
    by (auto simp: bs_init_def rbind_Inr_iff)
  have rg: "make_block_ref (env_sha ?E) (bs_bhs g) = Inr (bs_make_block_ref g)"
    using gb by (simp add: make_block_ref_def bs_make_block_ref_def bs_id_def bs_timestamp_def sample_net_env_def)
  show ag: "accepted_chain ?E [] (bs_bhs g)" using gb(1) sample_parent_num sample_parent_genesis by (intro accepted_chain.genesis) simp_all
  show ab: "accepted_chain ?E [bs_bhs g] (bs_bhs b)" using sample_net_step(1) [OF ag rg _ acc(1)] num by simp
  have rb: "make_block_ref (env_sha ?E) (bs_bhs b) = Inr (bs_make_block_ref b)" using sample_net_step(2) [OF ag rg _ acc(1)] num by simp
  show ac: "accepted_chain ?E [bs_bhs g, bs_bhs b] (bs_bhs c)" using sample_net_step(1) [OF ab rb _ acc(2)] num by simp
  have rc: "make_block_ref (env_sha ?E) (bs_bhs c) = Inr (bs_make_block_ref c)" using sample_net_step(2) [OF ab rb _ acc(2)] num by simp
  show "accepted_chain ?E [bs_bhs g, bs_bhs b, bs_bhs c] (bs_bhs d)" using sample_net_step(1) [OF ac rc _ acc(3)] num by simp
  have rd: "make_block_ref (env_sha ?E) (bs_bhs d) = Inr (bs_make_block_ref d)" using sample_net_step(2) [OF ac rc _ acc(3)] num by simp
  fix s assume "s \<in> {g, b, c, d}"
  with rg rb rc rd have "make_block_ref sum_sha (bs_bhs s) = Inr (bs_make_block_ref s)" by (auto simp: sample_net_env_def)
  then show "compute_finality_digest sum_sha (bs_bhs s) = Inr (bs_strong_digest s)"
    by (auto simp: make_block_ref_def bs_make_block_ref_def rbind_Inr_iff)
qed

lemma four_blocks_ok:
  assumes acc: "accepted_chain env [] g" "accepted_chain env [g] b" "accepted_chain env [g, b] c" "accepted_chain env [g, b, c] d"
    and st: "\<And>s. s \<in> {g, b, c, d} \<Longrightarrow> \<not> sha256_empty (bhs_block_id s) \<and> bhs_active_finalizer_policy s = net_policy N \<and> bhs_pending_finalizer_policy s = None"
    and ids: "distinct (map bhs_block_id [g, b, c, d])" and N: "net_env N = env" "net_blocks N = {[g], [g, b], [g, b, c], [g, b, c, d]}"
  shows "blocks_ok N"
proof -
  have "inj_on (\<lambda>ss. bhs_block_id (last ss)) (net_blocks N)" using ids by (auto simp: N inj_on_def)
  moreover have "p \<in> net_blocks N" if "ss \<in> net_blocks N" "prefix p ss" "p \<noteq> []" for p ss
    using that by (auto simp: N prefix_Cons)
  moreover have "accepted_pos env ss" "hd ss = g" "last ss \<in> {g, b, c, d}" if "ss \<in> net_blocks N" for ss
    using that acc by (auto simp: N accepted_pos_def)
  ultimately show ?thesis unfolding blocks_ok_def using st N(1) by metis
qed

lemma sample_net_unforged:
  assumes D: "D = [bs_strong_digest b, bs_strong_digest c]" and dig: "distinct (map bs_strong_digest [g, b, c, d])"
    and ref: "\<And>s. s \<in> {g, b, c, d} \<Longrightarrow> compute_finality_digest sum_sha (bs_bhs s) = Inr (bs_strong_digest s)"
    and vr: "vote_run (sample_fsi g) [b, c] = Inr ([(b, True), (c, True)], f)"
  shows "unforged (sample_network D g b c d)"
proof -
  let ?N = "sample_network D g b c d"
  have votes: "([bs_bhs g, bs_bhs b], True) \<in> finalizer_votes ?N i" "([bs_bhs g, bs_bhs b, bs_bhs c], True) \<in> finalizer_votes ?N i" for i
    unfolding finalizer_votes_def sample_network_def using vr by auto
  have pos: "weak_votes (active_policy_sig qc) = None \<and> (ss = [bs_bhs g, bs_bhs b] \<or> ss = [bs_bhs g, bs_bhs b, bs_bhs c])"
    if "ss \<in> net_blocks ?N" "certified_by (net_env ?N) qc (last ss)" for ss qc
  proof -
    have c: "certified_by (sample_net_env D) qc (last ss)" using that(2) by (simp add: sample_network_def)
    from sample_net_certified(2) [OF c] D have e: "compute_finality_digest sum_sha (last ss) \<in> {Inr (bs_strong_digest b), Inr (bs_strong_digest c)}" by auto
    from that(1) consider "ss = [bs_bhs g]" | "ss = [bs_bhs g, bs_bhs b]" | "ss = [bs_bhs g, bs_bhs b, bs_bhs c]" | "ss = [bs_bhs g, bs_bhs b, bs_bhs c, bs_bhs d]"
      unfolding sample_network_def by auto
    then show ?thesis
    proof cases
      case 1
      with e ref [of g] dig show ?thesis by simp
    next
      case 4
      with e ref [of d] dig show ?thesis by auto
    qed (use sample_net_certified(1) [OF c] in simp_all)
  qed
  show ?thesis unfolding unforged_def
  proof (intro ballI allI impI)
    fix ss qc i
    assume "ss \<in> net_blocks ?N" "certified_by (net_env ?N) qc (last ss)"
    from pos [OF this] votes [of i]
    show "(i \<in> voters (strong_votes (active_policy_sig qc)) \<longrightarrow> (ss, True) \<in> finalizer_votes ?N i) \<and>
      (i \<in> voters (weak_votes (active_policy_sig qc)) \<longrightarrow> (ss, False) \<in> finalizer_votes ?N i)" by auto
  qed
qed

lemma sample_network_exists:
  obtains D g b c d where "net_ok (sample_network D g b c d)" and "last_final_block_num (bs_core c) = Inr 2" and "last_final_block_num (bs_core d) = Inr 3"
proof -
  obtain D g b c d where run: "sample_net_run = Inr (D, g, b, c, d)" using sample_net_runs by (auto split: sum.splits)
  note ev = sample_net_runs [unfolded run sum.case prod.case]
  from ev obtain vs f where v: "vote_run (sample_fsi g) [b, c] = Inr (vs, f)" "map snd vs = [True, True]" by (auto split: sum.splits simp del: vote_run.simps)
  have "length vs = 2" using arg_cong [OF v(2), of length] by simp
  with subseq_same_length [OF vote_run_blocks [OF v(1)]] have "map fst vs = [b, c]" by simp
  with v(2) have "vs = [(b, True), (c, True)]" by (metis zip_Cons_Cons zip_Nil zip_map_fst_snd)
  with v(1) have vr: "vote_run (sample_fsi g) [b, c] = Inr ([(b, True), (c, True)], f)" by simp
  from ev have D: "D = [bs_strong_digest b, bs_strong_digest c]" and dig: "distinct (map bs_strong_digest [g, b, c, d])"
    and ids: "distinct (map bs_id [g, b, c, d])" and lib: "last_final_block_num (bs_core c) = Inr 2" "last_final_block_num (bs_core d) = Inr 3"
    by blast+
  from ev have num: "bs_block_num g = 2" "bs_block_num b = 3" "bs_block_num c = 4" by (simp_all del: vote_run.simps)
  from ev have st: "\<And>s. s \<in> {g, b, c, d} \<Longrightarrow> \<not> sha256_empty (bs_id s) \<and> bhs_active_finalizer_policy (bs_bhs s) = sample_policy \<and> bhs_pending_finalizer_policy (bs_bhs s) = None"
    unfolding list_all_iff by (auto simp del: vote_run.simps)
  let ?N = "sample_network D g b c d" and ?E = "sample_net_env D"
  from run have bs: "bs_init sum_sha sample_bls_api sample_parent None None sha256_zero = Inr g"
    and acc: "sample_net_accept ?E g 2 False = Inr b" "sample_net_accept ?E b 3 True = Inr c" "sample_net_accept ?E c 4 True = Inr d"
    unfolding sample_net_run_def rbind_Inr_iff sum.inject prod.inject by blast+
  note acc = sample_net_chain [OF bs acc num]
  have "blocks_ok ?N"
    by (rule four_blocks_ok [OF acc(1-4)]) (use st ids in \<open>auto simp: sample_network_def bs_id_def\<close>)
  moreover have "run_ok ?N i" for i
    by (simp add: run_ok_def sample_network_def sample_fsi_def unset_fsi_def bs_make_block_ref_def bs_id_def bs_timestamp_def)
  moreover have "honest_overlap ?N"
  proof -
    have "length (fp_finalizers sample_policy) = 4" "total_weight sample_policy = 4" "unat (fp_threshold sample_policy) = 3"
      by (simp_all add: sample_policy_def sample_finalizer_def total_weight_def)
    moreover have "- {..< 4 :: nat} \<inter> {..< 4} = {}" by auto
    ultimately show ?thesis using sample_policy_wf by (simp add: honest_overlap_def sample_network_def weight_of_def)
  qed
  moreover have "unforged ?N" by (rule sample_net_unforged [OF D dig acc(5) vr])
  ultimately have "net_ok ?N" by (simp add: net_ok_def)
  from that [OF this lib] show thesis .
qed

theorem final_blocks_never_conflict_witness:
  "\<exists>N x y. net_ok N \<and> x \<in> net_blocks N \<and> y \<in> net_blocks N \<and> length x = 4 \<and>
     last_final_block_num (bhs_core (last x)) = Inr 3 \<and> last_final_block_num (bhs_core (last y)) = Inr 2 \<and>
     (prefix (at_num x 3) (at_num y 2) \<or> prefix (at_num y 2) (at_num x 3))"
proof -
  obtain D g b c d where N: "net_ok (sample_network D g b c d)" and lib: "last_final_block_num (bs_core c) = Inr 2" "last_final_block_num (bs_core d) = Inr 3"
    using sample_network_exists .
  let ?N = "sample_network D g b c d" and ?x = "map bs_bhs [g, b, c, d]" and ?y = "map bs_bhs [g, b, c]"
  have m: "?x \<in> net_blocks ?N" "?y \<in> net_blocks ?N" by (simp_all add: sample_network_def)
  have l: "last_final_block_num (bhs_core (last ?x)) = Inr 3" "last_final_block_num (bhs_core (last ?y)) = Inr 2" using lib by simp_all
  from final_blocks_never_conflict [OF N m l] N m l show ?thesis by (intro exI [of _ ?N] exI [of _ ?x] exI [of _ ?y]) simp
qed

end
