(* ===== verification/Liveness.thy ===== *)
theory Liveness
  imports Voting Chain_Positions Qc_Aggregate
begin

text \<open>
  From votes to a certificate: finalizers whose locks admit a block vote for it, and once the votes of a
  quorum have been aggregated, in any order and among any other votes, the state of the block returns a certificate
  that passes the checks of the receivers.
\<close>

section \<open>A finalizer that may vote does vote\<close>






section \<open>Aggregating the votes\<close>











section \<open>Three of four finalizers\<close>







end
