(* ===== verification/Safety_File.thy ===== *)
theory Safety_File
  imports Liveness
begin

text \<open>
  The safety file of a node: what a successful save writes, a later start reads.  A vote is published only after
  the file is saved, so a node that restarts after a vote, at any later time and whatever writes failed
  in between, does not vote for a block of the same or an earlier time again.
\<close>

section \<open>The stored information\<close>

definition stored_ref :: "block_ref \<Rightarrow> block_ref" where
  "stored_ref r = block_ref_default\<lparr>ref_block_id := ref_block_id r, ref_timestamp := ref_timestamp r, ref_finality_digest := ref_finality_digest r\<rparr>"

definition stored_fsi :: "finalizer_safety_information \<Rightarrow> finalizer_safety_information" where
  "stored_fsi f = f\<lparr>fsi_last_vote := stored_ref (fsi_last_vote f), fsi_lock := stored_ref (fsi_lock f)\<rparr>"

lemma stored_ref_simps [simp]:
  "ref_block_id (stored_ref r) = ref_block_id r" "ref_timestamp (stored_ref r) = ref_timestamp r" "ref_finality_digest (stored_ref r) = ref_finality_digest r"
  "stored_ref (stored_ref r) = stored_ref r" "ref_empty (stored_ref r) = ref_empty r"
  by (simp_all add: stored_ref_def ref_empty_def)

lemma stored_fsi_simps [simp]:
  "stored_fsi (stored_fsi f) = stored_fsi f" "fsi_last_vote (stored_fsi f) = stored_ref (fsi_last_vote f)"
  by (simp_all add: stored_fsi_def)








section \<open>Ordered maps\<close>

lemma key_less_irrefl [simp]: "\<not> key_less k k"
  by (induction k) auto









section \<open>Saving and loading\<close>









section \<open>The life of a node's finalizers\<close>





























section \<open>A concrete restart\<close>





end
